(* ===== verification/NgxPrelude.thy ===== *)
theory NgxPrelude
  imports Main "HOL-Library.Word"
begin

text \<open>
  Shared vocabulary of the development: the machine integer types of the sources, the faults a
  C++ program can run into (undefined behaviour, uncaught exceptions, a thread that locks itself
  out), the result type of fallible operations with its sequencing operator, and generic lemmas
  on lists and words that several components use.
\<close>

unbundle bit_operations_syntax

type_synonym u8 = "8 word"
type_synonym u16 = "16 word"
type_synonym u32 = "32 word"
type_synonym u64 = "64 word"

section \<open>Faults and results\<close>

text \<open>
  A C++ operation either returns or runs into one of the following. A model function that can
  fault returns \<open>'a res\<close>: the left summand is the fault.
  \<^item> \<open>NullDeref\<close>: a null pointer is read or written through;
  \<^item> \<open>OutOfBounds\<close>: a write or read outside the object it addresses;
  \<^item> \<open>BadIterator\<close>: \<open>end()\<close> or an erased iterator is dereferenced or erased;
  \<^item> \<open>SelfDeadlock\<close>: a thread locks a non-recursive mutex it already owns;
  \<^item> \<open>UncaughtException\<close>: an exception nobody handles, which ends the process;
  \<^item> \<open>DeadMemory\<close>: memory is read before its first write, or used or released after its release;
  \<^item> \<open>Blocked\<close>: the loop has used up the environment's answers given to the model and would
    go on waiting or spinning.
\<close>

datatype fault =
    NullDeref
  | OutOfBounds
  | BadIterator
  | SelfDeadlock
  | UncaughtException
  | DeadMemory
  | Blocked

type_synonym 'a res = "fault + 'a"

fun res_bind :: "'a res \<Rightarrow> ('a \<Rightarrow> 'b res) \<Rightarrow> 'b res" where
  "res_bind (Inl e) f = Inl e"
| "res_bind (Inr x) f = f x"

fun of_option :: "fault \<Rightarrow> 'a option \<Rightarrow> 'a res" where
  "of_option e None = Inl e"
| "of_option e (Some x) = Inr x"

named_theorems res_intros \<open>when a sequenced computation returns or faults\<close>

lemma res_bind_Inr_iff [simp]:
  "res_bind m f = Inr y \<longleftrightarrow> (\<exists>x. m = Inr x \<and> f x = Inr y)"
  by (cases m) auto

lemma res_bind_Inl_iff:
  "res_bind m f = Inl e \<longleftrightarrow> m = Inl e \<or> (\<exists>x. m = Inr x \<and> f x = Inl e)"
  by (cases m) auto

lemma res_bind_assoc: "res_bind (res_bind m f) g = res_bind m (\<lambda>x. res_bind (f x) g)"
  by (cases m) auto

lemma res_bind_cong [fundef_cong]:
  "m = m' \<Longrightarrow> (\<And>x. m' = Inr x \<Longrightarrow> f x = f' x) \<Longrightarrow> res_bind m f = res_bind m' f'"
  by (cases m') auto

lemma of_option_Inr_iff [simp]: "of_option e m = Inr x \<longleftrightarrow> m = Some x"
  by (cases m) auto

lemma of_option_Inl_iff [simp]: "of_option e m = Inl e' \<longleftrightarrow> m = None \<and> e' = e"
  by (cases m) auto

text \<open>\<open>ends_in Q r\<close>: the computation ends, and when it returns, the result satisfies \<open>Q\<close>.\<close>

definition ends_in :: "('a \<Rightarrow> bool) \<Rightarrow> 'a res \<Rightarrow> bool" where
  "ends_in Q r \<longleftrightarrow> r \<noteq> Inl Blocked \<and> (\<forall>x. r = Inr x \<longrightarrow> Q x)"

lemma ends_in_Inr [res_intros]: "Q x \<Longrightarrow> ends_in Q (Inr x)"
  by (simp add: ends_in_def)

lemma ends_in_Inl [res_intros]: "e \<noteq> Blocked \<Longrightarrow> ends_in Q (Inl e)"
  by (simp add: ends_in_def)

lemma ends_in_bind [res_intros]:
  "r \<noteq> Inl Blocked \<Longrightarrow> (\<And>x. r = Inr x \<Longrightarrow> ends_in Q (f x)) \<Longrightarrow> ends_in Q (res_bind r f)"
  by (cases r) (auto simp: ends_in_def)

lemma ends_in_if [res_intros]:
  "(b \<Longrightarrow> ends_in Q x) \<Longrightarrow> (\<not> b \<Longrightarrow> ends_in Q y) \<Longrightarrow> ends_in Q (if b then x else y)"
  by simp

lemma ends_in_option [res_intros]:
  "(ob = None \<Longrightarrow> ends_in Q x) \<Longrightarrow> (\<And>a. ob = Some a \<Longrightarrow> ends_in Q (f a)) \<Longrightarrow>
   ends_in Q (case ob of None \<Rightarrow> x | Some a \<Rightarrow> f a)"
  by (cases ob) auto

lemma ends_in_weaken: "ends_in Q r \<Longrightarrow> (\<And>x. Q x \<Longrightarrow> Q' x) \<Longrightarrow> ends_in Q' r"
  by (auto simp: ends_in_def)

section \<open>Lists as memory\<close>

text \<open>
  \<open>poke off ys xs\<close> overwrites the cells of \<open>xs\<close> from offset \<open>off\<close> with \<open>ys\<close>, as
  \<^verbatim>\<open>memcpy(xs + off, ys, |ys|)\<close> does; a write that leaves the object is a fault.
\<close>

definition poke :: "nat \<Rightarrow> 'a list \<Rightarrow> 'a list \<Rightarrow> 'a list res" where
  "poke off ys xs =
     (if off + length ys \<le> length xs
      then Inr (take off xs @ ys @ drop (off + length ys) xs)
      else Inl OutOfBounds)"

lemma poke_length: "poke off ys xs = Inr zs \<Longrightarrow> length zs = length xs"
  by (auto simp: poke_def split: if_splits)

lemma poke_defined_iff: "(\<exists>zs. poke off ys xs = Inr zs) \<longleftrightarrow> off + length ys \<le> length xs"
  by (simp add: poke_def)

lemma poke_append:
  "length ys = length zs \<Longrightarrow> poke (length xs) ys (xs @ zs @ rest) = Inr (xs @ ys @ rest)"
  by (simp add: poke_def)

lemma poke_Inr_iff:
  "poke off ys xs = Inr zs \<longleftrightarrow>
     off + length ys \<le> length xs \<and> zs = take off xs @ ys @ drop (off + length ys) xs"
  by (auto simp: poke_def)

lemma length_filter_update:
  "j < length xs \<Longrightarrow>
   length (filter P (xs[j := w])) + of_bool (P (xs ! j)) = length (filter P xs) + of_bool (P w)"
proof (induction xs arbitrary: j)
  case (Cons x xs)
  then show ?case by (cases j) (auto simp: of_bool_def split: if_splits)
qed simp

section \<open>Words\<close>

text \<open>The bytes of a 16 bit value in memory order on the little-endian targets of the program.\<close>

definition le16 :: "u16 \<Rightarrow> u8 list" where
  "le16 x = [ucast x, ucast (drop_bit 8 x)]"

definition un_le16 :: "u8 \<Rightarrow> u8 \<Rightarrow> u16" where
  "un_le16 lo hi = ucast lo OR push_bit 8 (ucast hi)"

lemma un_le16_le16: "un_le16 (le16 x ! 0) (le16 x ! 1) = x"
  by (rule bit_word_eqI)
    (auto simp: un_le16_def le16_def bit_simps)

lemma length_le16 [simp]: "length (le16 x) = 2"
  by (simp add: le16_def)

lemma xor_right_cancel: "(x :: 'a::len word) XOR z = y XOR z \<Longrightarrow> x = y"
  unfolding bit_eq_iff by (auto simp: bit_xor_iff)

lemma xor_left_cancel: "(z :: 'a::len word) XOR x = z XOR y \<Longrightarrow> x = y"
  unfolding bit_eq_iff by (auto simp: bit_xor_iff)

lemma bit_above_u32: "bit (x :: u32) n \<Longrightarrow> n < 32"
  by (drule bit_imp_le_length) simp

end
