(* ===== verification/Crc32.thy ===== *)
theory Crc32
  imports NgxPrelude
begin

text \<open>
  The CRC-32 checksum of \<^verbatim>\<open>misc/ngx_c_crc32.cpp\<close>: the bit reflection helper, the
  initialisation of the lookup table, and the table driven checksum. The reference is the
  bit-serial shift register of CRC-32 (polynomial 0x04c11db7, reflected); the theorems say that
  the table driven routine computes it on every buffer and that a changed byte is always noticed.
\<close>

section \<open>The code\<close>

text \<open>
  \<^verbatim>\<open>CCRC32::Reflect\<close>: \<^verbatim>\<open>for(int i = 1; i < (ch + 1); i++)\<close> with \<^verbatim>\<open>ref\<close> shifted right and
  bit \<^verbatim>\<open>ch - i\<close> of \<^verbatim>\<open>value\<close> set when the low bit of \<^verbatim>\<open>ref\<close> is set.
\<close>

function Reflect_loop :: "nat \<Rightarrow> nat \<Rightarrow> u32 \<Rightarrow> u32 \<Rightarrow> u32" where
  "Reflect_loop i ch ref val =
     (if i < ch + 1
      then Reflect_loop (i + 1) ch (drop_bit 1 ref)
             (if ref AND 1 \<noteq> 0 then val OR push_bit (ch - i) 1 else val)
      else val)"
  by pat_completeness auto
termination
  by (relation "measure (\<lambda>(i, ch, ref, val). ch + 1 - i)") auto

declare Reflect_loop.simps [simp del]

definition Reflect :: "u32 \<Rightarrow> nat \<Rightarrow> u32" where
  "Reflect ref ch = Reflect_loop 1 ch ref 0"

definition ulPolynomial :: u32 where
  "ulPolynomial = 0x04c11db7"

text \<open>One pass of the inner loop of \<^verbatim>\<open>Init_CRC32_Table\<close>, and the value an entry ends with.\<close>

definition table_shift :: "u32 \<Rightarrow> u32" where
  "table_shift t = push_bit 1 t XOR (if t AND push_bit 31 1 \<noteq> 0 then ulPolynomial else 0)"

definition table_entry :: "nat \<Rightarrow> u32" where
  "table_entry i = Reflect ((table_shift ^^ 8) (push_bit 24 (Reflect (word_of_nat i) 8))) 32"

fun Init_CRC32_Table_loop :: "nat \<Rightarrow> nat \<Rightarrow> u32 list \<Rightarrow> u32 list" where
  "Init_CRC32_Table_loop 0 i tbl = tbl"
| "Init_CRC32_Table_loop (Suc n) i tbl = Init_CRC32_Table_loop n (i + 1) (tbl[i := table_entry i])"

text \<open>\<^verbatim>\<open>for(int i = 0; i <= 0xFF; i++)\<close> over the 256 cells of \<^verbatim>\<open>crc32_table\<close>.\<close>

definition Init_CRC32_Table :: "u32 list \<Rightarrow> u32 list" where
  "Init_CRC32_Table tbl = Init_CRC32_Table_loop 256 0 tbl"

definition crc32_table :: "u32 list" where
  "crc32_table = Init_CRC32_Table (replicate 256 0)"

text \<open>
  \<^verbatim>\<open>Get_CRC\<close>: one table step per byte of the buffer; the index \<^verbatim>\<open>(crc & 0xFF) ^ *buffer\<close> is
  looked up in the table, and reading past its 256 cells would be a fault.
\<close>

definition crc_step :: "u32 list \<Rightarrow> u32 \<Rightarrow> u8 \<Rightarrow> u32 res" where
  "crc_step tbl crc b =
     (let i = unat ((crc AND 0xFF) XOR ucast b)
      in if i < length tbl then Inr (drop_bit 8 crc XOR tbl ! i) else Inl OutOfBounds)"

fun Get_CRC_loop :: "u32 list \<Rightarrow> u32 \<Rightarrow> u8 list \<Rightarrow> u32 res" where
  "Get_CRC_loop tbl crc [] = Inr crc"
| "Get_CRC_loop tbl crc (b # bs) = res_bind (crc_step tbl crc b) (\<lambda>c. Get_CRC_loop tbl c bs)"

definition Get_CRC :: "u8 list \<Rightarrow> u32 res" where
  "Get_CRC buffer =
     res_bind (Get_CRC_loop crc32_table 0xffffffff buffer) (\<lambda>crc. Inr (crc XOR 0xffffffff))"

section \<open>The reference: the bit-serial register\<close>

definition crc_poly :: u32 where
  "crc_poly = 0xEDB88320"

definition crc_bit :: "u32 \<Rightarrow> u32" where
  "crc_bit r = drop_bit 1 r XOR (if bit r 0 then crc_poly else 0)"

definition crc_byte :: "u32 \<Rightarrow> u8 \<Rightarrow> u32" where
  "crc_byte r b = (crc_bit ^^ 8) (r XOR ucast b)"

definition crc32_ref :: "u8 list \<Rightarrow> u32" where
  "crc32_ref bs = NOT (foldl crc_byte (- 1) bs)"

section \<open>Reflection\<close>

lemma and_1_bit: "(x :: u32) AND 1 \<noteq> 0 \<longleftrightarrow> bit x 0"
  by (simp add: and_one_eq odd_iff_mod_2_eq_one bit_0)

lemma bit_Reflect_loop:
  "i \<le> ch + 1 \<Longrightarrow> ch \<le> 32 \<Longrightarrow> k < 32 \<Longrightarrow>
   bit (Reflect_loop i ch ref val) k \<longleftrightarrow>
     bit val k \<or> (k < ch + 1 - i \<and> bit ref (ch - i - k))"
proof (induction i ch ref val rule: Reflect_loop.induct)
  case (1 i ch ref val)
  show ?case
  proof (cases "i < ch + 1")
    case True
    have "bit (Reflect_loop (i + 1) ch (drop_bit 1 ref)
        (if ref AND 1 \<noteq> 0 then val OR push_bit (ch - i) 1 else val)) k \<longleftrightarrow>
        bit (if ref AND 1 \<noteq> 0 then val OR push_bit (ch - i) 1 else val) k \<or>
        (k < ch + 1 - (i + 1) \<and> bit (drop_bit 1 ref) (ch - (i + 1) - k))"
      using "1" True by simp
    moreover have "bit (if ref AND 1 \<noteq> 0 then val OR push_bit (ch - i) 1 else val) k \<longleftrightarrow>
        bit val k \<or> (k = ch - i \<and> bit ref 0)"
      using "1.prems" by (auto simp: and_1_bit bit_simps)
    moreover have "(k < ch + 1 - (i + 1) \<and> bit (drop_bit 1 ref) (ch - (i + 1) - k)) \<longleftrightarrow>
        (k < ch - i \<and> bit ref (ch - i - k))"
      by (auto simp: bit_drop_bit_eq Suc_diff_Suc)
    ultimately show ?thesis
      using True by (auto simp: Reflect_loop.simps [of i ch ref val])
  next
    case False
    then show ?thesis by (simp add: Reflect_loop.simps [of i ch ref val])
  qed
qed

lemma bit_Reflect: "ch \<le> 32 \<Longrightarrow> bit (Reflect x ch) k \<longleftrightarrow> k < ch \<and> bit x (ch - 1 - k)"
  using bit_Reflect_loop [of 1 ch k x 0] bit_above_u32 [of "Reflect x ch" k]
  by (cases "k < 32") (auto simp: Reflect_def)

lemma Reflect32_involution: "Reflect (Reflect x 32) 32 = x"
  by (rule bit_word_eqI) (auto simp: bit_Reflect)

lemma Reflect32_xor: "Reflect (x XOR y) 32 = Reflect x 32 XOR Reflect y 32"
  by (rule bit_word_eqI) (auto simp: bit_Reflect bit_simps)

lemma bit_push1: "bit (push_bit 1 (x :: u32)) k \<longleftrightarrow> 0 < k \<and> k < 32 \<and> bit x (k - 1)"
  unfolding bit_push_bit_iff by auto

lemma Reflect32_shift: "Reflect (push_bit 1 x) 32 = drop_bit 1 (Reflect x 32)"
  unfolding bit_eq_iff
  by (auto simp: bit_Reflect bit_push1 bit_drop_bit_eq simp del: push_bit_Suc One_nat_def)

lemma Reflect32_poly: "Reflect ulPolynomial 32 = crc_poly"
  by code_simp

lemma bit_Reflect_msb: "bit (Reflect t 32) 0 \<longleftrightarrow> bit t 31"
  by (simp add: bit_Reflect)

lemma and_msb: "(t :: u32) AND push_bit 31 1 \<noteq> 0 \<longleftrightarrow> bit t 31"
  by (metis and_exp_eq_0_iff_not_bit push_bit_of_1)

lemma Reflect32_table_shift: "Reflect (table_shift t) 32 = crc_bit (Reflect t 32)"
proof -
  have "Reflect (table_shift t) 32 =
      drop_bit 1 (Reflect t 32) XOR Reflect (if bit t 31 then ulPolynomial else 0) 32"
    unfolding table_shift_def and_msb Reflect32_xor Reflect32_shift ..
  also have "Reflect (if bit t 31 then ulPolynomial else 0) 32 = (if bit t 31 then crc_poly else 0)"
    by (auto simp: Reflect32_poly intro: bit_word_eqI simp: bit_Reflect)
  finally show ?thesis by (simp add: crc_bit_def bit_Reflect_msb)
qed

lemma Reflect32_table_shift_pow:
  "Reflect ((table_shift ^^ n) t) 32 = (crc_bit ^^ n) (Reflect t 32)"
  by (induction n) (simp_all add: Reflect32_table_shift)

lemma Reflect_byte: "unat x < 256 \<Longrightarrow> push_bit 24 (Reflect x 8) = Reflect x 32"
proof (rule bit_word_eqI)
  fix k assume x: "unat x < 256" and k: "k < LENGTH(32)"
  have "x = take_bit 8 x"
    using x by (simp add: word_unat_eq_iff unsigned_take_bit_eq take_bit_nat_eq_self)
  then have hi: "bit x n \<Longrightarrow> n < 8" for n
    by (metis bit_take_bit_iff)
  show "bit (push_bit 24 (Reflect x 8)) k = bit (Reflect x 32) k"
    using k hi [of "31 - k"] by (auto simp: bit_push_bit_iff bit_Reflect)
qed

text \<open>An entry of the table is eight register steps on its index.\<close>

lemma table_entry_ref: "i < 256 \<Longrightarrow> table_entry i = (crc_bit ^^ 8) (word_of_nat i)"
  by (simp add: table_entry_def Reflect32_table_shift_pow Reflect_byte unat_of_nat
      Reflect32_involution del: funpow.simps)

lemma length_Init_loop [simp]: "length (Init_CRC32_Table_loop n i tbl) = length tbl"
  by (induction n i tbl rule: Init_CRC32_Table_loop.induct) auto

lemma nth_Init_loop:
  "k < length tbl \<Longrightarrow>
   Init_CRC32_Table_loop n i tbl ! k = (if i \<le> k \<and> k < i + n then table_entry k else tbl ! k)"
  by (induction n i tbl rule: Init_CRC32_Table_loop.induct) (auto simp: nth_list_update Suc_le_eq order_le_less)

lemma length_crc32_table [simp]: "length crc32_table = 256"
  by (simp add: crc32_table_def Init_CRC32_Table_def)

lemma nth_crc32_table: "i < 256 \<Longrightarrow> crc32_table ! i = (crc_bit ^^ 8) (word_of_nat i)"
  by (simp add: crc32_table_def Init_CRC32_Table_def nth_Init_loop table_entry_ref)

section \<open>The register is linear and injective\<close>

lemma crc_bit_xor: "crc_bit (x XOR y) = crc_bit x XOR crc_bit y"
  by (rule bit_word_eqI) (auto simp: crc_bit_def bit_simps)

lemma crc_bit_pow_xor: "(crc_bit ^^ n) (x XOR y) = (crc_bit ^^ n) x XOR (crc_bit ^^ n) y"
  by (induction n) (simp_all add: crc_bit_xor)

lemma crc_bit_shift: "\<not> bit x 0 \<Longrightarrow> crc_bit x = drop_bit 1 x"
  by (simp add: crc_bit_def)

lemma crc_bit_pow_shift:
  "(\<And>k. k < n \<Longrightarrow> \<not> bit x k) \<Longrightarrow> (crc_bit ^^ n) x = drop_bit n x"
proof (induction n)
  case (Suc n)
  then have "(crc_bit ^^ Suc n) x = crc_bit (drop_bit n x)" by simp
  also have "\<dots> = drop_bit 1 (drop_bit n x)"
    using Suc.prems [of n] by (simp add: crc_bit_shift bit_drop_bit_eq)
  finally show ?case by (simp add: drop_bit_drop_bit)
qed simp

lemma crc_bit_zero: "crc_bit x = 0 \<Longrightarrow> x = 0"
proof -
  assume z: "crc_bit x = 0"
  have top: "bit crc_poly 31" by code_simp
  have "\<not> bit x 0"
  proof
    assume "bit x 0"
    then have "bit (crc_bit x) 31"
      using top bit_above_u32 [of x 32] by (auto simp: crc_bit_def bit_simps)
    then show False by (simp add: z)
  qed
  then have "drop_bit 1 x = 0" using z by (simp add: crc_bit_shift)
  then have "bit (drop_bit 1 x) k \<longleftrightarrow> False" for k by (simp only: bit_0_eq) simp
  then have "\<not> bit x (Suc k)" for k by (simp add: bit_drop_bit_eq)
  with \<open>\<not> bit x 0\<close> have "\<not> bit x k" for k by (cases k) auto
  then show "x = 0" by (intro bit_word_eqI) simp
qed

lemma crc_bit_pow_zero: "(crc_bit ^^ n) x = 0 \<Longrightarrow> x = 0"
  by (induction n arbitrary: x) (auto dest: crc_bit_zero)

lemma crc_bit_pow_inj: "(crc_bit ^^ n) x = (crc_bit ^^ n) y \<Longrightarrow> x = y"
proof -
  assume "(crc_bit ^^ n) x = (crc_bit ^^ n) y"
  then have "(crc_bit ^^ n) (x XOR y) = 0" by (simp add: crc_bit_pow_xor)
  then have "x XOR y = 0" by (rule crc_bit_pow_zero)
  then show "x = y" by (metis xor.assoc xor.right_neutral xor_self_eq)
qed

section \<open>The table driven checksum\<close>

lemma take_bit_ucast_byte: "take_bit 8 (ucast (b :: u8) :: u32) = ucast b"
  by (rule bit_word_eqI) (auto simp: bit_simps dest: bit_imp_le_length)

lemma low_byte_index: "(crc AND 0xFF) XOR ucast (b :: u8) = take_bit 8 ((crc :: u32) XOR ucast b)"
  by (simp add: take_bit_ucast_byte) (simp add: take_bit_eq_mask mask_eq_exp_minus_1)

lemma unat_low_byte: "unat (take_bit 8 (x :: u32)) < 256"
  using take_bit_nat_less_exp [of 8 "unat x"] by (simp add: unsigned_take_bit_eq)

lemma crc_byte_split:
  "(crc_bit ^^ 8) x = drop_bit 8 x XOR (crc_bit ^^ 8) (take_bit 8 (x :: u32))"
proof -
  have x: "x = push_bit 8 (drop_bit 8 x) XOR take_bit 8 x"
    by (rule bit_word_eqI) (auto simp: bit_simps)
  have "(crc_bit ^^ 8) (push_bit 8 (drop_bit 8 x)) = drop_bit 8 x"
    by (subst crc_bit_pow_shift)
      (auto simp: bit_simps bit_eq_iff dest: bit_above_u32)
  then show ?thesis
    by (subst x) (simp only: crc_bit_pow_xor)
qed

lemma drop_bit_xor_byte: "drop_bit 8 (crc XOR ucast (b :: u8)) = drop_bit 8 (crc :: u32)"
  by (rule bit_word_eqI) (auto simp: bit_simps dest: bit_imp_le_length)

lemma crc_step_ref: "crc_step crc32_table crc b = Inr (crc_byte crc b)"
proof -
  let ?x = "crc XOR ucast b"
  have "crc32_table ! unat (take_bit 8 ?x) = (crc_bit ^^ 8) (take_bit 8 ?x)"
    by (simp add: nth_crc32_table unat_low_byte del: funpow.simps take_bit_xor)
  then show ?thesis
    by (simp add: crc_step_def low_byte_index unat_low_byte crc_byte_def
        crc_byte_split [of ?x] drop_bit_xor_byte del: funpow.simps take_bit_xor drop_bit_xor)
qed

lemma Get_CRC_loop_ref: "Get_CRC_loop crc32_table crc bs = Inr (foldl crc_byte crc bs)"
  by (induction bs arbitrary: crc) (simp_all add: crc_step_ref)

lemma Get_CRC_eq: "Get_CRC bs = Inr (crc32_ref bs)"
proof -
  have "(0xffffffff :: u32) = - 1" by simp
  then show ?thesis
    by (simp only: Get_CRC_def Get_CRC_loop_ref crc32_ref_def res_bind.simps)
      (simp add: bit_eq_iff bit_simps)
qed

lemma crc_byte_inj_left: "crc_byte c b = crc_byte c' b \<Longrightarrow> c = c'"
  unfolding crc_byte_def by (drule crc_bit_pow_inj) (rule xor_right_cancel)

lemma crc_byte_inj_right: "crc_byte c b = crc_byte c b' \<Longrightarrow> b = b'"
  unfolding crc_byte_def
  by (drule crc_bit_pow_inj, drule xor_left_cancel) (auto simp: bit_eq_iff bit_simps)

lemma foldl_crc_byte_inj: "foldl crc_byte c bs = foldl crc_byte c' bs \<Longrightarrow> c = c'"
  by (induction bs arbitrary: c c') (auto dest: crc_byte_inj_left)

section \<open>Properties\<close>

text \<open>
  C13. For every buffer, the table driven \<^verbatim>\<open>Get_CRC\<close> returns the CRC-32 of the bit-serial shift
  register: the table look-ups stay inside the table and the result is the reference checksum.
\<close>

theorem Get_CRC_is_crc32: "Get_CRC buffer = Inr (crc32_ref buffer)"
  by (rule Get_CRC_eq)

text \<open>
  Changing one byte of a buffer, whatever stands before and after it, always changes the
  checksum \<^verbatim>\<open>Get_CRC\<close> computes, so a corrupted byte is always detected.
\<close>

theorem Get_CRC_detects_byte:
  assumes "b \<noteq> b'"
  shows "Get_CRC (xs @ b # ys) \<noteq> Get_CRC (xs @ b' # ys)"
proof
  assume "Get_CRC (xs @ b # ys) = Get_CRC (xs @ b' # ys)"
  then have "foldl crc_byte (crc_byte (foldl crc_byte (- 1) xs) b) ys =
      foldl crc_byte (crc_byte (foldl crc_byte (- 1) xs) b') ys"
    by (simp add: Get_CRC_eq crc32_ref_def)
  then have "crc_byte (foldl crc_byte (- 1) xs) b = crc_byte (foldl crc_byte (- 1) xs) b'"
    by (rule foldl_crc_byte_inj)
  then have "b = b'" by (rule crc_byte_inj_right)
  with assms show False ..
qed

theorem Get_CRC_detects_byte_witness:
  "(0x41 :: u8) \<noteq> 0x42 \<and> Get_CRC ([1, 2] @ 0x41 # [3]) \<noteq> Get_CRC ([1, 2] @ 0x42 # [3])"
proof -
  have ne: "(0x41 :: u8) \<noteq> 0x42" by simp
  show ?thesis using ne Get_CRC_detects_byte [OF ne, of "[1, 2]" "[3]"] by simp
qed

end
