(* ===== verification/CString.thy ===== *)
theory CString
  imports NgxPrelude "HOL-Library.Char_ord"
begin

text \<open>
  What the sources use of the C and C++ string libraries. A C string that code reads through a
  pointer is the list of characters up to its terminator; a character buffer is a list of
  characters, a pointer into it an index. Null pointers returned by the search functions are
  \<open>None\<close>. \<^verbatim>\<open>std::stoi\<close> throws on text that is no number or does not fit an \<^verbatim>\<open>int\<close>.
\<close>

section \<open>Characters\<close>

abbreviation NUL :: char where "NUL \<equiv> CHR 0x00"
abbreviation TAB :: char where "TAB \<equiv> CHR 0x09"
abbreviation LF :: char where "LF \<equiv> CHR 0x0A"
abbreviation CR :: char where "CR \<equiv> CHR 0x0D"
abbreviation SP :: char where "SP \<equiv> CHR 0x20"
abbreviation CRLF :: string where "CRLF \<equiv> [CHR 0x0D, CHR 0x0A]"

definition isspace :: "char \<Rightarrow> bool" where
  "isspace c \<longleftrightarrow> c \<in> {SP, TAB, LF, CHR 0x0B, CHR 0x0C, CR}"

definition isdigit :: "char \<Rightarrow> bool" where
  "isdigit c \<longleftrightarrow> 48 \<le> (of_char c :: nat) \<and> (of_char c :: nat) \<le> 57"

definition digit_val :: "char \<Rightarrow> nat" where
  "digit_val c = of_char c - 48"

definition digit_char :: "nat \<Rightarrow> char" where
  "digit_char d = char_of (48 + d)"

definition tolower :: "char \<Rightarrow> char" where
  "tolower c =
     (if 65 \<le> (of_char c :: nat) \<and> (of_char c :: nat) \<le> 90
      then char_of ((of_char c :: nat) + 32) else c)"

section \<open>C strings\<close>

definition cstr :: "char list \<Rightarrow> string" where
  "cstr buf = takeWhile (\<lambda>c. c \<noteq> NUL) buf"

definition strcasecmp0 :: "string \<Rightarrow> string \<Rightarrow> bool" where
  "strcasecmp0 a b \<longleftrightarrow> map tolower a = map tolower b"

definition strncasecmp0 :: "string \<Rightarrow> string \<Rightarrow> nat \<Rightarrow> bool" where
  "strncasecmp0 a b n \<longleftrightarrow> map tolower (take n a) = map tolower (take n b)"

text \<open>\<^verbatim>\<open>strpbrk\<close>, \<^verbatim>\<open>strchr\<close> and \<^verbatim>\<open>strspn\<close> on the C string at index \<open>p\<close> of a buffer.\<close>

fun find_index :: "('a \<Rightarrow> bool) \<Rightarrow> 'a list \<Rightarrow> nat option" where
  "find_index P [] = None"
| "find_index P (x # xs) = (if P x then Some 0 else map_option Suc (find_index P xs))"

definition strpbrk :: "char list \<Rightarrow> nat \<Rightarrow> char list \<Rightarrow> nat option" where
  "strpbrk buf p accept = map_option (\<lambda>k. p + k) (find_index (\<lambda>c. c \<in> set accept) (cstr (drop p buf)))"

definition strchr :: "char list \<Rightarrow> nat \<Rightarrow> char \<Rightarrow> nat option" where
  "strchr buf p ch = map_option (\<lambda>k. p + k) (find_index (\<lambda>c. c = ch) (cstr (drop p buf)))"

definition strspn :: "char list \<Rightarrow> nat \<Rightarrow> char list \<Rightarrow> nat" where
  "strspn buf p accept = length (takeWhile (\<lambda>c. c \<in> set accept) (cstr (drop p buf)))"

section \<open>Numbers\<close>

fun digits_val :: "nat \<Rightarrow> string \<Rightarrow> nat" where
  "digits_val acc [] = acc"
| "digits_val acc (c # cs) = digits_val (10 * acc + digit_val c) cs"

definition INT_MAX :: int where "INT_MAX = 2147483647"
definition INT_MIN :: int where "INT_MIN = - 2147483648"

text \<open>
  \<^verbatim>\<open>std::stoi\<close> in base 10: leading white space, a sign, digits; what follows is ignored. No digit is
  \<^verbatim>\<open>std::invalid_argument\<close>, a value outside \<^verbatim>\<open>int\<close> is \<^verbatim>\<open>std::out_of_range\<close>.
\<close>

definition stoi :: "string \<Rightarrow> int res" where
  "stoi str =
     (let s = dropWhile isspace str;
          neg = (s \<noteq> [] \<and> hd s = CHR ''-'');
          t = (if s \<noteq> [] \<and> (hd s = CHR ''-'' \<or> hd s = CHR ''+'') then tl s else s);
          ds = takeWhile isdigit t;
          v = (if neg then - int (digits_val 0 ds) else int (digits_val 0 ds))
      in if ds = [] then Inl UncaughtException
         else if INT_MIN \<le> v \<and> v \<le> INT_MAX then Inr v
         else Inl UncaughtException)"

fun nat_to_string :: "nat \<Rightarrow> string" where
  "nat_to_string n =
     (if n < 10 then [digit_char n] else nat_to_string (n div 10) @ [digit_char (n mod 10)])"

declare nat_to_string.simps [simp del]

definition to_string :: "int \<Rightarrow> string" where
  "to_string i = (if i < 0 then CHR ''-'' # nat_to_string (nat (- i)) else nat_to_string (nat i))"

text \<open>32 bit signed arithmetic.\<close>

definition wrap32 :: "int \<Rightarrow> int" where
  "wrap32 i = (i + 2 ^ 31) mod 2 ^ 32 - 2 ^ 31"

section \<open>Lemmas\<close>

lemma wrap32_small: "0 \<le> i \<Longrightarrow> i < 2 ^ 31 \<Longrightarrow> wrap32 i = i"
  by (simp add: wrap32_def)

lemma of_char_digit_char: "d < 10 \<Longrightarrow> of_char (digit_char d) = (48 + d :: nat)"
  by (simp add: digit_char_def)

lemma isdigit_digit_char [simp]: "d < 10 \<Longrightarrow> isdigit (digit_char d)"
  by (simp add: isdigit_def of_char_digit_char)

lemma digit_val_digit_char [simp]: "d < 10 \<Longrightarrow> digit_val (digit_char d) = d"
  by (simp add: digit_val_def of_char_digit_char)

lemma isdigit_not_special:
  "isdigit c \<Longrightarrow> \<not> isspace c \<and> c \<noteq> CHR ''-'' \<and> c \<noteq> CHR ''+'' \<and> c \<noteq> NUL \<and> c \<noteq> CHR '';''"
  by (auto simp: isdigit_def isspace_def)

lemma digits_val_append: "digits_val acc (xs @ ys) = digits_val (digits_val acc xs) ys"
  by (induction acc xs rule: digits_val.induct) auto

lemma nat_to_string_digits: "\<forall>c \<in> set (nat_to_string n). isdigit c"
proof (induction n rule: nat_to_string.induct)
  case (1 n)
  then show ?case by (subst nat_to_string.simps) auto
qed

lemma nat_to_string_nonempty [simp]: "nat_to_string n \<noteq> []"
  by (subst nat_to_string.simps) simp

lemma digits_val_nat_to_string [simp]: "digits_val 0 (nat_to_string n) = n"
proof (induction n rule: nat_to_string.induct)
  case (1 n)
  then show ?case by (subst nat_to_string.simps) (auto simp: digits_val_append)
qed

lemma length_nat_to_string_bound: "0 < k \<Longrightarrow> n < 10 ^ k \<Longrightarrow> length (nat_to_string n) \<le> k"
proof (induction n arbitrary: k rule: nat_to_string.induct)
  case (1 n)
  show ?case
  proof (cases "n < 10")
    case False
    then obtain k' where k': "k = Suc k'" "0 < k'"
      using "1.prems" by (cases k; cases "k - 1") auto
    then have "n div 10 < 10 ^ k'" using "1.prems" by auto
    then have "length (nat_to_string (n div 10)) \<le> k'" using "1.IH" False k' by simp
    with False k' show ?thesis by (subst nat_to_string.simps) simp
  qed (use "1.prems" in \<open>subst nat_to_string.simps, simp\<close>)
qed

lemma takeWhile_all_append: "\<forall>x \<in> set xs. P x \<Longrightarrow> takeWhile P (xs @ ys) = xs @ takeWhile P ys"
  by (induction xs) auto

lemma nat_to_string_Cons: "\<exists>c cs. nat_to_string n = c # cs \<and> isdigit c"
  using nat_to_string_digits [of n] by (cases "nat_to_string n") auto

lemma stoi_to_string:
  assumes "INT_MIN \<le> i" and "i \<le> INT_MAX" and "rest = [] \<or> \<not> isdigit (hd rest)"
  shows "stoi (to_string i @ rest) = Inr i"
proof -
  have tw: "takeWhile isdigit (nat_to_string n @ rest) = nat_to_string n" for n
    using assms(3) nat_to_string_digits [of n]
    by (cases rest) (auto simp: takeWhile_all_append)
  obtain c cs where pos: "nat_to_string (nat i) = c # cs" "isdigit c"
    using nat_to_string_Cons by blast
  show ?thesis
  proof (cases "i < 0")
    case True
    have "dropWhile isspace (to_string i @ rest) = CHR ''-'' # nat_to_string (nat (- i)) @ rest"
      using True by (simp add: to_string_def isspace_def)
    then show ?thesis
      using True assms tw by (simp add: stoi_def)
  next
    case False
    have d: "dropWhile isspace (to_string i @ rest) = nat_to_string (nat i) @ rest"
      using False pos isdigit_not_special [of c] by (simp add: to_string_def)
    have "hd (nat_to_string (nat i) @ rest) \<noteq> CHR ''-'' \<and> hd (nat_to_string (nat i) @ rest) \<noteq> CHR ''+''"
      using pos isdigit_not_special [of c] by simp
    then show ?thesis
      using False assms tw [of "nat i"] by (simp add: stoi_def d)
  qed
qed

lemma find_index_Some:
  "find_index P xs = Some k \<Longrightarrow> k < length xs \<and> P (xs ! k) \<and> (\<forall>j < k. \<not> P (xs ! j))"
proof (induction xs arbitrary: k)
  case (Cons x xs)
  then show ?case by (cases k) (auto split: if_splits simp: less_Suc_eq_0_disj)
qed simp

lemma find_index_None: "find_index P xs = None \<longleftrightarrow> (\<forall>x \<in> set xs. \<not> P x)"
  by (induction xs) auto

lemma find_index_append:
  "\<forall>x \<in> set xs. \<not> P x \<Longrightarrow> P y \<Longrightarrow> find_index P (xs @ y # ys) = Some (length xs)"
  by (induction xs) auto

lemma cstr_append_NUL [simp]: "NUL \<notin> set xs \<Longrightarrow> cstr (xs @ NUL # ys) = xs"
  unfolding cstr_def by (induction xs) auto

lemma cstr_no_NUL: "NUL \<notin> set xs \<Longrightarrow> cstr xs = xs"
  unfolding cstr_def by (induction xs) auto

lemma NUL_notin_cstr [simp]: "NUL \<notin> set (cstr xs)"
  unfolding cstr_def by (auto dest: set_takeWhileD)

lemma length_cstr_le: "length (cstr xs) \<le> length xs"
  by (simp add: cstr_def length_takeWhile_le)

end
