(* ===== verification/Conf.thy ===== *)
theory Conf
  imports CString
begin

text \<open>
  The configuration component: \<^verbatim>\<open>CConfig\<close> of \<^verbatim>\<open>app/ngx_c_conf.cpp\<close> and \<^verbatim>\<open>_include/ngx_c_conf.h\<close>.
  \<^verbatim>\<open>Load\<close> reads the file line by line through \<^verbatim>\<open>std::ifstream::getline\<close> (modelled with its
  \<^verbatim>\<open>eofbit\<close> and \<^verbatim>\<open>failbit\<close>) and appends one item per setting; \<^verbatim>\<open>GetString\<close> and \<^verbatim>\<open>GetNum\<close> look
  items up by name.
\<close>

section \<open>The input stream\<close>

record istream =
  rest :: string
  eofbit :: bool
  failbit :: bool

text \<open>
  \<^verbatim>\<open>ifs.getline(buf, n)\<close>: on a stream that is not good it stores the empty string and sets
  \<^verbatim>\<open>failbit\<close>; otherwise it stores the characters up to the line feed or the end of the file, and
  gives up with \<^verbatim>\<open>failbit\<close> after \<^verbatim>\<open>n - 1\<close> characters of a longer line.
\<close>

definition getline :: "nat \<Rightarrow> istream \<Rightarrow> string \<times> istream" where
  "getline n s =
     (let line = takeWhile (\<lambda>c. c \<noteq> LF) (rest s) in
      if eofbit s \<or> failbit s then ([], s\<lparr>failbit := True\<rparr>)
      else if n - 1 < length line
        then (take (n - 1) line, s\<lparr>rest := drop (n - 1) (rest s), failbit := True\<rparr>)
      else if length line = length (rest s)
        then (line, s\<lparr>rest := [], eofbit := True, failbit := (line = [])\<rparr>)
      else (line, s\<lparr>rest := drop (Suc (length line)) (rest s)\<rparr>))"

section \<open>Items and \<open>Load\<close>\<close>

record CConfItem =
  ItemName :: string
  IterContent :: string

text \<open>\<^verbatim>\<open>int pos = str.find(c)\<close>: \<^verbatim>\<open>npos\<close> becomes -1.\<close>

definition str_find :: "char \<Rightarrow> string \<Rightarrow> int" where
  "str_find c s = (case find_index (\<lambda>x. x = c) s of None \<Rightarrow> - 1 | Some k \<Rightarrow> int k)"

text \<open>
  \<^verbatim>\<open>s.substr(pos, n)\<close> with an \<^verbatim>\<open>int\<close> count: a negative count is a huge \<^verbatim>\<open>size_t\<close>, so the rest of the
  string; a position behind the end throws \<^verbatim>\<open>std::out_of_range\<close>.
\<close>

definition substr :: "string \<Rightarrow> int \<Rightarrow> int \<Rightarrow> string res" where
  "substr s pos n =
     (if pos < 0 \<or> int (length s) < pos then Inl UncaughtException
      else Inr (if n < 0 then drop (nat pos) s else take (nat n) (drop (nat pos) s)))"

definition skipped_line :: "string \<Rightarrow> bool" where
  "skipped_line linebuf \<longleftrightarrow>
     linebuf = [] \<or> hd linebuf \<in> {SP, CHR ''#'', CHR '';'', TAB, LF, CHR ''['', NUL}"

definition parse_conf_line :: "string \<Rightarrow> CConfItem res" where
  "parse_conf_line confdata =
     (let posa = str_find (CHR '';'') confdata;
          posb = str_find (CHR ''='') confdata;
          posc = str_find SP confdata in
      res_bind (if posc = - 1 \<or> posc > posb then substr confdata 0 posb else substr confdata 0 posc)
        (\<lambda>name. res_bind (substr confdata (posb + 1) (posa - posb - 1))
          (\<lambda>cont. Inr \<lparr>ItemName = name, IterContent = dropWhile (\<lambda>c. c = SP) cont\<rparr>)))"

text \<open>
  The loop \<^verbatim>\<open>while(!ifs.eof())\<close> with its \<^verbatim>\<open>linebuf[501]\<close>. It need not end, so the number of passes
  is bounded by a fuel argument and running out of it is \<open>None\<close>. What \<^verbatim>\<open>strlen\<close> sees of a line ends
  at its first null character.
\<close>

fun Load_loop :: "nat \<Rightarrow> istream \<Rightarrow> CConfItem list \<Rightarrow> CConfItem list res option" where
  "Load_loop 0 s items = None"
| "Load_loop (Suc fuel) s items =
     (if eofbit s then Some (Inr items)
      else let (line, s') = getline 500 s in
        if skipped_line line then Load_loop fuel s' items
        else (case parse_conf_line (cstr line) of
                Inl e \<Rightarrow> Some (Inl e)
              | Inr item \<Rightarrow> Load_loop fuel s' (items @ [item])))"

text \<open>\<^verbatim>\<open>Load\<close>: \<open>None\<close> as the file is a file that cannot be opened.\<close>

definition Load :: "nat \<Rightarrow> string option \<Rightarrow> CConfItem list \<Rightarrow> (bool \<times> CConfItem list) res option" where
  "Load fuel conf items =
     (case conf of
        None \<Rightarrow> Some (Inr (False, items))
      | Some content \<Rightarrow>
          map_option (\<lambda>r. res_bind r (\<lambda>items'. Inr (True, items')))
            (Load_loop fuel \<lparr>rest = content, eofbit = False, failbit = False\<rparr> items))"

section \<open>Look-up\<close>

definition find_item :: "string \<Rightarrow> CConfItem list \<Rightarrow> CConfItem option" where
  "find_item name items = find (\<lambda>p1. ItemName p1 = name) items"

definition GetString :: "CConfItem list \<Rightarrow> string \<Rightarrow> string option" where
  "GetString items p_itemname = map_option IterContent (find_item p_itemname items)"

text \<open>\<^verbatim>\<open>GetNum<int>(name, def)\<close>: the returned flag and the value \<^verbatim>\<open>def\<close> ends with.\<close>

definition GetNum :: "CConfItem list \<Rightarrow> string \<Rightarrow> int \<Rightarrow> (bool \<times> int) res" where
  "GetNum items p_itemname def0 =
     (case find_item p_itemname items of
        None \<Rightarrow> Inr (False, def0)
      | Some it \<Rightarrow> res_bind (stoi (IterContent it)) (\<lambda>v. Inr (True, v)))"

text \<open>\<^verbatim>\<open>StoT<short>\<close>: the conversion keeps the lower 16 bits.\<close>

definition StoT_short :: "string \<Rightarrow> int res" where
  "StoT_short str = res_bind (stoi str) (\<lambda>v. Inr (signed_take_bit 15 v))"

section \<open>Lemmas\<close>

lemma StoT_short_exact:
  assumes "- 32768 \<le> i" "i < 32768"
  shows "StoT_short (to_string i) = Inr i" "StoT_short (to_string (i + 65536)) = Inr i"
proof -
  have "(98304 + i) mod 65536 = (i + 32768 + 65536) mod 65536" by (simp add: add.commute)
  also have "\<dots> = i + 32768" using assms by (simp only: mod_add_self2) simp
  finally have "(98304 + i) mod 65536 = i + 32768" .
  then have "signed_take_bit 15 i = i" "signed_take_bit 15 (i + 65536) = i"
    using assms by (simp_all add: signed_take_bit_int_eq_self signed_take_bit_eq_take_bit_shift take_bit_eq_mod)
  then show "StoT_short (to_string i) = Inr i" "StoT_short (to_string (i + 65536)) = Inr i"
    using stoi_to_string [of i "[]"] stoi_to_string [of "i + 65536" "[]"] assms
    by (simp_all add: StoT_short_def INT_MIN_def INT_MAX_def)
qed

lemma str_find_None: "c \<notin> set s \<Longrightarrow> str_find c s = - 1"
  by (auto simp: str_find_def find_index_None split: option.splits)

lemma str_find_append: "c \<notin> set xs \<Longrightarrow> str_find c (xs @ c # ys) = int (length xs)"
  unfolding str_find_def by (subst find_index_append) auto

lemma str_find_lower: "- 1 \<le> str_find c s"
  by (auto simp: str_find_def split: option.splits)

lemma str_find_upper: "str_find c s < int (length s) \<or> str_find c s = - 1"
  by (auto simp: str_find_def split: option.splits dest: find_index_Some)

lemma substr_defined: "0 \<le> pos \<Longrightarrow> pos \<le> int (length s) \<Longrightarrow> \<exists>t. substr s pos n = Inr t"
  by (simp add: substr_def)

text \<open>No line makes \<^verbatim>\<open>substr\<close> throw.\<close>

lemma parse_conf_line_defined: "\<exists>item. parse_conf_line confdata = Inr item"
proof -
  let ?b = "str_find (CHR ''='') confdata"
  let ?n = "str_find (CHR '';'') confdata - ?b - 1"
  obtain t where "substr confdata (?b + 1) ?n = Inr t"
    using str_find_lower [of "CHR ''=''" confdata] str_find_upper [of "CHR ''=''" confdata]
      substr_defined [of "?b + 1" confdata ?n] by auto
  moreover have "substr confdata 0 n \<noteq> Inl e" for n e
    by (simp add: substr_def)
  ultimately show ?thesis
    by (cases "substr confdata 0 ?b"; cases "substr confdata 0 (str_find SP confdata)")
      (auto simp: parse_conf_line_def Let_def)
qed

text \<open>A file whose next line is complete and short enough.\<close>

lemma getline_line:
  assumes "LF \<notin> set line" and "length line \<le> 499"
  shows "getline 500 \<lparr>rest = line @ LF # post, eofbit = False, failbit = False\<rparr> =
    (line, \<lparr>rest = post, eofbit = False, failbit = False\<rparr>)"
proof -
  have tw: "takeWhile (\<lambda>c. c \<noteq> LF) (line @ LF # post) = line"
    using assms(1) by (subst takeWhile_all_append) auto
  show ?thesis using assms(2) by (simp add: getline_def tw)
qed

lemma getline_last:
  assumes "LF \<notin> set line" and "length line \<le> 499"
  shows "getline 500 \<lparr>rest = line, eofbit = False, failbit = False\<rparr> =
    (line, \<lparr>rest = [], eofbit = True, failbit = (line = [])\<rparr>)"
proof -
  have tw: "takeWhile (\<lambda>c. c \<noteq> LF) line = line"
    using assms(1) by (auto simp: takeWhile_eq_all_conv)
  show ?thesis using assms(2) by (simp add: getline_def tw)
qed

lemma getline_long:
  assumes "499 < length (takeWhile (\<lambda>c. c \<noteq> LF) content)"
  shows "failbit (snd (getline 500 \<lparr>rest = content, eofbit = False, failbit = False\<rparr>))
    \<and> \<not> eofbit (snd (getline 500 \<lparr>rest = content, eofbit = False, failbit = False\<rparr>))"
  using assms by (simp add: getline_def)


text \<open>
  The items the lines of a file stand for, and the text of a file made of terminated lines and a
  last line without line feed.
\<close>

definition conf_items :: "string list \<Rightarrow> CConfItem list" where
  "conf_items ls = map (\<lambda>l. projr (parse_conf_line (cstr l))) (filter (\<lambda>l. \<not> skipped_line l) ls)"

definition file_text :: "string list \<Rightarrow> string \<Rightarrow> string" where
  "file_text ls lst = concat (map (\<lambda>l. l @ [LF]) ls) @ lst"

definition short_line :: "string \<Rightarrow> bool" where
  "short_line l \<longleftrightarrow> LF \<notin> set l \<and> length l \<le> 499"

lemma conf_items_simps [simp]:
  "conf_items [] = []"
  "conf_items (l # ls) =
     (if skipped_line l then conf_items ls else projr (parse_conf_line (cstr l)) # conf_items ls)"
  by (simp_all add: conf_items_def)

lemma file_text_simps [simp]:
  "file_text [] lst = lst"
  "file_text (l # ls) lst = l @ LF # file_text ls lst"
  by (simp_all add: file_text_def)

lemma Load_loop_step:
  assumes "\<not> eofbit s" and "getline 500 s = (line, s')"
  shows "Load_loop (Suc fuel) s items =
    Load_loop fuel s' (items @ (if skipped_line line then [] else [projr (parse_conf_line (cstr line))]))"
  using assms parse_conf_line_defined [of "cstr line"] by auto

lemma Load_loop_short:
  assumes "\<forall>l \<in> set ls. short_line l" and "short_line lst" and "length ls + 2 \<le> fuel"
  shows "Load_loop fuel \<lparr>rest = file_text ls lst, eofbit = False, failbit = False\<rparr> items =
    Some (Inr (items @ conf_items (ls @ [lst])))"
  using assms
proof (induction ls arbitrary: fuel items)
  case Nil
  then obtain f where f: "fuel = Suc (Suc f)" by (cases fuel; cases "fuel - 1") auto
  have "getline 500 \<lparr>rest = lst, eofbit = False, failbit = False\<rparr> =
      (lst, \<lparr>rest = [], eofbit = True, failbit = (lst = [])\<rparr>)"
    using Nil by (intro getline_last) (auto simp: short_line_def)
  then show ?case
    unfolding f by (subst Load_loop_step) auto
next
  case (Cons l ls)
  then obtain f where f: "fuel = Suc f" "length ls + 2 \<le> f" by (cases fuel) auto
  with Cons.prems have step: "Load_loop fuel \<lparr>rest = file_text (l # ls) lst, eofbit = False, failbit = False\<rparr> items =
    Load_loop f \<lparr>rest = file_text ls lst, eofbit = False, failbit = False\<rparr>
      (items @ (if skipped_line l then [] else [projr (parse_conf_line (cstr l))]))"
    by (simp only: file_text_simps f)
      (rule Load_loop_step [OF _ getline_line], auto simp: short_line_def)
  then show ?case using Cons.prems f Cons.IH [OF _ _ f(2)] by simp
qed

text \<open>Once \<^verbatim>\<open>failbit\<close> is set without \<^verbatim>\<open>eofbit\<close>, every further pass reads an empty line: the loop never ends.\<close>

lemma Load_loop_failed: "failbit s \<Longrightarrow> \<not> eofbit s \<Longrightarrow> Load_loop fuel s items = None"
proof (induction fuel arbitrary: s)
  case (Suc fuel)
  then have "getline 500 s = ([], s\<lparr>failbit := True\<rparr>)" by (simp add: getline_def)
  then have "Load_loop (Suc fuel) s items = Load_loop fuel (s\<lparr>failbit := True\<rparr>) items"
    using Suc.prems by (simp add: Load_loop_step skipped_line_def)
  then show ?case using Suc by simp
qed simp

lemma Load_loop_long:
  assumes "\<forall>l \<in> set ls. short_line l" and "499 < length (takeWhile (\<lambda>c. c \<noteq> LF) content)"
  shows "Load_loop fuel \<lparr>rest = file_text ls content, eofbit = False, failbit = False\<rparr> items = None"
  using assms
proof (induction ls arbitrary: fuel items)
  case Nil
  obtain line s' where g: "getline 500 \<lparr>rest = content, eofbit = False, failbit = False\<rparr> = (line, s')"
    by fastforce
  then have "failbit s'" "\<not> eofbit s'"
    using Nil getline_long [of content] by auto
  then show ?case
    by (cases fuel) (simp_all add: Load_loop_failed Load_loop_step [OF _ g] del: Load_loop.simps(2))
next
  case (Cons l ls)
  show ?case
  proof (cases fuel)
    case (Suc f)
    have "getline 500 \<lparr>rest = file_text (l # ls) content, eofbit = False, failbit = False\<rparr> =
        (l, \<lparr>rest = file_text ls content, eofbit = False, failbit = False\<rparr>)"
      using Cons.prems by (simp add: getline_line short_line_def)
    then show ?thesis
      unfolding Suc using Cons by (subst Load_loop_step) auto
  qed simp
qed

section \<open>Settings as they are written\<close>

text \<open>
  A setting line \<^verbatim>\<open>name = value;\<close> with any number of blanks around the equals sign and any text
  behind the semicolon.
\<close>

definition setting_line :: "nat \<Rightarrow> nat \<Rightarrow> string \<Rightarrow> string \<Rightarrow> string \<Rightarrow> string" where
  "setting_line k m name val comment =
     name @ replicate k SP @ CHR ''='' # replicate m SP @ val @ CHR '';'' # comment"

definition good_name :: "string \<Rightarrow> bool" where
  "good_name n \<longleftrightarrow> n \<noteq> [] \<and> hd n \<notin> {CHR ''#'', TAB, CHR ''[''}
     \<and> set n \<inter> {SP, CHR ''='', CHR '';'', LF, NUL} = {}"

definition good_value :: "string \<Rightarrow> bool" where
  "good_value v \<longleftrightarrow> (v = [] \<or> hd v \<noteq> SP) \<and> set v \<inter> {CHR '';'', LF, NUL} = {}"

lemma setting_not_skipped: "good_name n \<Longrightarrow> \<not> skipped_line (setting_line k m n v cm)"
  by (cases n) (auto simp: skipped_line_def setting_line_def good_name_def)

lemma find_space_in_setting:
  assumes "good_name n"
  shows "str_find SP (setting_line (Suc k) m n v cm) = int (length n)"
    and "str_find SP (setting_line 0 m n v cm) = - 1 \<or> int (length n) < str_find SP (setting_line 0 m n v cm)"
proof -
  have n: "SP \<notin> set n" using assms by (auto simp: good_name_def)
  show "str_find SP (setting_line (Suc k) m n v cm) = int (length n)"
    using str_find_append [OF n] by (simp add: setting_line_def)
  have "find_index (\<lambda>c. c = SP) (n @ CHR ''='' # xs) = map_option ((+) (Suc (length n))) (find_index (\<lambda>c. c = SP) xs)" for xs
    using n by (induction n) (auto simp: option.map_comp comp_def intro!: option.map_cong0)
  then show "str_find SP (setting_line 0 m n v cm) = - 1 \<or> int (length n) < str_find SP (setting_line 0 m n v cm)"
    by (auto simp: setting_line_def str_find_def split: option.splits)
qed

lemma parse_setting:
  assumes n: "good_name n" and v: "good_value v"
  shows "parse_conf_line (setting_line k m n v cm) = Inr \<lparr>ItemName = n, IterContent = v\<rparr>"
proof -
  let ?l = "setting_line k m n v cm"
  let ?pre = "n @ replicate k SP"
  have b: "str_find (CHR ''='') ?l = int (length ?pre)"
    using n str_find_append [of "CHR ''=''" ?pre] by (auto simp: setting_line_def good_name_def)
  have a: "str_find (CHR '';'') ?l = int (length ?pre + 1 + m + length v)"
    using n v str_find_append [of "CHR '';''" "?pre @ CHR ''='' # replicate m SP @ v" cm]
    by (auto simp: setting_line_def good_name_def good_value_def)
  have "(if str_find SP ?l = - 1 \<or> str_find SP ?l > str_find (CHR ''='') ?l
      then substr ?l 0 (str_find (CHR ''='') ?l) else substr ?l 0 (str_find SP ?l)) = Inr n"
    using find_space_in_setting [OF n] b
    by (cases k) (auto simp: substr_def setting_line_def)
  moreover have "substr ?l (str_find (CHR ''='') ?l + 1) (str_find (CHR '';'') ?l - str_find (CHR ''='') ?l - 1) =
      Inr (replicate m SP @ v)"
    unfolding a b by (simp add: substr_def setting_line_def nat_add_distrib)
  moreover have "dropWhile (\<lambda>c. c = SP) (replicate m SP @ v) = v"
    using v by (induction m) (auto simp: good_value_def dropWhile_eq_self_iff)
  ultimately show ?thesis by (simp add: parse_conf_line_def)
qed

text \<open>A written setting: blanks before and after the equals sign, name, value, trailing text.\<close>

type_synonym setting = "nat \<times> nat \<times> string \<times> string \<times> string"

fun written :: "setting \<Rightarrow> string" where
  "written (k, m, n, v, cm) = setting_line k m n v cm"

fun good_setting :: "setting \<Rightarrow> bool" where
  "good_setting (k, m, n, v, cm) \<longleftrightarrow>
     good_name n \<and> good_value v \<and> NUL \<notin> set cm \<and> short_line (setting_line k m n v cm)"

fun setting_item :: "setting \<Rightarrow> CConfItem" where
  "setting_item (k, m, n, v, cm) = \<lparr>ItemName = n, IterContent = v\<rparr>"

fun setting_pair :: "setting \<Rightarrow> string \<times> string" where
  "setting_pair (k, m, n, v, cm) = (n, v)"

lemma NUL_notin_setting:
  "good_name n \<Longrightarrow> good_value v \<Longrightarrow> NUL \<notin> set cm \<Longrightarrow> NUL \<notin> set (setting_line k m n v cm)"
  by (auto simp: setting_line_def good_name_def good_value_def)

lemma conf_items_settings:
  "\<forall>e \<in> set es. good_setting e \<Longrightarrow> conf_items (map written es) = map setting_item es"
proof (induction es)
  case (Cons e es)
  obtain k m n v cm where "e = (k, m, n, v, cm)" by (cases e)
  then show ?case
    using Cons NUL_notin_setting [of n v cm k m]
    by (simp add: setting_not_skipped cstr_no_NUL parse_setting)
qed simp

lemma conf_items_append [simp]: "conf_items (xs @ ys) = conf_items xs @ conf_items ys"
  by (simp add: conf_items_def)

lemma GetString_settings: "GetString (map setting_item es) name = map_of (map setting_pair es) name"
proof (induction es)
  case (Cons e es)
  then show ?case by (cases e) (auto simp: GetString_def find_item_def)
qed (simp add: GetString_def find_item_def)

lemma Load_short:
  "\<forall>l \<in> set ls. short_line l \<Longrightarrow> short_line lst \<Longrightarrow> length ls + 2 \<le> fuel \<Longrightarrow>
   Load fuel (Some (file_text ls lst)) items = Some (Inr (True, items @ conf_items (ls @ [lst])))"
  by (simp add: Load_def Load_loop_short del: Load_loop.simps)

section \<open>Properties\<close>

text \<open>
  \<^verbatim>\<open>Load\<close> on a file of lines shorter than 500 characters returns true after one pass per line and
  one for the end of the file, never throws, and appends exactly one item for each line that is not
  a comment, a section header or blank, in the order of the file.
\<close>

theorem Load_result:
  assumes "\<forall>l \<in> set ls. short_line l" and "short_line lst" and "length ls + 2 \<le> fuel"
  shows "Load fuel (Some (file_text ls lst)) items =
    Some (Inr (True, items @ conf_items (ls @ [lst])))"
  using assms by (rule Load_short)

theorem Load_result_witness:
  "list_all short_line [''[configure]'', ''Daemon = 1;''] \<and> short_line ''ET_flag = 1;'' \<and>
   Load 4 (Some (file_text [''[configure]'', ''Daemon = 1;''] ''ET_flag = 1;'')) [] =
     Some (Inr (True, conf_items [''[configure]'', ''Daemon = 1;'', ''ET_flag = 1;'']))"
proof -
  have h: "\<forall>l \<in> set [''[configure]'', ''Daemon = 1;'']. short_line l" "short_line ''ET_flag = 1;''"
    "length [''[configure]'', ''Daemon = 1;''] + 2 \<le> 4"
    by (simp_all add: short_line_def)
  show ?thesis using h Load_result [OF h, of "[]"] by simp
qed

text \<open>
  The lines of a configuration file: comments, section headers, empty lines, lines that start with a blank, a tabulator or a
  semicolon, and settings.
\<close>

datatype conf_line = Comment string | Section string | Empty | Indented char string | Setting setting

fun line_text :: "conf_line \<Rightarrow> string" where
  "line_text (Comment l) = CHR ''#'' # l"
| "line_text (Section l) = CHR ''['' # l"
| "line_text Empty = []"
| "line_text (Indented c l) = c # l"
| "line_text (Setting e) = written e"

fun line_ok :: "conf_line \<Rightarrow> bool" where
  "line_ok (Setting e) \<longleftrightarrow> good_setting e"
| "line_ok (Indented c l) \<longleftrightarrow> c \<in> {SP, TAB, CHR '';''} \<and> short_line (c # l)"
| "line_ok l \<longleftrightarrow> short_line (line_text l)"

fun settings_of :: "conf_line list \<Rightarrow> setting list" where
  "settings_of [] = []"
| "settings_of (Setting e # ls) = e # settings_of ls"
| "settings_of (_ # ls) = settings_of ls"

lemma settings_of_append [simp]: "settings_of (xs @ ys) = settings_of xs @ settings_of ys"
  by (induction xs rule: settings_of.induct) auto

lemma line_ok_short: "line_ok l \<Longrightarrow> short_line (line_text l)"
  by (cases l) auto

lemma conf_items_lines: "list_all line_ok ls \<Longrightarrow> conf_items (map line_text ls) = map setting_item (settings_of ls)"
proof (induction ls rule: settings_of.induct)
  case (2 e ls)
  then show ?case using conf_items_settings [of "[e]"] by (simp split: if_splits)
qed (auto simp: skipped_line_def)

text \<open>
  C14. Round trip: a file in the documented format, in which comments, section headers, empty and indented lines and written
  settings (any blanks around the equals sign, any text behind the semicolon) follow each other in any order, the
  last line with or without a line feed, loads into exactly its settings in their order. \<^verbatim>\<open>GetString\<close> then returns the
  value of the first setting of that name, or null when there is none.
\<close>

theorem Load_GetString_roundtrip:
  assumes "list_all line_ok (ls @ [lst])" and "length ls + 2 \<le> fuel"
  shows "Load fuel (Some (file_text (map line_text ls) (line_text lst))) [] =
      Some (Inr (True, map setting_item (settings_of (ls @ [lst])))) \<and>
    GetString (map setting_item (settings_of (ls @ [lst]))) name = map_of (map setting_pair (settings_of (ls @ [lst]))) name"
proof -
  have "\<forall>l \<in> set (map line_text ls). short_line l" "short_line (line_text lst)"
    using assms(1) by (auto simp: list_all_iff line_ok_short)
  then have "Load fuel (Some (file_text (map line_text ls) (line_text lst))) [] =
      Some (Inr (True, conf_items (map line_text (ls @ [lst]))))"
    using assms(2) by (simp add: Load_short del: conf_items_append)
  then show ?thesis using conf_items_lines [OF assms(1)] by (simp add: GetString_settings del: settings_of_append map_append)
qed

text \<open>
  The file \<^verbatim>\<open>nginx.conf\<close> of the program, byte for byte: comments (in UTF-8), a section header and twelve settings, the last of
  them without a line feed.
\<close>

definition octets :: "nat list \<Rightarrow> string" where
  "octets ns = map char_of ns"

lemma octets_simps:
  "length (octets ns) = length ns" "list_all (\<lambda>n. 128 \<le> n \<and> n < 256) ns \<Longrightarrow> LF \<notin> set (octets ns)"
proof -
  show "length (octets ns) = length ns" by (simp add: octets_def)
  show "LF \<notin> set (octets ns)" if o: "list_all (\<lambda>n. 128 \<le> n \<and> n < 256) ns"
  proof
    assume "LF \<in> set (octets ns)"
    then obtain n where n: "n \<in> set ns" "char_of n = LF" by (auto simp: octets_def)
    then have "n mod 256 = of_char LF" by (metis of_char_of)
    then show False using o n(1) by (auto simp: list_all_iff)
  qed
qed

definition shipped_lines :: "conf_line list" where
  "shipped_lines = [
     Comment (octets [228, 187, 165] @ '';'' @ octets [231, 187, 147, 229, 176, 190] @ '' '' @ octets [233, 166,
       150, 232, 161, 140, 231, 172, 172, 228, 184, 128, 228, 184, 170, 229, 173, 151, 231, 172, 166, 229, 188,
       128, 229, 167, 139, 229, 134, 153, 230, 173, 163, 230, 152, 175, 229, 134, 133, 229, 174, 185] @ '' []''
       @ octets [228, 184, 186, 228, 184, 128, 228, 184, 170, 230, 168, 161, 229, 157, 151]),
     Comment (''LogAddr            '' @ octets [230, 151, 165, 229, 191, 151, 230, 150, 135, 228, 187, 182]),
     Comment (''ListenPortCount  '' @ octets [231, 155, 145, 229, 144, 172, 231, 171, 175, 229, 143, 163, 230,
       149, 176, 233, 135, 143]),
     Comment (''ListenPortn        '' @ octets [231, 155, 145, 229, 144, 172, 231, 171, 175, 229, 143, 163, 229,
       143, 183]),
     Comment (''WorkerProcesses    worker process '' @ octets [230, 149, 176, 233, 135, 143]),
     Comment (''Daemon             '' @ octets [229, 174, 136, 230, 138, 164, 232, 191, 155, 231, 168, 139, 229,
       188, 128, 229, 144, 175, 230, 160, 135, 229, 191, 151] @ ''  1'' @ octets [229, 188, 128, 229, 144, 175]
       @ '' 0'' @ octets [229, 133, 179, 233, 151, 173]),
     Comment (''worker_connections epoll'' @ octets [230, 156, 128, 229, 164, 167, 231, 155, 145, 229, 144, 172,
       228, 186, 139, 228, 187, 182]),
     Comment (''ET_flag            ET'' @ octets [230, 168, 161, 229, 188, 143, 229, 188, 128, 229, 144, 175,
       230, 160, 135, 229, 191, 151]),
     Comment (''Flood_flag         flood'' @ octets [233, 152, 178, 229, 190, 161, 229, 188, 128, 229, 144, 175,
       230, 160, 135, 229, 191, 151]),
     Comment (''FloodTimeInterval  flood'' @ octets [233, 151, 180, 233, 154, 148]),
     Comment (''FloodKickCount     flood'' @ octets [231, 180, 175, 232, 174, 161, 230, 172, 161, 230, 149,
       176]),
     Comment (''HeartBeatFlag      '' @ octets [229, 191, 131, 232, 183, 179, 229, 140, 133, 229, 188, 128, 229,
       167, 139, 230, 160, 135, 229, 191, 151] @ ''  1'' @ octets [229, 188, 128, 229, 144, 175] @ '' 0'' @
       octets [229, 133, 179, 233, 151, 173]),
     Comment (''HeartBeatTimeInterval  '' @ octets [229, 191, 131, 232, 183, 179, 229, 140, 133, 230, 163, 128,
       230, 181, 139, 233, 151, 180, 233, 154, 148]),
     Section ''configure]'',
     Setting (1, 1, ''ListenPortCount'', ''2'', []),
     Setting (1, 1, ''ListenPort0'', ''80'', []),
     Setting (1, 1, ''ListenPort1'', ''443'', []),
     Setting (1, 1, ''WorkerProcesses'', ''4'', []),
     Setting (1, 1, ''LogAddr'', ''./logs/error.log'', []),
     Setting (1, 1, ''Daemon'', ''1'', []),
     Setting (0, 1, ''worker_connections'', ''1024'', []),
     Setting (1, 1, ''ET_flag'', ''1'', []),
     Setting (1, 1, ''Flood_flag'', ''1'', []),
     Setting (1, 1, ''FloodTimeInterval'', ''100'', []),
     Setting (1, 1, ''FloodKickCount'', ''10'', [])]"

definition shipped_last :: conf_line where
  "shipped_last = Setting (1, 1, ''HeartBeatFlag'', ''1'', [])"

definition shipped_items :: "CConfItem list" where
  "shipped_items = [
       \<lparr>ItemName = ''ListenPortCount'', IterContent = ''2''\<rparr>,
       \<lparr>ItemName = ''ListenPort0'', IterContent = ''80''\<rparr>,
       \<lparr>ItemName = ''ListenPort1'', IterContent = ''443''\<rparr>,
       \<lparr>ItemName = ''WorkerProcesses'', IterContent = ''4''\<rparr>,
       \<lparr>ItemName = ''LogAddr'', IterContent = ''./logs/error.log''\<rparr>,
       \<lparr>ItemName = ''Daemon'', IterContent = ''1''\<rparr>,
       \<lparr>ItemName = ''worker_connections'', IterContent = ''1024''\<rparr>,
       \<lparr>ItemName = ''ET_flag'', IterContent = ''1''\<rparr>,
       \<lparr>ItemName = ''Flood_flag'', IterContent = ''1''\<rparr>,
       \<lparr>ItemName = ''FloodTimeInterval'', IterContent = ''100''\<rparr>,
       \<lparr>ItemName = ''FloodKickCount'', IterContent = ''10''\<rparr>,
       \<lparr>ItemName = ''HeartBeatFlag'', IterContent = ''1''\<rparr>]"

theorem Load_GetString_roundtrip_witness:
  "Load 27 (Some (file_text (map line_text shipped_lines) (line_text shipped_last))) [] = Some (Inr (True, shipped_items)) \<and>
   GetString shipped_items ''worker_connections'' = Some ''1024''"
proof -
  have ok: "list_all line_ok (shipped_lines @ [shipped_last])"
    by (simp add: shipped_lines_def shipped_last_def short_line_def octets_simps good_name_def good_value_def setting_line_def)
  have n: "length shipped_lines + 2 \<le> 27" by (simp add: shipped_lines_def)
  have i: "map setting_item (settings_of (shipped_lines @ [shipped_last])) = shipped_items"
    by (simp add: shipped_lines_def shipped_last_def shipped_items_def)
  have p: "map_of (map setting_pair (settings_of (shipped_lines @ [shipped_last]))) ''worker_connections'' = Some ''1024''"
    by (simp add: shipped_lines_def shipped_last_def)
  show ?thesis using Load_GetString_roundtrip [OF ok n, of "''worker_connections''"] i p by simp
qed

text \<open>
  C40. A line of 500 characters or more stops \<^verbatim>\<open>Load\<close> from ever returning: \<^verbatim>\<open>getline\<close> sets
  \<^verbatim>\<open>failbit\<close> and not \<^verbatim>\<open>eofbit\<close>, the loop tests \<^verbatim>\<open>eof()\<close> only, and no number of passes is enough.
\<close>

theorem Load_long_line_diverges:
  assumes "\<forall>l \<in> set ls. short_line l" and "499 < length (takeWhile (\<lambda>c. c \<noteq> LF) post)"
  shows "\<forall>fuel. Load fuel (Some (file_text ls post)) items = None"
  using assms by (simp add: Load_def Load_loop_long del: Load_loop.simps)

theorem Load_long_line_diverges_witness:
  "499 < length (takeWhile (\<lambda>c. c \<noteq> LF) (replicate 500 (CHR ''a''))) \<and>
   (\<forall>fuel. Load fuel (Some (file_text [''Daemon = 1;''] (replicate 500 (CHR ''a'')))) [] = None)"
proof -
  have a: "\<forall>l \<in> set [''Daemon = 1;'']. short_line l" by (simp add: short_line_def)
  have "takeWhile (\<lambda>c. c \<noteq> LF) (replicate 500 (CHR ''a'')) = replicate 500 (CHR ''a'')"
    by (simp add: takeWhile_eq_all_conv)
  then have b: "499 < length (takeWhile (\<lambda>c. c \<noteq> LF) (replicate 500 (CHR ''a'')))" by simp
  show ?thesis using b Load_long_line_diverges [OF a b] by blast
qed

end
