(* ===== verification/NgxTimer.thy ===== *)
theory NgxTimer
  imports NgxPrelude "HOL-Library.Multiset"
begin

text \<open>
  The timer component: \<^verbatim>\<open>Timer\<close> of \<^verbatim>\<open>app/ngx_c_timer.cpp\<close>. The \<^verbatim>\<open>std::multiset\<close> of timers is the list
  of its elements in iteration order, ordered by \<^verbatim>\<open>operator<\<close> (deadline, then id). The clock is an
  argument of the operations that read it. \<^verbatim>\<open>CheckTimer\<close> returns the call of the callback it makes, so
  that the event loop can run it; the two callbacks of the program do not touch the timers. The
  counter of ids is an unbounded integer: its signed overflow is undefined in C++.
\<close>

section \<open>The code\<close>

record ('f, 'a) TimerInfo =
  t_msec :: int
  t_data :: int
  t_func :: 'f
  t_id :: int
  t_count :: int
  t_arg :: 'a

text \<open>\<^verbatim>\<open>operator<\<close> on timers.\<close>

definition timer_less :: "('f, 'a) TimerInfo \<Rightarrow> ('f, 'a) TimerInfo \<Rightarrow> bool" where
  "timer_less t1 t2 =
     (if t_data t1 < t_data t2 then True
      else if t_data t1 > t_data t2 then False
      else t_id t1 < t_id t2)"

text \<open>\<^verbatim>\<open>operator==\<close> on timers.\<close>

definition timer_eq :: "('f, 'a) TimerInfo \<Rightarrow> ('f, 'a) TimerInfo \<Rightarrow> bool" where
  "timer_eq t1 t2 = (if t_id t1 = t_id t2 then True else False)"

record ('f, 'a) Timer =
  Timer_buf :: "('f, 'a) TimerInfo list"
  timer_next_id :: int

definition empty_Timer :: "('f, 'a) Timer" where
  "empty_Timer = \<lparr>Timer_buf = [], timer_next_id = 0\<rparr>"

text \<open>The destructor.\<close>

definition Timer_dtor :: "('f, 'a) Timer \<Rightarrow> ('f, 'a) Timer" where
  "Timer_dtor T = T\<lparr>Timer_buf := []\<rparr>"

text \<open>\<^verbatim>\<open>multiset::insert\<close>: behind every element that is not greater.\<close>

fun ms_insert :: "('f, 'a) TimerInfo \<Rightarrow> ('f, 'a) TimerInfo list \<Rightarrow> ('f, 'a) TimerInfo list" where
  "ms_insert x [] = [x]"
| "ms_insert x (y # ys) = (if timer_less x y then x # y # ys else y # ms_insert x ys)"

text \<open>\<^verbatim>\<open>multiset::erase(key)\<close>: every element equivalent to the key.\<close>

definition ms_erase :: "('f, 'a) TimerInfo \<Rightarrow> ('f, 'a) TimerInfo list \<Rightarrow> ('f, 'a) TimerInfo list" where
  "ms_erase x ys = filter (\<lambda>y. timer_less x y \<or> timer_less y x) ys"

definition AddTimerInfo :: "('f, 'a) TimerInfo \<Rightarrow> ('f, 'a) Timer \<Rightarrow> ('f, 'a) Timer" where
  "AddTimerInfo info T = T\<lparr>Timer_buf := ms_insert info (Timer_buf T)\<rparr>"

definition DelTimer :: "('f, 'a) TimerInfo \<Rightarrow> ('f, 'a) Timer \<Rightarrow> ('f, 'a) Timer" where
  "DelTimer timer T = T\<lparr>Timer_buf := ms_erase timer (Timer_buf T)\<rparr>"

definition AddTimer :: "int \<Rightarrow> int \<Rightarrow> int \<Rightarrow> 'f \<Rightarrow> 'a \<Rightarrow> ('f, 'a) Timer \<Rightarrow> ('f, 'a) Timer" where
  "AddTimer now msec cnt f arg T =
     T\<lparr>Timer_buf := ms_insert
          \<lparr>t_msec = msec, t_data = now + msec, t_func = f, t_id = timer_next_id T,
           t_count = cnt, t_arg = arg\<rparr> (Timer_buf T),
       timer_next_id := timer_next_id T + 1\<rparr>"

definition SetTime :: "int \<Rightarrow> ('f, 'a) Timer \<Rightarrow> int" where
  "SetTime now T =
     (case Timer_buf T of
        [] \<Rightarrow> - 1
      | it # _ \<Rightarrow> (let diss = t_data it - now in if diss > 0 then diss else 0))"

text \<open>
  \<^verbatim>\<open>CheckTimer\<close> at time \<open>now\<close>: the callback call made, if any, and the timers afterwards. On an
  empty buffer \<^verbatim>\<open>begin()\<close> is \<^verbatim>\<open>end()\<close> and is dereferenced.
\<close>

definition CheckTimer :: "int \<Rightarrow> ('f, 'a) Timer \<Rightarrow> (('f \<times> 'a) option \<times> ('f, 'a) Timer) res" where
  "CheckTimer now T =
     (case Timer_buf T of
        [] \<Rightarrow> Inl BadIterator
      | it # _ \<Rightarrow>
          if t_count it = 1 then Inr (Some (t_func it, t_arg it), DelTimer it T)
          else if t_count it > 1 then
            (let t = it\<lparr>t_data := now + t_msec it, t_count := t_count it - 1\<rparr>
             in Inr (Some (t_func it, t_arg it), AddTimerInfo t (DelTimer it T)))
          else if t_count it = - 1 then
            (let t = it\<lparr>t_data := now + t_msec it\<rparr>
             in Inr (Some (t_func it, t_arg it), AddTimerInfo t (DelTimer it T)))
          else Inr (None, T))"

section \<open>The interface: an ordered queue of deadlines\<close>

text \<open>
  What the event loop relies on: a finite collection of entries with a strict order, of which the
  first is a least one, insertion adds one entry and removal of the first removes just that one.
\<close>

locale deadline_queue =
  fixes entries :: "'q \<Rightarrow> 'e multiset"
    and first :: "'q \<Rightarrow> 'e option"
    and insert_entry :: "'e \<Rightarrow> 'q \<Rightarrow> 'q"
    and remove_entry :: "'e \<Rightarrow> 'q \<Rightarrow> 'q"
    and before :: "'e \<Rightarrow> 'e \<Rightarrow> bool"
    and fresh :: "'e \<Rightarrow> 'q \<Rightarrow> bool"
    and invar :: "'q \<Rightarrow> bool"
  assumes first_None: "invar q \<Longrightarrow> first q = None \<longleftrightarrow> entries q = {#}"
    and first_in: "invar q \<Longrightarrow> first q = Some x \<Longrightarrow> x \<in># entries q"
    and first_least: "invar q \<Longrightarrow> first q = Some x \<Longrightarrow> y \<in># entries q \<Longrightarrow> y = x \<or> before x y"
    and entries_insert: "entries (insert_entry x q) = add_mset x (entries q)"
    and entries_remove: "invar q \<Longrightarrow> first q = Some x \<Longrightarrow> entries (remove_entry x q) = entries q - {#x#}"
    and invar_insert: "invar q \<Longrightarrow> fresh x q \<Longrightarrow> invar (insert_entry x q)"
    and invar_remove: "invar q \<Longrightarrow> invar (remove_entry x q)"
begin

text \<open>Replacing the first entry by another one leaves every other entry alone.\<close>

lemma entries_replace_first:
  "invar q \<Longrightarrow> first q = Some x \<Longrightarrow>
   entries (insert_entry y (remove_entry x q)) = add_mset y (entries q - {#x#})"
  by (simp add: entries_insert entries_remove)

lemma others_kept:
  assumes "invar q" and "first q = Some x" and "z \<in># entries q" and "z \<noteq> x"
  shows "z \<in># entries (remove_entry x q)"
  using assms by (simp add: entries_remove in_diff_count)

lemma first_exists: "invar q \<Longrightarrow> entries q \<noteq> {#} \<Longrightarrow> \<exists>x. first q = Some x \<and> x \<in># entries q"
  using first_None first_in by (cases "first q") auto

end

section \<open>The invariant and the interpretation\<close>

definition timer_inv :: "('f, 'a) Timer \<Rightarrow> bool" where
  "timer_inv T \<longleftrightarrow>
     sorted_wrt timer_less (Timer_buf T) \<and> distinct (map t_id (Timer_buf T))
     \<and> (\<forall>x \<in> set (Timer_buf T). t_id x < timer_next_id T)"

definition timer_first :: "('f, 'a) Timer \<Rightarrow> ('f, 'a) TimerInfo option" where
  "timer_first T = (case Timer_buf T of [] \<Rightarrow> None | it # _ \<Rightarrow> Some it)"

definition timer_fresh :: "('f, 'a) TimerInfo \<Rightarrow> ('f, 'a) Timer \<Rightarrow> bool" where
  "timer_fresh x T \<longleftrightarrow> t_id x < timer_next_id T \<and> t_id x \<notin> t_id ` set (Timer_buf T)"

lemma timer_less_irrefl: "\<not> timer_less x x"
  by (simp add: timer_less_def)

lemma timer_less_trans: "timer_less x y \<Longrightarrow> timer_less y z \<Longrightarrow> timer_less x z"
  by (auto simp: timer_less_def split: if_splits)

lemma timer_less_total: "timer_less x y \<or> timer_less y x \<or> t_data x = t_data y \<and> t_id x = t_id y"
  by (auto simp: timer_less_def)

lemma mset_ms_insert [simp]: "mset (ms_insert x ys) = add_mset x (mset ys)"
  by (induction ys) auto

lemma set_ms_insert [simp]: "set (ms_insert x ys) = insert x (set ys)"
  by (metis mset_ms_insert set_mset_add_mset_insert set_mset_mset)

lemma sorted_ms_insert:
  "sorted_wrt timer_less ys \<Longrightarrow> t_id x \<notin> t_id ` set ys \<Longrightarrow> sorted_wrt timer_less (ms_insert x ys)"
proof (induction ys)
  case (Cons y ys)
  then have "timer_less x y \<or> timer_less y x" using timer_less_total [of x y] by auto
  with Cons show ?case by (auto intro: timer_less_trans)
qed simp

lemma distinct_ids_ms_insert:
  "distinct (map t_id (ms_insert x ys)) \<longleftrightarrow> t_id x \<notin> t_id ` set ys \<and> distinct (map t_id ys)"
  by (induction ys) auto

lemma ms_erase_other: "t_id x \<notin> t_id ` set ys \<Longrightarrow> ms_erase x ys = ys"
  using timer_less_total by (fastforce simp: ms_erase_def filter_id_conv)

lemma ms_erase_first:
  "distinct (map t_id (x # ys)) \<Longrightarrow> ms_erase x (x # ys) = ys"
  using ms_erase_other [of x ys] by (simp add: ms_erase_def timer_less_irrefl)

lemma set_ms_erase_subset: "set (ms_erase x ys) \<subseteq> set ys"
  by (auto simp: ms_erase_def)

lemma timer_inv_erase: "timer_inv T \<Longrightarrow> timer_inv (DelTimer x T)"
  by (auto simp: timer_inv_def DelTimer_def ms_erase_def sorted_wrt_filter distinct_map intro: inj_on_subset)

lemma timer_inv_insert: "timer_inv T \<Longrightarrow> timer_fresh x T \<Longrightarrow> timer_inv (AddTimerInfo x T)"
  by (auto simp: timer_inv_def timer_fresh_def AddTimerInfo_def sorted_ms_insert distinct_ids_ms_insert)

interpretation tq: deadline_queue
  "\<lambda>T. mset (Timer_buf T)" timer_first AddTimerInfo DelTimer timer_less timer_fresh timer_inv
proof (unfold_locales, goal_cases)
  case (1 q)
  then show ?case by (simp add: timer_first_def split: list.splits)
next
  case (2 q x)
  then show ?case by (simp add: timer_first_def split: list.splits)
next
  case (3 q x y)
  then show ?case by (auto simp: timer_first_def timer_inv_def split: list.splits)
next
  case (4 x q)
  then show ?case by (simp add: AddTimerInfo_def)
next
  case (5 q x)
  then show ?case
    using ms_erase_first [of x]
    by (auto simp: timer_first_def timer_inv_def DelTimer_def split: list.splits)
next
  case (6 q x)
  then show ?case by (rule timer_inv_insert)
next
  case (7 q x)
  then show ?case by (simp add: timer_inv_erase)
qed

section \<open>Every operation keeps the invariant\<close>

text \<open>On the timers of the buffer \<^verbatim>\<open>operator==\<close> is equality, and agrees with the equivalence of \<^verbatim>\<open>operator<\<close>.\<close>

lemma timer_eq_is_equality:
  assumes "timer_inv T" "x \<in> set (Timer_buf T)" "y \<in> set (Timer_buf T)"
  shows "timer_eq x y \<longleftrightarrow> x = y" "timer_eq x y \<longleftrightarrow> \<not> timer_less x y \<and> \<not> timer_less y x"
proof -
  have "inj_on t_id (set (Timer_buf T))" using assms(1) by (simp add: timer_inv_def distinct_map)
  then have "t_id x = t_id y \<longleftrightarrow> x = y" using assms(2,3) by (auto dest: inj_onD)
  then show "timer_eq x y \<longleftrightarrow> x = y" "timer_eq x y \<longleftrightarrow> \<not> timer_less x y \<and> \<not> timer_less y x"
    using timer_less_total [of x y] by (auto simp: timer_eq_def timer_less_def)
qed

lemma timer_inv_dtor: "timer_inv T \<Longrightarrow> timer_inv (Timer_dtor T)"
  by (simp add: timer_inv_def Timer_dtor_def)

lemma timer_inv_empty: "timer_inv empty_Timer"
  by (simp add: timer_inv_def empty_Timer_def)

lemma AddTimer_inv: "timer_inv T \<Longrightarrow> timer_inv (AddTimer now msec cnt f arg T)"
proof -
  assume inv: "timer_inv T"
  then have "timer_next_id T \<notin> t_id ` set (Timer_buf T)" by (auto simp: timer_inv_def)
  with inv show ?thesis
    by (auto simp: timer_inv_def AddTimer_def sorted_ms_insert distinct_ids_ms_insert)
qed

lemma timer_first_Cons: "timer_first T = Some it \<longleftrightarrow> (\<exists>r. Timer_buf T = it # r)"
  by (auto simp: timer_first_def split: list.splits)

lemma fresh_after_DelTimer:
  "timer_inv T \<Longrightarrow> timer_first T = Some it \<Longrightarrow> t_id t = t_id it \<Longrightarrow> timer_fresh t (DelTimer it T)"
  using ms_erase_first [of it]
  by (auto simp: timer_first_Cons timer_inv_def timer_fresh_def DelTimer_def)

text \<open>\<^verbatim>\<open>CheckTimer\<close> by the first timer's count, in terms of the interface.\<close>

lemma CheckTimer_first:
  "timer_first T = Some it \<Longrightarrow>
   CheckTimer now T =
     (if t_count it = 1 then Inr (Some (t_func it, t_arg it), DelTimer it T)
      else if t_count it > 1 then
        Inr (Some (t_func it, t_arg it),
             AddTimerInfo (it\<lparr>t_data := now + t_msec it, t_count := t_count it - 1\<rparr>) (DelTimer it T))
      else if t_count it = - 1 then
        Inr (Some (t_func it, t_arg it), AddTimerInfo (it\<lparr>t_data := now + t_msec it\<rparr>) (DelTimer it T))
      else Inr (None, T))"
  by (auto simp: timer_first_Cons CheckTimer_def)

lemma CheckTimer_defined_iff: "(\<exists>r. CheckTimer now T = Inr r) \<longleftrightarrow> Timer_buf T \<noteq> []"
  by (auto simp: CheckTimer_def Let_def split: list.splits)

lemma CheckTimer_inv: "timer_inv T \<Longrightarrow> CheckTimer now T = Inr (c, T') \<Longrightarrow> timer_inv T'"
proof (cases "timer_first T")
  case None
  then show "CheckTimer now T = Inr (c, T') \<Longrightarrow> timer_inv T'"
    by (simp add: timer_first_def CheckTimer_def split: list.splits)
next
  case (Some it)
  assume "timer_inv T" and "CheckTimer now T = Inr (c, T')"
  then show "timer_inv T'"
    by (auto simp: CheckTimer_first [OF Some] timer_inv_erase split: if_splits
        intro!: timer_inv_insert fresh_after_DelTimer [OF _ Some])
qed

datatype ('f, 'a) timer_op = OpAdd int int int 'f 'a | OpCheck int

fun timer_run :: "('f, 'a) timer_op list \<Rightarrow> ('f, 'a) Timer \<Rightarrow> ('f, 'a) Timer res" where
  "timer_run [] T = Inr T"
| "timer_run (OpAdd now msec cnt f arg # ops) T = timer_run ops (AddTimer now msec cnt f arg T)"
| "timer_run (OpCheck now # ops) T = res_bind (CheckTimer now T) (\<lambda>(c, T'). timer_run ops T')"

lemma timer_run_inv: "timer_inv T \<Longrightarrow> timer_run ops T = Inr T' \<Longrightarrow> timer_inv T'"
  by (induction ops T rule: timer_run.induct) (auto dest: CheckTimer_inv AddTimer_inv)

section \<open>How often a timer fires\<close>

text \<open>Runs of \<^verbatim>\<open>CheckTimer\<close> at given times, and how often the timer of an id fires in one.\<close>

fun check_run :: "int list \<Rightarrow> ('f, 'a) Timer \<Rightarrow> ('f, 'a) Timer res" where
  "check_run [] T = Inr T"
| "check_run (now # ns) T = res_bind (CheckTimer now T) (\<lambda>(c, T'). check_run ns T')"

text \<open>A check fires the first timer when it makes the call that timer was added for.\<close>

definition fired :: "int \<Rightarrow> ('f, 'a) Timer \<Rightarrow> ('f \<times> 'a) option \<Rightarrow> nat" where
  "fired i T c =
     (case timer_first T of
        None \<Rightarrow> 0
      | Some it \<Rightarrow> if t_id it = i \<and> c = Some (t_func it, t_arg it) then 1 else 0)"

fun fires :: "int \<Rightarrow> int list \<Rightarrow> ('f, 'a) Timer \<Rightarrow> nat" where
  "fires i [] T = 0"
| "fires i (now # ns) T =
     (case CheckTimer now T of
        Inl e \<Rightarrow> 0
      | Inr (c, T') \<Rightarrow> fired i T c + fires i ns T')"

definition remaining :: "int \<Rightarrow> ('f, 'a) Timer \<Rightarrow> int" where
  "remaining i T = (\<Sum>x\<leftarrow>Timer_buf T. if t_id x = i then t_count x else 0)"

lemma remaining_mset: "remaining i T = (\<Sum>x\<in>#mset (Timer_buf T). if t_id x = i then t_count x else 0)"
  by (simp add: remaining_def sum_mset_sum_list flip: mset_map)

lemma remaining_replace:
  assumes "timer_inv T" and "timer_first T = Some it"
  shows "remaining i (DelTimer it T) = remaining i T - (if t_id it = i then t_count it else 0)"
    and "remaining i (AddTimerInfo t (DelTimer it T)) =
      remaining i T - (if t_id it = i then t_count it else 0) + (if t_id t = i then t_count t else 0)"
proof -
  have "mset (Timer_buf T) = add_mset it (mset (Timer_buf (DelTimer it T)))"
    using assms tq.entries_remove [OF assms] tq.first_in [OF assms] by simp
  then have eq: "remaining i T = (if t_id it = i then t_count it else 0) + remaining i (DelTimer it T)"
    by (simp add: remaining_mset)
  then show "remaining i (DelTimer it T) = remaining i T - (if t_id it = i then t_count it else 0)"
    by simp
  then show "remaining i (AddTimerInfo t (DelTimer it T)) =
      remaining i T - (if t_id it = i then t_count it else 0) + (if t_id t = i then t_count t else 0)"
    by (simp add: remaining_mset tq.entries_insert)
qed

text \<open>Counting timers of an id: the ones that are periodic or dead are left out.\<close>

definition counting :: "int \<Rightarrow> ('f, 'a) Timer \<Rightarrow> bool" where
  "counting i T \<longleftrightarrow> (\<forall>x \<in> set (Timer_buf T). t_id x = i \<longrightarrow> 0 < t_count x)"

lemma CheckTimer_remaining:
  assumes "timer_inv T" and "counting i T" and "CheckTimer now T = Inr (c, T')"
  shows "remaining i T' + int (fired i T c) = remaining i T \<and> counting i T'"
proof (cases "timer_first T")
  case None
  with assms show ?thesis by (simp add: timer_first_def CheckTimer_def split: list.splits)
next
  case (Some it)
  have pos: "t_id it = i \<Longrightarrow> 0 < t_count it"
    using assms(2) Some by (auto simp: counting_def timer_first_Cons)
  have del: "x \<in> set (Timer_buf (DelTimer it T)) \<Longrightarrow> x \<in> set (Timer_buf T)" for x
    using set_ms_erase_subset by (auto simp: DelTimer_def)
  have "counting i (DelTimer it T)"
    using assms(2) del by (auto simp: counting_def)
  then show ?thesis
    using assms(2,3) pos Some remaining_replace [OF assms(1) Some]
    by (auto simp: CheckTimer_first [OF Some] counting_def AddTimerInfo_def fired_def split: if_splits)
qed

lemma fires_remaining:
  "timer_inv T \<Longrightarrow> counting i T \<Longrightarrow> check_run ns T = Inr T' \<Longrightarrow>
   int (fires i ns T) + remaining i T' = remaining i T"
proof (induction ns arbitrary: T)
  case (Cons now ns)
  then obtain c T1 where step: "CheckTimer now T = Inr (c, T1)" and run: "check_run ns T1 = Inr T'"
    by auto
  then show ?case
    using Cons.IH [of T1] CheckTimer_inv [OF Cons.prems(1) step]
      CheckTimer_remaining [OF Cons.prems(1,2) step] by (auto split: if_splits)
qed simp

lemma remaining_unique:
  assumes "timer_inv T" and "x \<in> set (Timer_buf T)"
  shows "remaining (t_id x) T = t_count x"
proof -
  have "distinct (map t_id xs) \<Longrightarrow> y \<in> set xs \<Longrightarrow>
      (\<Sum>z\<leftarrow>xs. if t_id z = t_id y then t_count z else 0) = t_count y" for xs and y :: "('a, 'b) TimerInfo"
  proof (induction xs)
    case (Cons z zs)
    have "t_id y \<notin> t_id ` set zs \<Longrightarrow> (\<Sum>w\<leftarrow>zs. if t_id w = t_id y then t_count w else 0) = 0"
      by (induction zs) auto
    with Cons show ?case by auto
  qed simp
  then show ?thesis using assms by (simp add: timer_inv_def remaining_def)
qed

lemma counting_unique:
  "timer_inv T \<Longrightarrow> x \<in> set (Timer_buf T) \<Longrightarrow> 0 < t_count x \<Longrightarrow> counting (t_id x) T"
  by (auto simp: counting_def timer_inv_def distinct_map dest: inj_onD)

lemma SetTime_first:
  "SetTime now T = (case timer_first T of None \<Rightarrow> - 1 | Some it \<Rightarrow> max 0 (t_data it - now))"
  by (auto simp: SetTime_def timer_first_def Let_def split: list.splits)

lemma first_deadline_least:
  "timer_inv T \<Longrightarrow> timer_first T = Some it \<Longrightarrow> x \<in> set (Timer_buf T) \<Longrightarrow> t_data it \<le> t_data x"
  using tq.first_least [of T it x] by (auto simp: timer_less_def split: if_splits)

text \<open>
  In a run a timer with a count is called at most that often, and exactly that often if and only if it is gone.
\<close>

lemma fires_at_most:
  assumes "timer_inv T" and "x \<in> set (Timer_buf T)" and "0 < t_count x"
    and "check_run ns T = Inr T'"
  shows "int (fires (t_id x) ns T) \<le> t_count x
    \<and> (int (fires (t_id x) ns T) = t_count x \<longleftrightarrow> t_id x \<notin> t_id ` set (Timer_buf T'))"
proof -
  have c: "counting (t_id x) T" using assms(1-3) by (rule counting_unique)
  have inv: "timer_inv T'" and c': "counting (t_id x) T'"
    using assms(1,4) c
    by (induction ns arbitrary: T) (auto dest: CheckTimer_inv CheckTimer_remaining)
  have sum: "int (fires (t_id x) ns T) + remaining (t_id x) T' = t_count x"
    using fires_remaining [OF assms(1) c assms(4)] remaining_unique [OF assms(1,2)] by simp
  show ?thesis
  proof (cases "t_id x \<in> t_id ` set (Timer_buf T')")
    case True
    then obtain y where y: "y \<in> set (Timer_buf T')" "t_id y = t_id x" by auto
    then have "remaining (t_id x) T' = t_count y" using remaining_unique [OF inv y(1)] by simp
    moreover have "0 < t_count y" using c' y by (auto simp: counting_def)
    ultimately show ?thesis using True sum by simp
  next
    case False
    then have "\<forall>z \<in> set (Timer_buf T'). t_id z \<noteq> t_id x" by (metis image_eqI)
    then have "remaining (t_id x) T' = 0" by (simp add: remaining_def cong: map_cong)
    with False sum show ?thesis by simp
  qed
qed

section \<open>Every call is made\<close>

lemma fires_le: "timer_inv T \<Longrightarrow> counting i T \<Longrightarrow> int (fires i ns T) \<le> remaining i T"
proof (induction ns arbitrary: T)
  case Nil
  then show ?case by (auto simp: remaining_def counting_def less_imp_le intro!: sum_list_nonneg)
next
  case (Cons now ns)
  show ?case
  proof (cases "CheckTimer now T")
    case (Inr r)
    obtain c T' where r: "r = (c, T')" by (cases r)
    note s = CheckTimer_remaining [OF Cons.prems Inr [unfolded r]] CheckTimer_inv [OF Cons.prems(1) Inr [unfolded r]]
    then show ?thesis using Cons.IH [of T'] Inr r by auto
  next
    case (Inl e)
    have "0 \<le> remaining i T" using Cons.prems(2) by (auto simp: remaining_def counting_def less_imp_le intro!: sum_list_nonneg)
    then show ?thesis using Inl by simp
  qed
qed

lemma check_run_append: "check_run ns T = Inr T' \<Longrightarrow> check_run (ns @ ms) T = check_run ms T'"
  by (induction ns T rule: check_run.induct) auto

lemma fires_append: "check_run ns T = Inr T' \<Longrightarrow> fires i (ns @ ms) T = fires i ns T + fires i ms T'"
  by (induction ns T rule: check_run.induct) auto

text \<open>The times of the first \<open>k\<close> checks under a clock.\<close>

definition times :: "(nat \<Rightarrow> int) \<Rightarrow> nat \<Rightarrow> int list" where
  "times now k = map now [0..<k]"

lemma times_simps [simp]: "times now 0 = []" "length (times now k) = k"
  by (simp_all add: times_def)

lemma times_add: "times now (k + m) = times now k @ times (\<lambda>j. now (k + j)) m"
  by (induction m) (simp_all add: times_def)

lemma times_Suc: "times now (Suc k) = now 0 # times (\<lambda>j. now (Suc j)) k"
  using times_add [of now 1 k] by (simp add: times_def)

text \<open>Timers that go on: each has calls left or is periodic, and no period is negative.\<close>

definition going :: "('f, 'a) Timer \<Rightarrow> bool" where
  "going T \<longleftrightarrow> timer_inv T \<and> (\<forall>y \<in> set (Timer_buf T). 0 \<le> t_msec y \<and> (t_count y = - 1 \<or> 0 < t_count y))"

text \<open>The timers that come before a deadline, apart from one timer.\<close>

definition ahead :: "('f, 'a) TimerInfo \<Rightarrow> ('f, 'a) Timer \<Rightarrow> nat" where
  "ahead x T = length (filter (\<lambda>y. y \<noteq> x \<and> t_data y \<le> t_data x) (Timer_buf T))"

lemma ahead_mset: "ahead x T = size (filter_mset (\<lambda>y. y \<noteq> x \<and> t_data y \<le> t_data x) (mset (Timer_buf T)))"
  by (simp add: ahead_def flip: mset_filter)

text \<open>What a check makes of the first timer: nothing is left, or the timer with its next deadline.\<close>

definition next_turn :: "int \<Rightarrow> ('f, 'a) TimerInfo \<Rightarrow> ('f, 'a) TimerInfo" where
  "next_turn now it =
     (if t_count it = - 1 then it\<lparr>t_data := now + t_msec it\<rparr>
      else it\<lparr>t_data := now + t_msec it, t_count := t_count it - 1\<rparr>)"

lemma going_check:
  assumes g: "going T" and f: "timer_first T = Some it"
  shows "\<exists>T'. CheckTimer now T = Inr (Some (t_func it, t_arg it), T') \<and> going T' \<and>
    mset (Timer_buf T') = (mset (Timer_buf T) - {#it#}) + (if t_count it = 1 then {#} else {#next_turn now it#})"
proof -
  have inv: "timer_inv T" and it: "it \<in> set (Timer_buf T)" using g f by (auto simp: going_def timer_first_Cons)
  have s: "0 \<le> t_msec it" "t_count it = - 1 \<or> 0 < t_count it" using g it by (simp_all add: going_def)
  let ?T = "if t_count it = 1 then DelTimer it T else AddTimerInfo (next_turn now it) (DelTimer it T)"
  have st: "CheckTimer now T = Inr (Some (t_func it, t_arg it), ?T)"
    using s by (auto simp: CheckTimer_first [OF f] next_turn_def)
  have m: "mset (Timer_buf ?T) = (mset (Timer_buf T) - {#it#}) + (if t_count it = 1 then {#} else {#next_turn now it#})"
    using tq.entries_remove [OF inv f] by (simp add: AddTimerInfo_def)
  have old: "0 \<le> t_msec y \<and> (t_count y = - 1 \<or> 0 < t_count y)" if "y \<in># mset (Timer_buf T) - {#it#}" for y
    using in_diffD [OF that] g by (simp add: going_def)
  have "0 \<le> t_msec (next_turn now it) \<and> (t_count (next_turn now it) = - 1 \<or> 0 < t_count (next_turn now it))"
    if "t_count it \<noteq> 1" using that s g it by (auto simp: going_def next_turn_def)
  then have "0 \<le> t_msec y \<and> (t_count y = - 1 \<or> 0 < t_count y)" if "y \<in># mset (Timer_buf ?T)" for y
    using that old unfolding m by (cases "t_count it = 1") auto
  then have "going ?T" using CheckTimer_inv [OF inv st] unfolding going_def by (simp only: set_mset_mset) blast
  with st m show ?thesis by blast
qed

text \<open>Another timer stays in the buffer; once its deadline has passed, one timer ahead of it goes with every check.\<close>

lemma others_step:
  assumes g: "going T" and f: "timer_first T = Some it" and x: "x \<in> set (Timer_buf T)" "it \<noteq> x"
  shows "\<exists>c T'. CheckTimer now T = Inr (c, T') \<and> going T' \<and> x \<in> set (Timer_buf T') \<and> fired (t_id x) T c = 0 \<and>
    (t_data x < now \<longrightarrow> ahead x T' < ahead x T)"
proof -
  have inv: "timer_inv T" using g by (simp add: going_def)
  have it: "it \<in># mset (Timer_buf T)" "t_data it \<le> t_data x" "0 \<le> t_msec it"
    using f first_deadline_least [OF inv f x(1)] g by (auto simp: timer_first_Cons going_def)
  obtain c T' where s: "CheckTimer now T = Inr (c, T')" "going T'"
    and m: "mset (Timer_buf T') = (mset (Timer_buf T) - {#it#}) + (if t_count it = 1 then {#} else {#next_turn now it#})"
    using going_check [OF g f, of now] by blast
  have "t_id it \<noteq> t_id x"
    using inv it(1) x by (auto simp: timer_inv_def distinct_map dest: inj_onD)
  then have "fired (t_id x) T c = 0" using f by (simp add: fired_def)
  moreover have "x \<in># mset (Timer_buf T) - {#it#}" using x by (simp add: in_diff_count)
  then have "x \<in># mset (Timer_buf T')" by (simp add: m)
  moreover have "ahead x T' < ahead x T" if "t_data x < now"
  proof -
    let ?P = "\<lambda>y. y \<noteq> x \<and> t_data y \<le> t_data x"
    have "\<not> ?P (next_turn now it)" using that it(3) by (simp add: next_turn_def)
    then have "filter_mset ?P (mset (Timer_buf T')) = filter_mset ?P (mset (Timer_buf T)) - {#it#}"
      using x(2) it(2) by (simp add: m)
    moreover have "size (filter_mset ?P (mset (Timer_buf T)) - {#it#}) < size (filter_mset ?P (mset (Timer_buf T)))"
      by (rule size_Diff1_less) (use x(2) it in simp)
    ultimately show ?thesis by (simp add: ahead_mset)
  qed
  ultimately show ?thesis using s by (metis set_mset_mset)
qed

text \<open>A timer comes to the front.\<close>

definition comes_first :: "(nat \<Rightarrow> int) \<Rightarrow> ('f, 'a) TimerInfo \<Rightarrow> ('f, 'a) Timer \<Rightarrow> bool" where
  "comes_first now x T \<longleftrightarrow>
     (\<exists>k T'. check_run (times now k) T = Inr T' \<and> fires (t_id x) (times now k) T = 0 \<and> going T' \<and> timer_first T' = Some x)"

lemma comes_first_now: "going T \<Longrightarrow> timer_first T = Some x \<Longrightarrow> comes_first now x T"
  unfolding comes_first_def by (intro exI [of _ 0]) simp

lemma comes_first_step:
  assumes "CheckTimer (now 0) T = Inr (c, T')" "fired (t_id x) T c = 0" "comes_first (\<lambda>j. now (Suc j)) x T'"
  shows "comes_first now x T"
proof -
  obtain k T2 where "check_run (times (\<lambda>j. now (Suc j)) k) T' = Inr T2"
    "fires (t_id x) (times (\<lambda>j. now (Suc j)) k) T' = 0" "going T2" "timer_first T2 = Some x"
    using assms(3) by (auto simp: comes_first_def)
  then show ?thesis
    unfolding comes_first_def using assms(1,2) by (intro exI [of _ "Suc k"] exI [of _ T2]) (simp add: times_Suc)
qed

lemma going_first: "x \<in> set (Timer_buf T) \<Longrightarrow> \<exists>it. timer_first T = Some it"
  by (cases "Timer_buf T") (auto simp: timer_first_def)

lemma comes_first_late:
  "going T \<Longrightarrow> x \<in> set (Timer_buf T) \<Longrightarrow> \<forall>j. t_data x < now j \<Longrightarrow> comes_first now x T"
proof (induction "ahead x T" arbitrary: T now rule: less_induct)
  case less
  obtain it where it: "timer_first T = Some it" using going_first less.prems(2) by blast
  show ?case
  proof (cases "it = x")
    case False
    obtain c T' where st: "CheckTimer (now 0) T = Inr (c, T')" "going T'" "x \<in> set (Timer_buf T')" "fired (t_id x) T c = 0"
      "ahead x T' < ahead x T"
      using others_step [OF less.prems(1) it less.prems(2) False, of "now 0"] less.prems(3) by blast
    have "comes_first (\<lambda>j. now (Suc j)) x T'" by (rule less.hyps [OF st(5,2,3)]) (use less.prems(3) in blast)
    with st(1,4) show ?thesis by (rule comes_first_step)
  qed (use it less.prems comes_first_now in blast)
qed

lemma comes_first_after:
  "going T \<Longrightarrow> x \<in> set (Timer_buf T) \<Longrightarrow> \<forall>j\<ge>K. t_data x < now j \<Longrightarrow> comes_first now x T"
proof (induction K arbitrary: T now)
  case (Suc K)
  obtain it where it: "timer_first T = Some it" using going_first Suc.prems(2) by blast
  show ?case
  proof (cases "it = x")
    case False
    obtain c T' where st: "CheckTimer (now 0) T = Inr (c, T')" "going T'" "x \<in> set (Timer_buf T')" "fired (t_id x) T c = 0"
      using others_step [OF Suc.prems(1) it Suc.prems(2) False, of "now 0"] by blast
    have "comes_first (\<lambda>j. now (Suc j)) x T'" by (rule Suc.IH [OF st(2,3)]) (use Suc.prems(3) in auto)
    with st(1,4) show ?thesis by (rule comes_first_step)
  qed (use it Suc.prems comes_first_now in blast)
qed (use comes_first_late in blast)

text \<open>One turn of a timer under a clock that goes on: it is called once more, and is gone or has one call less.\<close>

lemma one_turn:
  assumes g: "going T" and x: "x \<in> set (Timer_buf T)" "0 < t_count x" and c: "\<forall>b. \<exists>K. \<forall>j\<ge>K. b < now j"
  shows "\<exists>k T'. check_run (times now k) T = Inr T' \<and> fires (t_id x) (times now k) T = 1 \<and> going T' \<and>
    (if t_count x = 1 then t_id x \<notin> t_id ` set (Timer_buf T')
     else \<exists>y \<in> set (Timer_buf T'). t_id y = t_id x \<and> t_count y = t_count x - 1)"
proof -
  obtain K where "\<forall>j\<ge>K. t_data x < now j" using c by blast
  from comes_first_after [OF g x(1) this] obtain k T1 where k: "check_run (times now k) T = Inr T1"
    "fires (t_id x) (times now k) T = 0" "going T1" "timer_first T1 = Some x" by (auto simp: comes_first_def)
  obtain T2 where s: "CheckTimer (now k) T1 = Inr (Some (t_func x, t_arg x), T2)" "going T2"
    and m: "mset (Timer_buf T2) = (mset (Timer_buf T1) - {#x#}) + (if t_count x = 1 then {#} else {#next_turn (now k) x#})"
    using going_check [OF k(3,4), of "now k"] by blast
  have t: "times now (Suc k) = times now k @ [now k]" by (simp add: times_def)
  have "check_run (times now (Suc k)) T = Inr T2" "fires (t_id x) (times now (Suc k)) T = 1"
    using k s(1) by (simp_all add: t check_run_append [OF k(1)] fires_append [OF k(1)] fired_def)
  moreover have "t_id x \<notin> t_id ` set (Timer_buf T2)" if "t_count x = 1"
  proof -
    have "timer_inv T1" using k(3) by (simp add: going_def)
    then have "t_id x \<notin> t_id ` set (Timer_buf (DelTimer x T1))"
      using fresh_after_DelTimer [OF _ k(4), of x] by (simp add: timer_fresh_def)
    then show ?thesis using s(1) that by (simp add: CheckTimer_first [OF k(4)])
  qed
  moreover have "next_turn (now k) x \<in># mset (Timer_buf T2)" if "t_count x \<noteq> 1" using that by (simp add: m)
  then have "\<exists>y \<in> set (Timer_buf T2). t_id y = t_id x \<and> t_count y = t_count x - 1" if "t_count x \<noteq> 1"
    using that x(2) by (intro bexI [of _ "next_turn (now k) x"]) (simp_all add: next_turn_def)
  ultimately show ?thesis using s(2) by (intro exI [of _ "Suc k"] exI [of _ T2]) auto
qed

lemma fires_all:
  "going T \<Longrightarrow> x \<in> set (Timer_buf T) \<Longrightarrow> t_count x = int (Suc n) \<Longrightarrow> \<forall>b. \<exists>K. \<forall>j\<ge>K. b < now j \<Longrightarrow>
   \<exists>k T'. check_run (times now k) T = Inr T' \<and> fires (t_id x) (times now k) T = Suc n \<and> t_id x \<notin> t_id ` set (Timer_buf T')"
proof (induction n arbitrary: T x now)
  case 0
  then show ?case using one_turn [OF 0(1,2) _ 0(4)] by auto
next
  case (Suc n)
  obtain k T1 y where k: "check_run (times now k) T = Inr T1" "fires (t_id x) (times now k) T = 1" "going T1"
    "y \<in> set (Timer_buf T1)" "t_id y = t_id x" "t_count y = int (Suc n)"
    using one_turn [OF Suc.prems(1,2) _ Suc.prems(4)] Suc.prems(3) by auto
  have "\<forall>b. \<exists>K. \<forall>j\<ge>K. b < now (k + j)"
  proof
    fix b
    obtain K where "\<forall>j\<ge>K. b < now j" using Suc.prems(4) by blast
    then show "\<exists>K. \<forall>j\<ge>K. b < now (k + j)" by (intro exI [of _ K]) simp
  qed
  from Suc.IH [OF k(3,4,6) this] obtain m T2 where m: "check_run (times (\<lambda>j. now (k + j)) m) T1 = Inr T2"
    "fires (t_id x) (times (\<lambda>j. now (k + j)) m) T1 = Suc n" "t_id x \<notin> t_id ` set (Timer_buf T2)" using k(5) by auto
  then show ?case
    using k(2) by (intro exI [of _ "k + m"] exI [of _ T2]) (simp add: times_add check_run_append [OF k(1)] fires_append [OF k(1)])
qed

section \<open>Properties\<close>

text \<open>
  C30. Whatever sequence of \<^verbatim>\<open>AddTimer\<close> and \<^verbatim>\<open>CheckTimer\<close> calls is made from the empty timer, the buffer
  stays strictly ordered by deadline and id, no two timers share an id, and every id is below the
  counter, so that \<^verbatim>\<open>DelTimer\<close> removes exactly the timer it is given.
\<close>

theorem timer_ops_keep_order:
  assumes "timer_run ops empty_Timer = Inr T"
  shows "timer_inv T \<and> (\<forall>x \<in> set (Timer_buf T). mset (ms_erase x (Timer_buf T)) = mset (Timer_buf T) - {#x#})"
proof -
  have inv: "timer_inv T" using timer_inv_empty assms by (rule timer_run_inv)
  have "mset (ms_erase x ys) = mset ys - {#x#}"
    if "distinct (map t_id ys)" "x \<in> set ys" for x and ys :: "('a, 'b) TimerInfo list"
    using that
  proof (induction ys)
    case (Cons y ys)
    show ?case
    proof (cases "x = y")
      case False
      then have "t_id x \<noteq> t_id y" using Cons.prems by (fastforce simp: image_iff)
      then have "timer_less x y \<or> timer_less y x" using timer_less_total [of x y] by auto
      with False Cons show ?thesis by (simp add: ms_erase_def)
    qed (use Cons ms_erase_first [of y ys] in simp)
  qed simp
  with inv show ?thesis by (simp add: timer_inv_def)
qed

theorem timer_ops_keep_order_witness:
  "timer_run [OpAdd 0 20 (- 1) ''check'' (), OpAdd 1 10 1 ''free'' (), OpCheck 11] empty_Timer =
     Inr \<lparr>Timer_buf = [\<lparr>t_msec = 20, t_data = 20, t_func = ''check'', t_id = 0, t_count = - 1, t_arg = ()\<rparr>],
          timer_next_id = 2\<rparr>
   \<and> timer_inv \<lparr>Timer_buf = [\<lparr>t_msec = 20, t_data = 20, t_func = ''check'', t_id = 0, t_count = - 1, t_arg = ()\<rparr>],
          timer_next_id = 2\<rparr>"
proof -
  have run: "timer_run [OpAdd 0 20 (- 1) ''check'' (), OpAdd 1 10 1 ''free'' (), OpCheck 11] empty_Timer =
     Inr \<lparr>Timer_buf = [\<lparr>t_msec = 20, t_data = 20, t_func = ''check'', t_id = 0, t_count = - 1, t_arg = ()\<rparr>],
          timer_next_id = 2\<rparr>"
    by (simp add: AddTimer_def CheckTimer_def DelTimer_def ms_erase_def empty_Timer_def timer_less_def)
  show ?thesis using run timer_ops_keep_order [OF run] by blast
qed

text \<open>
  The time \<^verbatim>\<open>SetTime\<close> gives \<^verbatim>\<open>epoll_wait\<close>: -1, that is forever, exactly when there is no timer;
  otherwise a time that is not negative, not longer than the wait for any timer, and equal to the wait
  for one of them (zero for an overdue one).
\<close>

theorem SetTime_is_least_wait:
  assumes "timer_inv T"
  shows "(SetTime now T = - 1 \<longleftrightarrow> Timer_buf T = [])
    \<and> (\<forall>x \<in> set (Timer_buf T). 0 \<le> SetTime now T \<and> SetTime now T \<le> max 0 (t_data x - now))
    \<and> (Timer_buf T \<noteq> [] \<longrightarrow> (\<exists>x \<in> set (Timer_buf T). SetTime now T = max 0 (t_data x - now)))"
proof (cases "timer_first T")
  case None
  then show ?thesis by (auto simp: SetTime_first timer_first_def split: list.splits)
next
  case (Some it)
  have "it \<in> set (Timer_buf T)" using Some by (auto simp: timer_first_Cons)
  moreover have "Timer_buf T \<noteq> []" using Some by (auto simp: timer_first_Cons)
  moreover have "max 0 (t_data it - now) \<le> max 0 (t_data x - now)" if "x \<in> set (Timer_buf T)" for x
    using first_deadline_least [OF assms Some that] by auto
  ultimately show ?thesis using Some by (auto simp: SetTime_first)
qed

theorem SetTime_is_least_wait_witness:
  "timer_inv (AddTimer 5 30 1 ''b'' () (AddTimer 0 20 1 ''a'' () empty_Timer)) \<and>
   SetTime 7 (AddTimer 5 30 1 ''b'' () (AddTimer 0 20 1 ''a'' () empty_Timer)) = 13 \<and>
   SetTime 7 (AddTimer 5 30 1 ''b'' () (AddTimer 0 20 1 ''a'' () empty_Timer)) \<noteq> - 1"
proof -
  let ?T = "AddTimer 5 30 1 ''b'' () (AddTimer 0 20 1 ''a'' () empty_Timer)"
  have inv: "timer_inv ?T" by (intro AddTimer_inv timer_inv_empty)
  have "Timer_buf ?T \<noteq> []" by (simp add: AddTimer_def empty_Timer_def timer_less_def)
  moreover have "SetTime 7 ?T = 13" by (simp add: SetTime_def AddTimer_def empty_Timer_def timer_less_def)
  ultimately show ?thesis using inv SetTime_is_least_wait [OF inv, of 7] by simp
qed

text \<open>
  \<^verbatim>\<open>CheckTimer\<close> calls the callback of the earliest timer and of no other. A timer with count 1 is
  removed, one with a larger count is put back with its count lowered and its deadline set to now
  plus its period, one with count -1 is put back with a new deadline; the other timers stay as they
  are. A timer with another count is neither called nor removed.
\<close>

theorem CheckTimer_serves_earliest:
  assumes "timer_inv T" and "it \<in> set (Timer_buf T)"
    and "\<forall>y \<in> set (Timer_buf T). y = it \<or> timer_less it y"
  shows "\<exists>T'. CheckTimer now T =
      Inr (if 1 \<le> t_count it \<or> t_count it = - 1 then Some (t_func it, t_arg it) else None, T')
    \<and> timer_inv T'
    \<and> mset (Timer_buf T') =
        (if t_count it = 1 then mset (Timer_buf T) - {#it#}
         else if 1 < t_count it then
           add_mset (it\<lparr>t_data := now + t_msec it, t_count := t_count it - 1\<rparr>) (mset (Timer_buf T) - {#it#})
         else if t_count it = - 1 then
           add_mset (it\<lparr>t_data := now + t_msec it\<rparr>) (mset (Timer_buf T) - {#it#})
         else mset (Timer_buf T))"
proof -
  obtain x where x: "timer_first T = Some x" "x \<in> set (Timer_buf T)"
    using tq.first_exists [OF assms(1)] assms(2) by fastforce
  have "x = it"
  proof (rule ccontr)
    assume "x \<noteq> it"
    then have "timer_less x it" "timer_less it x"
      using assms(2,3) x tq.first_least [OF assms(1) x(1)] by auto
    then show False by (meson timer_less_irrefl timer_less_trans)
  qed
  then have first: "timer_first T = Some it" using x by simp
  obtain c T' where step: "CheckTimer now T = Inr (c, T')"
    using CheckTimer_first [OF first] by (metis (no_types))
  show ?thesis
    using step CheckTimer_inv [OF assms(1) step] tq.entries_remove [OF assms(1) first]
      tq.entries_replace_first [OF assms(1) first]
    by (auto simp: CheckTimer_first [OF first] split: if_splits)
qed

theorem CheckTimer_serves_earliest_witness:
  "timer_inv (AddTimer 0 20 3 ''a'' () empty_Timer) \<and>
   (\<exists>T'. CheckTimer 21 (AddTimer 0 20 3 ''a'' () empty_Timer) = Inr (Some (''a'', ()), T')
     \<and> mset (Timer_buf T') =
        {# \<lparr>t_msec = 20, t_data = 41, t_func = ''a'', t_id = 0, t_count = 2, t_arg = ()\<rparr> #})"
proof -
  let ?T = "AddTimer 0 20 3 ''a'' () empty_Timer"
  let ?it = "\<lparr>t_msec = 20, t_data = 20, t_func = ''a'', t_id = 0, t_count = 3, t_arg = ()\<rparr>"
  have inv: "timer_inv ?T" by (intro AddTimer_inv timer_inv_empty)
  have mem: "?it \<in> set (Timer_buf ?T)" by (simp add: AddTimer_def empty_Timer_def)
  have least: "\<forall>y \<in> set (Timer_buf ?T). y = ?it \<or> timer_less ?it y"
    by (simp add: AddTimer_def empty_Timer_def)
  have buf: "Timer_buf ?T = [?it]" by (simp add: AddTimer_def empty_Timer_def)
  show ?thesis
    using inv CheckTimer_serves_earliest [OF inv mem least, of 21] by (simp add: buf) blast
qed

text \<open>
  C16. A timer fires as often as it was asked to. Let the buffer be well formed, with periods that are not negative and every
  timer periodic or with calls left, and let the checks be made under a clock that goes on forever. Then a timer with
  \<open>n\<close> calls left is called with its own function and argument exactly \<open>n\<close> times, whatever the other timers are:
  after finitely many checks, none of which faults, all \<open>n\<close> calls have been made and the timer is gone; and no
  number of checks at any times makes more calls.
\<close>

theorem timer_fires_its_count:
  assumes "going T" and "x \<in> set (Timer_buf T)" and "0 < t_count x" and "\<forall>b. \<exists>K. \<forall>j\<ge>K. b < now j"
  shows "(\<exists>k T'. check_run (times now k) T = Inr T' \<and> int (fires (t_id x) (times now k) T) = t_count x \<and>
      t_id x \<notin> t_id ` set (Timer_buf T')) \<and>
    (\<forall>ns. int (fires (t_id x) ns T) \<le> t_count x)"
proof -
  have inv: "timer_inv T" using assms(1) by (simp add: going_def)
  obtain n where n: "t_count x = int (Suc n)" using assms(3) by (metis zero_less_imp_eq_int gr0_implies_Suc of_nat_0_less_iff)
  obtain k T' where "check_run (times now k) T = Inr T'" "int (fires (t_id x) (times now k) T) = t_count x"
    "t_id x \<notin> t_id ` set (Timer_buf T')" using fires_all [OF assms(1,2) n assms(4)] n by metis
  then show ?thesis
    using fires_le [OF inv counting_unique [OF inv assms(2,3)]] remaining_unique [OF inv assms(2)] by metis
qed

text \<open>A timer with two calls beside a periodic one, checked every 15 milliseconds.\<close>

theorem timer_fires_its_count_witness:
  "\<exists>k T'. check_run (times (\<lambda>j. 15 * int j) k) (AddTimer 0 20 (- 1) ''b'' () (AddTimer 0 20 2 ''a'' () empty_Timer)) = Inr T' \<and>
     fires 0 (times (\<lambda>j. 15 * int j) k) (AddTimer 0 20 (- 1) ''b'' () (AddTimer 0 20 2 ''a'' () empty_Timer)) = 2 \<and>
     0 \<notin> t_id ` set (Timer_buf T')"
proof -
  let ?T = "AddTimer 0 20 (- 1) ''b'' () (AddTimer 0 20 2 ''a'' () empty_Timer)"
  let ?x = "\<lparr>t_msec = 20, t_data = 20, t_func = ''a'', t_id = 0, t_count = 2, t_arg = ()\<rparr>"
  have "timer_inv ?T" by (intro AddTimer_inv timer_inv_empty)
  then have g: "going ?T" by (simp add: going_def) (simp add: AddTimer_def empty_Timer_def)
  have mem: "?x \<in> set (Timer_buf ?T)" by (simp add: AddTimer_def empty_Timer_def)
  have c: "\<forall>b. \<exists>K. \<forall>j\<ge>K. b < 15 * int j"
  proof
    fix b :: int
    show "\<exists>K. \<forall>j\<ge>K. b < 15 * int j" by (rule exI [of _ "nat b + 1"]) auto
  qed
  show ?thesis using timer_fires_its_count [OF g mem _ c] by auto
qed

end
