(* ===== verification/SockState.thy ===== *)
theory SockState
  imports NgxPrelude NgxTimer
begin

text \<open>
  The state of a worker's \<^verbatim>\<open>CSocket\<close> (\<^verbatim>\<open>_include/ngx_c_socket.h\<close>, \<^verbatim>\<open>_include/ngx_comm.h\<close>) with the
  singletons its operations reach: the message memory of \<^verbatim>\<open>CMemory\<close> (\<^verbatim>\<open>misc/ngx_c_memory.cpp\<close>), the
  timers, the task queue of the thread pool and the epoll registrations. Connections live in arrays
  allocated by \<^verbatim>\<open>new\<close>; a pointer to one is the number of its array and an index, and every access
  through a pointer outside an allocated array is a fault. Bytes of message memory that nothing has
  written are \<open>None\<close>.
\<close>

section \<open>Constants\<close>

definition PKG_MAX_LENGTH :: nat where "PKG_MAX_LENGTH = 30000"
definition PKGHEADERLEN :: nat where "PKGHEADERLEN = 8"
definition MSGHEADERLEN :: nat where "MSGHEADERLEN = 16"
definition DATA_BUFSIZE :: nat where "DATA_BUFSIZE = 20"
definition CREATECONNUM :: nat where "CREATECONNUM = 16"
definition WAITTIME :: int where "WAITTIME = 20"
definition ETOPEN :: int where "ETOPEN = 1"
definition ETCLOSE :: int where "ETCLOSE = 0"

text \<open>The receiving states \<^verbatim>\<open>_PKG_HD_INIT\<close> to \<^verbatim>\<open>_PKG_BD_RECVING\<close>.\<close>

datatype pkg_stat = PKG_HD_INIT | PKG_HD_RECVING | PKG_BD_INIT | PKG_BD_RECVING

section \<open>Pointers, connections, messages\<close>

type_synonym conn_ptr = "nat \<times> nat"
type_synonym mem_ptr = nat

text \<open>
  Where \<^verbatim>\<open>precvbuf\<close> points: null, into the connection's own \<^verbatim>\<open>dataHeadInfo\<close>, or into a message block. The
  offset into a block counts from the block's start, so the package bytes start at \<open>MSGHEADERLEN\<close>.
\<close>

datatype recv_ptr = RNull | RHead nat | RMem mem_ptr nat

datatype handler =
    H_ngx_event_accept
  | H_ngx_read_request_handler
  | H_ngx_read_request_handler_ET
  | H_ngx_write_request_handler
  | H_ngx_evhup_handler

text \<open>\<^verbatim>\<open>struct ngx_connection_s\<close>.\<close>

record ngx_connection =
  fd :: int
  listening :: "nat option"
  c_instance :: bool
  iCurrsequence :: u64
  rhandler :: "handler option"
  whandler :: "handler option"
  phandler :: "handler option"
  logicObj :: "nat option"
  curStat :: pkg_stat
  dataHeadInfo :: "u8 list"
  precvbuf :: recv_ptr
  irecvlen :: u32
  precvMemPointer :: "mem_ptr option"
  logicPorcMutex :: bool
  lastPingTime :: int
  storePingTime :: int
  deleteFlag :: bool
  psendMemPointer :: "mem_ptr option"
  psendbuf :: "(mem_ptr \<times> nat) option"
  isendlen :: u32
  FloodkickLastTime :: u64
  FloodAttackCount :: int
  c_next :: "conn_ptr option"

text \<open>What \<^verbatim>\<open>bzero(c, sizeof(ngx_connection_t))\<close> leaves.\<close>

definition zero_connection :: ngx_connection where
  "zero_connection =
     \<lparr>fd = 0, listening = None, c_instance = False, iCurrsequence = 0,
      rhandler = None, whandler = None, phandler = None, logicObj = None,
      curStat = PKG_HD_INIT, dataHeadInfo = replicate DATA_BUFSIZE 0, precvbuf = RNull, irecvlen = 0,
      precvMemPointer = None, logicPorcMutex = False, lastPingTime = 0, storePingTime = 0,
      deleteFlag = False, psendMemPointer = None, psendbuf = None, isendlen = 0,
      FloodkickLastTime = 0, FloodAttackCount = 0, c_next = None\<rparr>"

text \<open>\<^verbatim>\<open>STRUC_MSG_HEADER\<close>, and a block of message memory: its header, once written, and its package bytes.\<close>

record msg_header =
  pConn :: conn_ptr
  hdr_sequence :: u64

record msg_block =
  mb_header :: "msg_header option"
  mb_bytes :: "u8 option list"

record ngx_listening =
  port :: int
  l_fd :: int
  l_connection :: "conn_ptr option"

datatype timer_cb = CB_ngx_time_tofree_connection | CB_ngx_time_tocheck

datatype task =
    T_ngx_time_check
  | T_ngx_timer_free_connection
  | T_recvproc_ET conn_ptr
  | T_threadRecvProcFunc "nat option" "mem_ptr option"
  | T_sendRemainMsg conn_ptr

datatype epoll_op = EPOLL_CTL_ADD | EPOLL_CTL_MOD | EPOLL_CTL_DEL

record epoll_reg =
  ev_in :: bool
  ev_out :: bool
  ev_et :: bool
  ev_ptr :: conn_ptr

section \<open>The socket object and its surroundings\<close>

record csocket =
  m_worker_connections :: int
  m_ListenPortCount :: int
  m_ListenSocketList :: "ngx_listening list"
  m_ETflag :: int
  m_floodAkEnable :: int
  m_floodTimeInterval :: int
  m_floodKickCount :: int
  m_pconnections :: "nat list"
  conns :: "conn_ptr \<Rightarrow> ngx_connection"
  m_pfree_connections :: "conn_ptr option"
  m_connection_n :: int
  m_free_connection_n :: int
  m_connection_n_max :: int
  m_recyconnectionList :: "conn_ptr list"
  m_timerQueuemap :: "(int \<times> mem_ptr) list"
  m_PingMutex :: bool
  m_shutdown :: bool
  m_onlineUserCount :: int
  mem :: "mem_ptr \<Rightarrow> msg_block option"
  mem_next :: mem_ptr
  obj_live :: "nat \<Rightarrow> bool"
  obj_next :: nat
  timers :: "(timer_cb, conn_ptr option) Timer"
  tasks :: "task list"
  epoll_set :: "int \<Rightarrow> epoll_reg option"
  closed_fds :: "int list"

section \<open>Access to connections\<close>

definition valid_conn :: "csocket \<Rightarrow> conn_ptr \<Rightarrow> bool" where
  "valid_conn cs p \<longleftrightarrow> fst p < length (m_pconnections cs) \<and> snd p < m_pconnections cs ! fst p"

definition conn_put :: "conn_ptr \<Rightarrow> ngx_connection \<Rightarrow> csocket \<Rightarrow> csocket" where
  "conn_put p c cs = cs\<lparr>conns := (conns cs)(p := c)\<rparr>"

definition conn_upd :: "conn_ptr \<Rightarrow> (ngx_connection \<Rightarrow> ngx_connection) \<Rightarrow> csocket \<Rightarrow> csocket res" where
  "conn_upd p f cs = (if valid_conn cs p then Inr (conn_put p (f (conns cs p)) cs) else Inl OutOfBounds)"

section \<open>Message memory\<close>

text \<open>
  \<^verbatim>\<open>CMemory::AllocMemory(memCount, false)\<close> and \<^verbatim>\<open>FreeMemory\<close>. Every block the program allocates starts
  with a message header; the remaining bytes are the package part. Releasing a null pointer does
  nothing, releasing a block twice is a fault.
\<close>

definition AllocMemory :: "nat \<Rightarrow> csocket \<Rightarrow> mem_ptr \<times> csocket" where
  "AllocMemory memCount cs =
     (mem_next cs,
      cs\<lparr>mem := (mem cs)(mem_next cs \<mapsto>
            \<lparr>mb_header = None, mb_bytes = replicate (memCount - MSGHEADERLEN) None\<rparr>),
         mem_next := mem_next cs + 1\<rparr>)"

definition FreeMemory :: "mem_ptr option \<Rightarrow> csocket \<Rightarrow> csocket res" where
  "FreeMemory p cs =
     (case p of
        None \<Rightarrow> Inr cs
      | Some q \<Rightarrow> (case mem cs q of None \<Rightarrow> Inl DeadMemory | Some _ \<Rightarrow> Inr (cs\<lparr>mem := (mem cs)(q := None)\<rparr>)))"

definition mem_get :: "mem_ptr \<Rightarrow> csocket \<Rightarrow> msg_block res" where
  "mem_get q cs = of_option DeadMemory (mem cs q)"

definition mem_put :: "mem_ptr \<Rightarrow> msg_block \<Rightarrow> csocket \<Rightarrow> csocket" where
  "mem_put q b cs = cs\<lparr>mem := (mem cs)(q \<mapsto> b)\<rparr>"

text \<open>The message header of a block: reading one that is not there yet reads uninitialised memory.\<close>

definition msg_header_of :: "mem_ptr \<Rightarrow> csocket \<Rightarrow> msg_header res" where
  "msg_header_of q cs = res_bind (mem_get q cs) (\<lambda>b. of_option DeadMemory (mb_header b))"

section \<open>Lemmas\<close>

named_theorems sock_simps \<open>access to the parts of the socket state\<close>

lemma conn_put_same [sock_simps]: "conns (conn_put p c cs) p = c"
  by (simp add: conn_put_def)

lemma conn_put_other [sock_simps]: "q \<noteq> p \<Longrightarrow> conns (conn_put p c cs) q = conns cs q"
  by (simp add: conn_put_def)

lemma conn_put_fields [sock_simps]:
  "m_pconnections (conn_put p c cs) = m_pconnections cs"
  "m_pfree_connections (conn_put p c cs) = m_pfree_connections cs"
  "m_connection_n (conn_put p c cs) = m_connection_n cs"
  "m_connection_n_max (conn_put p c cs) = m_connection_n_max cs"
  "m_free_connection_n (conn_put p c cs) = m_free_connection_n cs"
  "m_worker_connections (conn_put p c cs) = m_worker_connections cs"
  "m_ETflag (conn_put p c cs) = m_ETflag cs"
  "m_floodTimeInterval (conn_put p c cs) = m_floodTimeInterval cs"
  "m_floodKickCount (conn_put p c cs) = m_floodKickCount cs"
  "m_onlineUserCount (conn_put p c cs) = m_onlineUserCount cs"
  "m_timerQueuemap (conn_put p c cs) = m_timerQueuemap cs"
  "m_PingMutex (conn_put p c cs) = m_PingMutex cs"
  "mem (conn_put p c cs) = mem cs"
  "mem_next (conn_put p c cs) = mem_next cs"
  "timers (conn_put p c cs) = timers cs"
  "tasks (conn_put p c cs) = tasks cs"
  "obj_live (conn_put p c cs) = obj_live cs"
  "epoll_set (conn_put p c cs) = epoll_set cs"
  by (simp_all add: conn_put_def)

lemma valid_conn_put [sock_simps]: "valid_conn (conn_put p c cs) q = valid_conn cs q"
  by (simp add: valid_conn_def conn_put_def)

lemma conn_put_twice [sock_simps]: "conn_put p c (conn_put p d cs) = conn_put p c cs"
  by (simp add: conn_put_def)

lemma conn_upd_valid [sock_simps]: "valid_conn cs p \<Longrightarrow> conn_upd p f cs = Inr (conn_put p (f (conns cs p)) cs)"
  by (simp add: conn_upd_def)

lemma conn_upd_Inr_iff: "conn_upd p f cs = Inr cs' \<longleftrightarrow> valid_conn cs p \<and> cs' = conn_put p (f (conns cs p)) cs"
  by (auto simp: conn_upd_def)

end
