(* ===== verification/Listen.thy ===== *)
theory Listen
  imports Conf SockState
begin

text \<open>
  Start of the socket object (\<^verbatim>\<open>net/ngx_c_socket.cpp\<close>: the constructor and destructor, \<^verbatim>\<open>ReadConf\<close>, \<^verbatim>\<open>ngx_open_listening_sockets\<close>, \<^verbatim>\<open>Initialize\<close>,
  \<^verbatim>\<open>setnonblocking\<close>, \<^verbatim>\<open>ngx_close_listening_sockets\<close>) and the text of an address
  (\<^verbatim>\<open>net/ngx_c_socket_inet.cpp\<close>). The results of the system calls are arguments, one record per port.
\<close>

section \<open>Operations\<close>

record listen_sys =
  s_socket :: int
  s_setsockopt :: bool
  s_getfl :: int
  s_setfl :: bool
  s_bind :: bool
  s_listen :: bool

text \<open>
  The constructor on memory that holds \<open>raw\<close>: members it does not set keep what was there, among them the
  number of users, the limits of the flood test and the counters of the pool. The message memory, the timers, the
  tasks and the registrations belong to other objects. The destructor ends the recycling task and empties the lists,
  which releases the connection arrays.
\<close>

definition CSocket :: "csocket \<Rightarrow> csocket" where
  "CSocket raw =
     raw\<lparr>m_worker_connections := 1, m_ListenPortCount := 1, m_ETflag := 0, m_floodAkEnable := 0, m_pfree_connections := None,
        m_shutdown := False, m_ListenSocketList := [], m_pconnections := [], m_recyconnectionList := [], m_timerQueuemap := [],
        m_PingMutex := False\<rparr>"

definition CSocket_dtor :: "csocket \<Rightarrow> csocket" where
  "CSocket_dtor cs = cs\<lparr>m_shutdown := True, m_ListenSocketList := [], m_pconnections := [], m_recyconnectionList := []\<rparr>"

definition O_NONBLOCK :: int where "O_NONBLOCK = 2048"

text \<open>The flags set, or nothing after a failure.\<close>

definition setnonblocking :: "int \<Rightarrow> bool \<Rightarrow> int option" where
  "setnonblocking oldsta setfl_ok =
     (if oldsta = - 1 then None
      else let newsta = or oldsta O_NONBLOCK in if \<not> setfl_ok then None else Some newsta)"

text \<open>
  \<^verbatim>\<open>ReadConf\<close>. A missing optional setting leaves its member as it is, which for the two limits of the flood test
  is whatever the memory held.
\<close>

definition half :: "int \<Rightarrow> int" where
  "half n = (if n < 0 then - (- n div 2) else n div 2)"

definition ReadConf :: "CConfItem list \<Rightarrow> csocket \<Rightarrow> (bool \<times> csocket) res" where
  "ReadConf items cs =
     res_bind (GetNum items ''ListenPortCount'' (m_ListenPortCount cs)) (\<lambda>(ok, v).
     let cs = cs\<lparr>m_ListenPortCount := v\<rparr> in
     if \<not> ok then Inr (False, cs) else
     res_bind (GetNum items ''worker_connections'' (m_worker_connections cs)) (\<lambda>(ok, v).
     let cs = cs\<lparr>m_worker_connections := v\<rparr> in
     if \<not> ok then Inr (False, cs) else
     res_bind (GetNum items ''ET_flag'' (m_ETflag cs)) (\<lambda>(_, v).
     let cs = cs\<lparr>m_ETflag := v\<rparr> in
     res_bind (GetNum items ''Flood_flag'' (m_floodAkEnable cs)) (\<lambda>(_, v).
     let cs = cs\<lparr>m_floodAkEnable := v\<rparr> in
     res_bind (GetNum items ''FloodTimeInterval'' (m_floodTimeInterval cs)) (\<lambda>(_, v).
     let cs = cs\<lparr>m_floodTimeInterval := v\<rparr> in
     res_bind (GetNum items ''FloodKickCount'' (m_floodKickCount cs)) (\<lambda>(_, v).
     let cs = cs\<lparr>m_floodKickCount := v\<rparr> in
     Inr (True, cs\<lparr>m_connection_n_max := wrap32 (m_worker_connections cs + half (m_worker_connections cs))\<rparr>)))))))"

definition port_name :: "nat \<Rightarrow> string" where
  "port_name i = ''ListenPort'' @ to_string (int i)"

text \<open>One pass for port \<open>i\<close>: a failure closes the new socket; the flag says whether to go on.\<close>

definition close_sock :: "int \<Rightarrow> csocket \<Rightarrow> csocket" where
  "close_sock isock cs = cs\<lparr>closed_fds := closed_fds cs @ [isock]\<rparr>"

definition open_port :: "CConfItem list \<Rightarrow> listen_sys \<Rightarrow> nat \<Rightarrow> int \<Rightarrow> csocket \<Rightarrow> (bool \<times> int \<times> csocket) res" where
  "open_port items sys i server_port cs =
     (let isock = s_socket sys in
      if isock = - 1 then Inr (False, server_port, cs)
      else
        res_bind (GetNum items (port_name i) server_port) (\<lambda>(found, server_port).
        if \<not> found then Inr (False, server_port, close_sock isock cs)
        else if \<not> s_setsockopt sys then Inr (False, server_port, close_sock isock cs)
        else if setnonblocking (s_getfl sys) (s_setfl sys) = None then Inr (False, server_port, close_sock isock cs)
        else if \<not> s_bind sys then Inr (False, server_port, close_sock isock cs)
        else if \<not> s_listen sys then Inr (False, server_port, close_sock isock cs)
        else Inr (True, server_port,
          cs\<lparr>m_ListenSocketList := m_ListenSocketList cs @ [\<lparr>port = server_port, l_fd = isock, l_connection = None\<rparr>]\<rparr>)))"

fun open_loop :: "CConfItem list \<Rightarrow> (nat \<Rightarrow> listen_sys) \<Rightarrow> nat \<Rightarrow> nat \<Rightarrow> int \<Rightarrow> csocket \<Rightarrow> (bool \<times> csocket) res" where
  "open_loop items sys i 0 server_port cs = Inr (True, cs)"
| "open_loop items sys i (Suc n) server_port cs =
     res_bind (open_port items (sys i) i server_port cs) (\<lambda>(ok, server_port, cs).
       if ok then open_loop items sys (Suc i) n server_port cs else Inr (False, cs))"

text \<open>The variable for the port is not initialised; its first value is never used.\<close>

definition ngx_open_listening_sockets :: "CConfItem list \<Rightarrow> (nat \<Rightarrow> listen_sys) \<Rightarrow> csocket \<Rightarrow> (bool \<times> csocket) res" where
  "ngx_open_listening_sockets items sys cs = open_loop items sys 0 (nat (m_ListenPortCount cs)) 0 cs"

definition Initialize :: "CConfItem list \<Rightarrow> (nat \<Rightarrow> listen_sys) \<Rightarrow> csocket \<Rightarrow> (bool \<times> csocket) res" where
  "Initialize items sys cs =
     res_bind (ReadConf items cs) (\<lambda>(ok, cs).
       if \<not> ok then Inr (False, cs)
       else res_bind (ngx_open_listening_sockets items sys cs) (\<lambda>(ok, cs).
         if \<not> ok then Inr (False, cs) else Inr (True, cs)))"

definition ngx_close_listening_sockets :: "csocket \<Rightarrow> csocket" where
  "ngx_close_listening_sockets cs = cs\<lparr>closed_fds := closed_fds cs @ map l_fd (m_ListenSocketList cs)\<rparr>"

text \<open>\<^verbatim>\<open>ngx_sock_ntop\<close>: \<open>ip\<close> is the text of \<^verbatim>\<open>inet_ntop\<close>; the length of the buffer is not looked at.\<close>

definition AF_INET :: int where "AF_INET = 2"

definition ngx_sock_ntop :: "int \<Rightarrow> string \<Rightarrow> u16 \<Rightarrow> char list \<Rightarrow> (nat \<times> char list) res" where
  "ngx_sock_ntop sin_family ip sin_port buf =
     (if sin_family = AF_INET then
        let Ptext = ip @ '' : '' @ to_string (uint sin_port) in
        res_bind (poke 0 Ptext buf) (\<lambda>buf. Inr (length Ptext, buf))
      else Inr (0, buf))"

section \<open>Lemmas\<close>

text \<open>The number a setting has, if it is there and is one.\<close>

definition num_of :: "CConfItem list \<Rightarrow> string \<Rightarrow> int option" where
  "num_of items name =
     (case find_item name items of None \<Rightarrow> None
      | Some it \<Rightarrow> (case stoi (IterContent it) of Inl e \<Rightarrow> None | Inr v \<Rightarrow> Some v))"

definition absent_or_num :: "CConfItem list \<Rightarrow> string \<Rightarrow> bool" where
  "absent_or_num items name \<longleftrightarrow> find_item name items = None \<or> num_of items name \<noteq> None"

definition num_or :: "int \<Rightarrow> CConfItem list \<Rightarrow> string \<Rightarrow> int" where
  "num_or d items name = (case num_of items name of None \<Rightarrow> d | Some v \<Rightarrow> v)"

lemma GetNum_num_of: "num_of items name = Some v \<Longrightarrow> GetNum items name d = Inr (True, v)"
  by (auto simp: num_of_def GetNum_def split: option.splits sum.splits)

lemma GetNum_optional: "absent_or_num items name \<Longrightarrow> \<exists>b. GetNum items name d = Inr (b, num_or d items name)"
  by (auto simp: absent_or_num_def num_or_def num_of_def GetNum_def split: option.splits sum.splits)

definition optional_names :: "string list" where
  "optional_names = [''ET_flag'', ''Flood_flag'', ''FloodTimeInterval'', ''FloodKickCount'']"

lemma ReadConf_ok:
  assumes "num_of items ''ListenPortCount'' = Some n" "num_of items ''worker_connections'' = Some w"
    and "list_all (absent_or_num items) optional_names"
  shows "ReadConf items cs = Inr (True, cs\<lparr>m_ListenPortCount := n, m_worker_connections := w,
     m_ETflag := num_or (m_ETflag cs) items ''ET_flag'', m_floodAkEnable := num_or (m_floodAkEnable cs) items ''Flood_flag'',
     m_floodTimeInterval := num_or (m_floodTimeInterval cs) items ''FloodTimeInterval'',
     m_floodKickCount := num_or (m_floodKickCount cs) items ''FloodKickCount'', m_connection_n_max := wrap32 (w + half w)\<rparr>)"
proof -
  have o: "\<exists>b. GetNum items name d = Inr (b, num_or d items name)" if "name \<in> set optional_names" for name d
    using that assms(3) by (intro GetNum_optional) (simp add: list_all_iff)
  obtain b1 b2 b3 b4 where b:
    "GetNum items ''ET_flag'' (m_ETflag cs) = Inr (b1, num_or (m_ETflag cs) items ''ET_flag'')"
    "GetNum items ''Flood_flag'' (m_floodAkEnable cs) = Inr (b2, num_or (m_floodAkEnable cs) items ''Flood_flag'')"
    "GetNum items ''FloodTimeInterval'' (m_floodTimeInterval cs) = Inr (b3, num_or (m_floodTimeInterval cs) items ''FloodTimeInterval'')"
    "GetNum items ''FloodKickCount'' (m_floodKickCount cs) = Inr (b4, num_or (m_floodKickCount cs) items ''FloodKickCount'')"
    using o [of "''ET_flag''" "m_ETflag cs"] o [of "''Flood_flag''" "m_floodAkEnable cs"]
      o [of "''FloodTimeInterval''" "m_floodTimeInterval cs"] o [of "''FloodKickCount''" "m_floodKickCount cs"]
    by (auto simp: optional_names_def)
  show ?thesis
    using b GetNum_num_of [OF assms(1)] GetNum_num_of [OF assms(2)] by (simp add: ReadConf_def Let_def)
qed

definition sys_ok :: "listen_sys \<Rightarrow> bool" where
  "sys_ok s \<longleftrightarrow> s_socket s \<noteq> - 1 \<and> s_setsockopt s \<and> s_getfl s \<noteq> - 1 \<and> s_setfl s \<and> s_bind s \<and> s_listen s"

definition opened :: "(nat \<Rightarrow> listen_sys) \<Rightarrow> int list \<Rightarrow> nat \<Rightarrow> nat \<Rightarrow> ngx_listening list" where
  "opened sys ports i k = map (\<lambda>j. \<lparr>port = ports ! j, l_fd = s_socket (sys j), l_connection = None\<rparr>) [i..<i + k]"

lemma open_port_ok:
  "sys_ok sys \<Longrightarrow> num_of items (port_name i) = Some p \<Longrightarrow>
   open_port items sys i d cs = Inr (True, p,
     cs\<lparr>m_ListenSocketList := m_ListenSocketList cs @ [\<lparr>port = p, l_fd = s_socket sys, l_connection = None\<rparr>]\<rparr>)"
  by (simp add: open_port_def sys_ok_def GetNum_num_of setnonblocking_def Let_def)

text \<open>The loop after \<open>k\<close> successful passes.\<close>

lemma open_loop_prefix:
  "list_all (\<lambda>j. sys_ok (sys j) \<and> num_of items (port_name j) = Some (ports ! j)) [i..<i + k] \<Longrightarrow>
   \<exists>d'. open_loop items sys i (k + m) d cs = open_loop items sys (i + k) m d'
     (cs\<lparr>m_ListenSocketList := m_ListenSocketList cs @ opened sys ports i k\<rparr>)"
proof (induction k arbitrary: i d cs)
  case 0
  then show ?case by (auto simp: opened_def)
next
  case (Suc k)
  let ?cs = "cs\<lparr>m_ListenSocketList := m_ListenSocketList cs @ [\<lparr>port = ports ! i, l_fd = s_socket (sys i), l_connection = None\<rparr>]\<rparr>"
  have up: "[i..<i + Suc k] = i # [Suc i..<Suc i + k]" by (simp add: upt_conv_Cons)
  have ok: "sys_ok (sys i)" "num_of items (port_name i) = Some (ports ! i)" using Suc.prems unfolding up by simp_all
  obtain d' where "open_loop items sys (Suc i) (k + m) (ports ! i) ?cs = open_loop items sys (Suc i + k) m d'
      (?cs\<lparr>m_ListenSocketList := m_ListenSocketList ?cs @ opened sys ports (Suc i) k\<rparr>)"
    using Suc.IH [of "Suc i" "ports ! i" ?cs] Suc.prems unfolding up by auto
  then show ?case using open_port_ok [OF ok, of d cs] up by (auto simp: opened_def)
qed

text \<open>The state \<^verbatim>\<open>Initialize\<close> leaves, when everything is configured and the system calls succeed.\<close>

definition initialized :: "CConfItem list \<Rightarrow> (nat \<Rightarrow> listen_sys) \<Rightarrow> int list \<Rightarrow> nat \<Rightarrow> int \<Rightarrow> csocket \<Rightarrow> csocket" where
  "initialized items sys ports n w cs =
     cs\<lparr>m_ListenPortCount := int n, m_worker_connections := w,
        m_ETflag := num_or (m_ETflag cs) items ''ET_flag'', m_floodAkEnable := num_or (m_floodAkEnable cs) items ''Flood_flag'',
        m_floodTimeInterval := num_or (m_floodTimeInterval cs) items ''FloodTimeInterval'',
        m_floodKickCount := num_or (m_floodKickCount cs) items ''FloodKickCount'', m_connection_n_max := w + w div 2,
        m_ListenSocketList := m_ListenSocketList cs @ opened sys ports 0 n\<rparr>"

lemma Initialize_ok:
  assumes n: "num_of items ''ListenPortCount'' = Some (int n)" and w: "num_of items ''worker_connections'' = Some w"
    and lim: "0 \<le> w" "w + w div 2 < 2 ^ 31" and opt: "list_all (absent_or_num items) optional_names"
    and ports: "list_all (\<lambda>j. sys_ok (sys j) \<and> num_of items (port_name j) = Some (ports ! j)) [0..<n]"
  shows "Initialize items sys cs = Inr (True, initialized items sys ports n w cs)"
proof -
  let ?cs = "cs\<lparr>m_ListenPortCount := int n, m_worker_connections := w,
     m_ETflag := num_or (m_ETflag cs) items ''ET_flag'', m_floodAkEnable := num_or (m_floodAkEnable cs) items ''Flood_flag'',
     m_floodTimeInterval := num_or (m_floodTimeInterval cs) items ''FloodTimeInterval'',
     m_floodKickCount := num_or (m_floodKickCount cs) items ''FloodKickCount'', m_connection_n_max := wrap32 (w + half w)\<rparr>"
  have "open_loop items sys 0 n 0 ?cs = Inr (True, ?cs\<lparr>m_ListenSocketList := m_ListenSocketList ?cs @ opened sys ports 0 n\<rparr>)"
    using open_loop_prefix [of sys items ports 0 n 0 0 ?cs] ports by auto
  then show ?thesis
    using ReadConf_ok [OF n w opt, of cs] lim
    by (simp add: Initialize_def ngx_open_listening_sockets_def half_def wrap32_small initialized_def)
qed

section \<open>Properties\<close>

text \<open>
  The server listens on every configured port. When the number of ports, the number of connections and the
  ports are configured as numbers and the system calls succeed, \<^verbatim>\<open>Initialize\<close> returns true with one listening
  socket per port, in order, and the limits set: the pool may grow to one and a half times
  \<^verbatim>\<open>worker_connections\<close>, optional settings keep their defaults when they are absent.
\<close>

theorem initialize_listens:
  assumes n: "num_of items ''ListenPortCount'' = Some (int n)" and w: "num_of items ''worker_connections'' = Some w"
    and lim: "0 \<le> w" "w + w div 2 < 2 ^ 31" and opt: "list_all (absent_or_num items) optional_names"
    and ports: "list_all (\<lambda>j. sys_ok (sys j) \<and> num_of items (port_name j) = Some (ports ! j)) [0..<n]"
  shows "\<exists>cs'. Initialize items sys cs = Inr (True, cs') \<and>
     m_ListenSocketList cs' = m_ListenSocketList cs @ opened sys ports 0 n \<and> closed_fds cs' = closed_fds cs \<and>
     m_worker_connections cs' = w \<and> m_connection_n_max cs' = w + w div 2 \<and>
     m_ETflag cs' = num_or (m_ETflag cs) items ''ET_flag''"
  using Initialize_ok [OF assms, of cs] by (auto simp: initialized_def)

text \<open>A configuration with two ports, and system calls that succeed.\<close>

definition sample_items :: "CConfItem list" where
  "sample_items = map (\<lambda>(n, v). \<lparr>ItemName = n, IterContent = v\<rparr>)
     [(''ListenPortCount'', ''2''), (''ListenPort0'', ''80''), (''ListenPort1'', ''443''), (''worker_connections'', ''1024''),
      (''ET_flag'', ''1'')]"

definition sample_sys :: "nat \<Rightarrow> listen_sys" where
  "sample_sys j = \<lparr>s_socket = 5 + int j, s_setsockopt = True, s_getfl = 2, s_setfl = True, s_bind = True, s_listen = True\<rparr>"

lemma sample_items_num:
  "num_of sample_items ''ListenPortCount'' = Some 2" "num_of sample_items ''worker_connections'' = Some 1024"
  "num_of sample_items (port_name 0) = Some 80" "num_of sample_items (port_name (Suc 0)) = Some 443"
  "num_of sample_items ''ET_flag'' = Some 1" "list_all (absent_or_num sample_items) optional_names"
  by code_simp+

theorem initialize_listens_witness:
  "\<forall>cs. \<exists>cs'. Initialize sample_items sample_sys cs = Inr (True, cs') \<and>
     map port (m_ListenSocketList cs') = map port (m_ListenSocketList cs) @ [80, 443] \<and> m_connection_n_max cs' = 1536"
proof
  fix cs
  have "list_all (\<lambda>j. sys_ok (sample_sys j) \<and> num_of sample_items (port_name j) = Some ([80, 443] ! j)) [0..<2]"
    using sample_items_num by (simp add: numeral_2_eq_2 sys_ok_def sample_sys_def)
  then show "\<exists>cs'. Initialize sample_items sample_sys cs = Inr (True, cs') \<and>
     map port (m_ListenSocketList cs') = map port (m_ListenSocketList cs) @ [80, 443] \<and> m_connection_n_max cs' = 1536"
    using initialize_listens [of sample_items 2 1024 sample_sys "[80, 443]" cs] sample_items_num
    by (auto simp: opened_def numeral_2_eq_2)
qed

text \<open>
  A port that cannot be opened stops the start and leaves the earlier ports open. When port \<open>k\<close> is not
  configured or one of its system calls fails after its socket was made, \<^verbatim>\<open>Initialize\<close> returns false; the new
  socket is closed, but the listening sockets of the earlier ports stay in the list, open.
\<close>

theorem failed_port_keeps_earlier:
  assumes n: "num_of items ''ListenPortCount'' = Some (int n)" and w: "num_of items ''worker_connections'' = Some w"
    and opt: "list_all (absent_or_num items) optional_names" and k: "k < n"
    and ports: "list_all (\<lambda>j. sys_ok (sys j) \<and> num_of items (port_name j) = Some (ports ! j)) [0..<k]"
    and fail: "s_socket (sys k) \<noteq> - 1" "absent_or_num items (port_name k)" "num_of items (port_name k) = None \<or> \<not> sys_ok (sys k)"
  shows "\<exists>cs'. Initialize items sys cs = Inr (False, cs') \<and>
     m_ListenSocketList cs' = m_ListenSocketList cs @ opened sys ports 0 k \<and> closed_fds cs' = closed_fds cs @ [s_socket (sys k)]"
proof -
  let ?cs = "cs\<lparr>m_ListenPortCount := int n, m_worker_connections := w,
     m_ETflag := num_or (m_ETflag cs) items ''ET_flag'', m_floodAkEnable := num_or (m_floodAkEnable cs) items ''Flood_flag'',
     m_floodTimeInterval := num_or (m_floodTimeInterval cs) items ''FloodTimeInterval'',
     m_floodKickCount := num_or (m_floodKickCount cs) items ''FloodKickCount'', m_connection_n_max := wrap32 (w + half w)\<rparr>"
  let ?cs1 = "?cs\<lparr>m_ListenSocketList := m_ListenSocketList cs @ opened sys ports 0 k\<rparr>"
  obtain d where d: "open_loop items sys 0 (k + Suc (n - Suc k)) 0 ?cs = open_loop items sys k (Suc (n - Suc k)) d ?cs1"
    using open_loop_prefix [of sys items ports 0 k "Suc (n - Suc k)" 0 ?cs] ports by auto
  have "\<exists>p. open_port items (sys k) k d ?cs1 = Inr (False, p, close_sock (s_socket (sys k)) ?cs1)"
    using fail by (auto simp: open_port_def sys_ok_def setnonblocking_def absent_or_num_def num_of_def GetNum_def Let_def
      split: option.splits sum.splits)
  then have "open_loop items sys 0 n 0 ?cs = Inr (False, close_sock (s_socket (sys k)) ?cs1)"
    using d k by auto
  then show ?thesis
    using ReadConf_ok [OF n w opt, of cs] by (simp add: Initialize_def ngx_open_listening_sockets_def close_sock_def)
qed

theorem failed_port_keeps_earlier_witness:
  "\<forall>cs. \<exists>cs'. Initialize sample_items (sample_sys(1 := (sample_sys 1)\<lparr>s_bind := False\<rparr>)) cs = Inr (False, cs') \<and>
     map port (m_ListenSocketList cs') = map port (m_ListenSocketList cs) @ [80] \<and> closed_fds cs' = closed_fds cs @ [6]"
proof
  fix cs
  let ?sys = "sample_sys(1 := (sample_sys 1)\<lparr>s_bind := False\<rparr>)"
  have "list_all (\<lambda>j. sys_ok (?sys j) \<and> num_of sample_items (port_name j) = Some ([80, 443] ! j)) [0..<1]"
    using sample_items_num by (simp add: sys_ok_def sample_sys_def)
  moreover have "s_socket (?sys 1) = 6" "\<not> sys_ok (?sys 1)" "absent_or_num sample_items (port_name 1)"
    using sample_items_num by (simp_all add: sample_sys_def sys_ok_def absent_or_num_def)
  ultimately show "\<exists>cs'. Initialize sample_items ?sys cs = Inr (False, cs') \<and>
     map port (m_ListenSocketList cs') = map port (m_ListenSocketList cs) @ [80] \<and> closed_fds cs' = closed_fds cs @ [6]"
    using failed_port_keeps_earlier [of sample_items 2 1024 1 ?sys "[80, 443]" cs] sample_items_num
    by (auto simp: opened_def)
qed

end
