(* ===== verification/NgxLog.thy ===== *)
theory NgxLog
  imports CString
begin

text \<open>
  The log (\<^verbatim>\<open>app/ngx_c_log.cpp\<close>, \<^verbatim>\<open>_include/ngx_c_log.h\<close>): lines appended to a file or written to the standard
  error output. The arguments of a call are given as the texts their stream insertion produces; the formatted
  time, \<^verbatim>\<open>strerror\<close>, the state of the stream and the free space of the disk are arguments.
\<close>

section \<open>State and operations\<close>

datatype LogLevel =
    NGX_LOG_STDERR | NGX_LOG_EMERG | NGX_LOG_ALERT | NGX_LOG_CRIT | NGX_LOG_ERR | NGX_LOG_WARN
  | NGX_LOG_NOTICE | NGX_LOG_INFO | NGX_LOG_DEBUG | NGX_LOG_NUM

fun level_num :: "LogLevel \<Rightarrow> int" where
  "level_num NGX_LOG_STDERR = 0" | "level_num NGX_LOG_EMERG = 1" | "level_num NGX_LOG_ALERT = 2"
| "level_num NGX_LOG_CRIT = 3" | "level_num NGX_LOG_ERR = 4" | "level_num NGX_LOG_WARN = 5"
| "level_num NGX_LOG_NOTICE = 6" | "level_num NGX_LOG_INFO = 7" | "level_num NGX_LOG_DEBUG = 8"
| "level_num NGX_LOG_NUM = 9"

text \<open>The enumeration is ordered by its numbers, as the comparison of levels in C uses it.\<close>

lemma level_num_inject: "level_num a = level_num b \<longleftrightarrow> a = b"
  by (cases a; cases b) simp_all

instantiation LogLevel :: linorder
begin

definition less_eq_LogLevel :: "LogLevel \<Rightarrow> LogLevel \<Rightarrow> bool" where
  "a \<le> b \<longleftrightarrow> level_num a \<le> level_num b"

definition less_LogLevel :: "LogLevel \<Rightarrow> LogLevel \<Rightarrow> bool" where
  "a < b \<longleftrightarrow> level_num a < level_num b"

instance
  by standard (auto simp: less_eq_LogLevel_def less_LogLevel_def simp flip: level_num_inject)

end

definition err_levels :: "string list" where
  "err_levels = [''stderr'', ''emerg'', ''alert'', ''crit'', ''error'', ''warn'', ''notice'', ''info'', ''debug'']"

record Log =
  LogFileName :: string
  Level :: LogLevel
  Ofs :: string
  FileCount :: nat
  cerr :: string

record log_env =
  l_time :: string
  l_strerror :: "int \<Rightarrow> string"
  l_ofs_fail :: bool
  l_disk_full :: bool

text \<open>The constructor: the file is opened for appending, or an exception leaves it.\<close>

definition Log_ctor :: "string option \<Rightarrow> string \<Rightarrow> LogLevel \<Rightarrow> Log res" where
  "Log_ctor file_content FileName level =
     (case file_content of
        None \<Rightarrow> Inl UncaughtException
      | Some old \<Rightarrow> Inr \<lparr>LogFileName = FileName, Level = level, Ofs = old, FileCount = length old, cerr = []\<rparr>)"

definition ngx_setlevel :: "LogLevel \<Rightarrow> Log \<Rightarrow> Log" where
  "ngx_setlevel level lg = lg\<lparr>Level := level\<rparr>"

text \<open>The part of a line that names the error.\<close>

definition err_suffix :: "log_env \<Rightarrow> int \<Rightarrow> string" where
  "err_suffix le err = '' ( '' @ to_string err @ '' :'' @ l_strerror le err @ '' )''"

definition ngx_log_stderr :: "log_env \<Rightarrow> int \<Rightarrow> string list \<Rightarrow> Log \<Rightarrow> Log" where
  "ngx_log_stderr le err args lg =
     lg\<lparr>cerr := cerr lg @
       (if err \<noteq> 0 then l_time le @ '' :'' @ err_levels ! 0 @ '' '' @ concat args @ err_suffix le err @ [LF]
        else l_time le @ '' :'' @ concat args @ [LF])\<rparr>"

text \<open>
  \<^verbatim>\<open>ngx_log_error_core\<close>. A level that is not below the configured one is only reported to the standard error output:
  the line is written in any case. The name of the level is read from the table only for a line with an error.
\<close>

definition ngx_log_error_core :: "log_env \<Rightarrow> int \<Rightarrow> int \<Rightarrow> string list \<Rightarrow> Log \<Rightarrow> Log res" where
  "ngx_log_error_core le level err args lg =
     (let lg = (if level_num (Level lg) \<le> level then lg\<lparr>cerr := cerr lg @ ''Level lower'' @ [LF]\<rparr> else lg) in
      res_bind
        (if err \<noteq> 0 then
           (if 0 \<le> level \<and> nat level < length err_levels
            then Inr (l_time le @ '' :'' @ err_levels ! nat level @ '' '' @ concat args @ err_suffix le err @ [LF])
            else Inl OutOfBounds)
         else Inr (l_time le @ '' :'' @ concat args @ [LF]))
        (\<lambda>line.
          if l_ofs_fail le then
            Inr (if l_disk_full le then lg else lg\<lparr>cerr := cerr lg @ ''write log fail'' @ [LF]\<rparr>)
          else Inr (lg\<lparr>Ofs := Ofs lg @ line\<rparr>)))"

section \<open>Properties\<close>

text \<open>The line a call is to write.\<close>

definition log_line :: "log_env \<Rightarrow> LogLevel \<Rightarrow> int \<Rightarrow> string list \<Rightarrow> string" where
  "log_line le level err args =
     l_time le @ '' :'' @ (if err = 0 then concat args else err_levels ! nat (level_num level) @ '' '' @ concat args @ err_suffix le err) @ [LF]"

text \<open>
  Every message is logged, whatever the configured level. For each of the nine levels the call appends exactly
  one line, the one specified, to what the file held; the level only decides whether a remark goes to the
  standard error output, so raising or lowering it with \<^verbatim>\<open>ngx_setlevel\<close> never suppresses a line.
\<close>

theorem every_level_logged:
  assumes "level \<noteq> NGX_LOG_NUM" "\<not> l_ofs_fail le"
  shows "\<exists>lg'. ngx_log_error_core le (level_num level) err args (ngx_setlevel threshold lg) = Inr lg' \<and>
     Ofs lg' = Ofs lg @ log_line le level err args \<and>
     cerr lg' = cerr lg @ (if threshold \<le> level then ''Level lower'' @ [LF] else [])"
proof -
  have "0 \<le> level_num level" "nat (level_num level) < length err_levels"
    using assms(1) by (cases level; simp add: err_levels_def)+
  then show ?thesis
    using assms(2) by (auto simp: less_eq_LogLevel_def ngx_log_error_core_def ngx_setlevel_def log_line_def Let_def)
qed

theorem every_level_logged_witness:
  "\<forall>lg. \<exists>lg'. ngx_log_error_core \<lparr>l_time = ''T'', l_strerror = (\<lambda>_. ''E''), l_ofs_fail = False, l_disk_full = False\<rparr> 8 2 [''x''] (ngx_setlevel NGX_LOG_EMERG lg) = Inr lg' \<and>
     Ofs lg' = Ofs lg @ ''T :debug x ( 2 :E )'' @ [LF]"
proof
  fix lg
  let ?le = "\<lparr>l_time = ''T'', l_strerror = (\<lambda>_. ''E''), l_ofs_fail = False, l_disk_full = False\<rparr> :: log_env"
  have "to_string 2 = ''2''" by code_simp
  then have "log_line ?le NGX_LOG_DEBUG 2 [''x''] = ''T :debug x ( 2 :E )'' @ [LF]"
    by (simp add: log_line_def err_suffix_def err_levels_def)
  then show "\<exists>lg'. ngx_log_error_core ?le 8 2 [''x''] (ngx_setlevel NGX_LOG_EMERG lg) = Inr lg' \<and>
     Ofs lg' = Ofs lg @ ''T :debug x ( 2 :E )'' @ [LF]"
    using every_level_logged [of NGX_LOG_DEBUG ?le 2 "[''x'']" NGX_LOG_EMERG lg] by auto
qed

end
