(* ===== verification/ThreadPool.thy ===== *)
theory ThreadPool
  imports NgxPrelude
begin

text \<open>
  The thread pool \<^verbatim>\<open>CThread\<close> (\<^verbatim>\<open>misc/ngx_c_threadpool.cpp\<close>, \<^verbatim>\<open>_include/ngx_c_threadpool.h\<close>): a queue of tasks, worker
  threads that wait on the condition variable \<^verbatim>\<open>NotEmpty\<close> under \<^verbatim>\<open>CThreadMutex\<close>, a manager thread that adds and
  retires workers and a thread that removes the retired ones. The threads interleave: a state records how far
  each of them is, and a step relation lets any of them make its next step. The pauses of the manager and the
  recycling thread are not timed; the threads' console output is left out.
\<close>

section \<open>State\<close>

text \<open>
  How far a worker is in \<^verbatim>\<open>WorkThread\<close>:
  \<^item> \<open>W_lock\<close>: about to lock \<^verbatim>\<open>CThreadMutex\<close> at the head of the loop;
  \<^item> \<open>W_check\<close>: owns the mutex, is about to evaluate \<^verbatim>\<open>condition\<close> in \<^verbatim>\<open>wait\<close>;
  \<^item> \<open>W_block\<close>: owns the mutex, has found \<^verbatim>\<open>condition\<close> false and is about to be put to sleep;
  \<^item> \<open>W_sleep\<close>: sleeps in \<^verbatim>\<open>wait\<close>; \<open>W_woken\<close>: has been notified and is about to lock the mutex again;
  \<^item> \<open>W_go\<close>: owns the mutex and has left \<^verbatim>\<open>wait\<close>;
  \<^item> \<open>W_run t\<close>: executes the task \<open>t\<close>; \<open>W_relock\<close>: has executed it and is about to lock the mutex;
  \<^item> \<open>W_exit\<close>: has returned; \<open>W_done\<close>: its future is ready.
\<close>

datatype 't wstate = W_lock | W_check | W_block | W_sleep | W_woken | W_go | W_run 't | W_relock | W_exit | W_done

text \<open>
  How far \<^verbatim>\<open>ManagerThread\<close> is, with its local variables \<^verbatim>\<open>busy\<close>, \<^verbatim>\<open>live\<close> and \<^verbatim>\<open>tasknum\<close>. There is no such thread when
  the pool is of fixed size.
\<close>

datatype mstate = M_none | M_sleep | M_lock | M_read | M_decide int int nat | M_more int | M_less int | M_exit

datatype rstate = R_none | R_sleep | R_lock | R_exit

text \<open>
  The members of \<^verbatim>\<open>CThread\<close>. \<^verbatim>\<open>PackBuf\<close> always has as many elements as \<^verbatim>\<open>ThreadBuf\<close>, element by element the task
  of the thread, and is represented by it; \<open>notified\<close> is the loop variable of the destructor, once it runs.
  \<^verbatim>\<open>TQMutex\<close> protects single accesses to the queue, each of which is part of one step.
\<close>

record 't cthread =
  minNum :: int
  maxNum :: int
  busyNum :: int
  liveNum :: int
  exitNum :: int
  shutdown :: bool
  Manager :: mstate
  Recycle :: rstate
  ThreadBuf :: "'t wstate list"
  TaskBuf :: "'t list"
  CThreadMutex :: bool
  notified :: "int option"

definition OnceCreateNum :: int where "OnceCreateNum = 2"
definition OnceDestroyNum :: int where "OnceDestroyNum = 2"

section \<open>Operations\<close>

text \<open>The constructor; with \<open>Tmin > Tmax\<close> it initialises nothing, which is \<^const>\<open>None\<close>.\<close>

definition CThread :: "int \<Rightarrow> int \<Rightarrow> 't cthread option" where
  "CThread Tmin Tmax =
     (if Tmin \<le> Tmax then
        Some \<lparr>minNum = Tmin, maxNum = Tmax, busyNum = 0, liveNum = Tmin, exitNum = 0, shutdown = False,
              Manager = (if Tmin < Tmax then M_sleep else M_none),
              Recycle = (if Tmin < Tmax then R_sleep else R_none),
              ThreadBuf = replicate (nat Tmin) W_lock, TaskBuf = [], CThreadMutex = False, notified = None\<rparr>
      else None)"

definition GetTaskNum :: "'t cthread \<Rightarrow> nat" where
  "GetTaskNum s = length (TaskBuf s)"

definition GetTask :: "'t cthread \<Rightarrow> ('t \<times> 't cthread) option" where
  "GetTask s = (case TaskBuf s of [] \<Rightarrow> None | t # ts \<Rightarrow> Some (t, s\<lparr>TaskBuf := ts\<rparr>))"

definition condition :: "'t cthread \<Rightarrow> bool" where
  "condition s \<longleftrightarrow> 0 < GetTaskNum s \<or> shutdown s \<or> 0 < exitNum s"

text \<open>
  \<^verbatim>\<open>NotEmpty.notify_one()\<close> with the choice of the system: a sleeping worker \<open>i\<close> is woken; without a sleeping
  worker nothing happens.
\<close>

inductive notify_one :: "'t cthread \<Rightarrow> 't cthread \<Rightarrow> bool" where
  wake: "i < length (ThreadBuf s) \<Longrightarrow> ThreadBuf s ! i = W_sleep \<Longrightarrow>
    notify_one s (s\<lparr>ThreadBuf := (ThreadBuf s)[i := W_woken]\<rparr>)"
| nobody: "W_sleep \<notin> set (ThreadBuf s) \<Longrightarrow> notify_one s s"

inductive notify_times :: "nat \<Rightarrow> 't cthread \<Rightarrow> 't cthread \<Rightarrow> bool" where
  zero: "notify_times 0 s s"
| more: "notify_one s s' \<Longrightarrow> notify_times n s' s'' \<Longrightarrow> notify_times (Suc n) s s''"

text \<open>The next step of a worker in \<^verbatim>\<open>WorkThread\<close>; \<^const>\<open>None\<close> when it has to wait or has ended.\<close>

fun work_step :: "'t wstate \<Rightarrow> 't cthread \<Rightarrow> ('t wstate \<times> 't cthread) option" where
  "work_step W_lock s = (if CThreadMutex s then None else Some (W_check, s\<lparr>CThreadMutex := True\<rparr>))"
| "work_step W_check s = Some (if condition s then W_go else W_block, s)"
| "work_step W_block s = Some (W_sleep, s\<lparr>CThreadMutex := False\<rparr>)"
| "work_step W_sleep s = None"
| "work_step W_woken s = (if CThreadMutex s then None else Some (W_check, s\<lparr>CThreadMutex := True\<rparr>))"
| "work_step W_go s =
     (if shutdown s then Some (W_exit, s\<lparr>CThreadMutex := False\<rparr>)
      else if 0 < exitNum s then
        Some (W_exit, s\<lparr>exitNum := exitNum s - 1, liveNum := liveNum s - 1, CThreadMutex := False\<rparr>)
      else case GetTask s of
          None \<Rightarrow> Some (W_lock, s\<lparr>CThreadMutex := False\<rparr>)
        | Some (t, s) \<Rightarrow> Some (W_run t, s\<lparr>busyNum := busyNum s + 1, CThreadMutex := False\<rparr>))"
| "work_step (W_run t) s = Some (W_relock, s)"
| "work_step W_relock s = (if CThreadMutex s then None else Some (W_lock, s\<lparr>busyNum := busyNum s - 1\<rparr>))"
| "work_step W_exit s = Some (W_done, s)"
| "work_step W_done s = None"

definition create_threads :: "int \<Rightarrow> 't cthread \<Rightarrow> 't cthread" where
  "create_threads k s =
     s\<lparr>ThreadBuf := ThreadBuf s @ replicate (nat k) W_lock, liveNum := liveNum s + int (nat k)\<rparr>"

text \<open>
  The steps of \<^verbatim>\<open>ManagerThread\<close>. The mutex is held from \<open>M_read\<close> to the reading of the counters, and again
  during the whole of the creating or retiring, which is one step.
\<close>

inductive manage_step :: "'t cthread \<Rightarrow> 't cthread \<Rightarrow> bool" where
  m_sleep: "Manager s = M_sleep \<Longrightarrow> manage_step s (s\<lparr>Manager := if shutdown s then M_exit else M_lock\<rparr>)"
| m_lock: "Manager s = M_lock \<Longrightarrow> \<not> CThreadMutex s \<Longrightarrow> manage_step s (s\<lparr>Manager := M_read, CThreadMutex := True\<rparr>)"
| m_read: "Manager s = M_read \<Longrightarrow>
    manage_step s (s\<lparr>Manager := M_decide (busyNum s) (liveNum s) (GetTaskNum s), CThreadMutex := False\<rparr>)"
| m_decide: "Manager s = M_decide busy live tasknum \<Longrightarrow>
    manage_step s (s\<lparr>Manager :=
      (if live < maxNum s \<and> tasknum \<noteq> 0 then M_more live
       else if minNum s < live \<and> busy * 2 < live then M_less live else M_sleep)\<rparr>)"
| m_more: "Manager s = M_more live \<Longrightarrow> \<not> CThreadMutex s \<Longrightarrow>
    manage_step s (create_threads
      (if live + OnceCreateNum \<le> maxNum s then OnceCreateNum else maxNum s - live) (s\<lparr>Manager := M_sleep\<rparr>))"
| m_less: "Manager s = M_less live \<Longrightarrow> \<not> CThreadMutex s \<Longrightarrow>
    k = (if minNum s \<le> live - OnceDestroyNum then OnceDestroyNum else live - minNum s) \<Longrightarrow>
    notify_times (nat k) (s\<lparr>exitNum := k, Manager := M_sleep\<rparr>) s' \<Longrightarrow> manage_step s s'"

text \<open>The steps of \<^verbatim>\<open>RecycleThread\<close>: with the mutex held, the threads whose future is ready are joined and removed.\<close>

inductive recycle_step :: "'t cthread \<Rightarrow> 't cthread \<Rightarrow> bool" where
  r_sleep: "Recycle s = R_sleep \<Longrightarrow> recycle_step s (s\<lparr>Recycle := if shutdown s then R_exit else R_lock\<rparr>)"
| r_lock: "Recycle s = R_lock \<Longrightarrow> \<not> CThreadMutex s \<Longrightarrow>
    recycle_step s (s\<lparr>Recycle := R_sleep, ThreadBuf := filter (\<lambda>w. w \<noteq> W_done) (ThreadBuf s)\<rparr>)"

text \<open>
  The steps of the whole pool, labelled: a worker's step says which task it starts; \<open>E_spurious\<close> is a
  wake-up without a notification, which \<^verbatim>\<open>wait\<close> allows for; \<open>E_shutdown\<close> and \<open>E_dnotify\<close> are the
  destructor up to the point where it waits for the threads.
\<close>

datatype 't event = E_work nat "'t option" | E_add 't | E_manage | E_recycle | E_spurious nat | E_shutdown | E_dnotify

fun running :: "'t wstate \<Rightarrow> 't option" where
  "running (W_run t) = Some t"
| "running _ = None"

inductive AddTask :: "'t \<Rightarrow> 't cthread \<Rightarrow> 't cthread \<Rightarrow> bool" where
  add: "notify_one (s\<lparr>TaskBuf := TaskBuf s @ [t]\<rparr>) s' \<Longrightarrow> AddTask t s s'"

inductive step :: "'t event \<Rightarrow> 't cthread \<Rightarrow> 't cthread \<Rightarrow> bool" where
  work: "i < length (ThreadBuf s) \<Longrightarrow> work_step (ThreadBuf s ! i) s = Some (w, s') \<Longrightarrow>
    step (E_work i (running w)) s (s'\<lparr>ThreadBuf := (ThreadBuf s)[i := w]\<rparr>)"
| add: "AddTask t s s' \<Longrightarrow> step (E_add t) s s'"
| manage: "manage_step s s' \<Longrightarrow> step E_manage s s'"
| recycle: "recycle_step s s' \<Longrightarrow> step E_recycle s s'"
| spurious: "i < length (ThreadBuf s) \<Longrightarrow> ThreadBuf s ! i = W_sleep \<Longrightarrow>
    step (E_spurious i) s (s\<lparr>ThreadBuf := (ThreadBuf s)[i := W_woken]\<rparr>)"
| shut: "notified s = None \<Longrightarrow> step E_shutdown s (s\<lparr>shutdown := True, notified := Some 0\<rparr>)"
| dnotify: "notified s = Some i \<Longrightarrow> i < liveNum s \<Longrightarrow> notify_one (s\<lparr>notified := Some (i + 1)\<rparr>) s' \<Longrightarrow>
    step E_dnotify s s'"

text \<open>
  The rest of the destructor: once all notifications are sent it waits for the future and the end of every worker and, if
  there are such, of the two other threads; \<^const>\<open>None\<close> while it waits.
\<close>

definition CThread_dtor :: "'t cthread \<Rightarrow> 't cthread option" where
  "CThread_dtor s =
     (case notified s of
        None \<Rightarrow> None
      | Some i \<Rightarrow>
          if i < liveNum s \<or> \<not> list_all (\<lambda>w. case w of W_done \<Rightarrow> True | _ \<Rightarrow> False) (ThreadBuf s) then None
          else if minNum s < maxNum s \<and> (Manager s \<noteq> M_exit \<or> Recycle s \<noteq> R_exit) then None
          else Some (s\<lparr>ThreadBuf := []\<rparr>))"

inductive_cases notify_oneE: "notify_one s s'"
inductive_cases manage_stepE: "manage_step s s'"
inductive_cases recycle_stepE: "recycle_step s s'"
inductive_cases AddTaskE: "AddTask t s s'"
inductive_cases stepE: "step e s s'"

section \<open>Runs\<close>

text \<open>Sequences of labelled steps, for any step relation, and invariants along them.\<close>

inductive run :: "('e \<Rightarrow> 's \<Rightarrow> 's \<Rightarrow> bool) \<Rightarrow> 's \<Rightarrow> 'e list \<Rightarrow> 's \<Rightarrow> bool" for st where
  nil: "run st s [] s"
| cons: "st e s s' \<Longrightarrow> run st s' es s'' \<Longrightarrow> run st s (e # es) s''"

inductive_simps run_nil_iff [simp]: "run st s [] s'"
inductive_simps run_cons_iff: "run st s (e # es) s'"

lemma run_append: "run st s es s' \<Longrightarrow> run st s' es' s'' \<Longrightarrow> run st s (es @ es') s''"
  by (induction rule: run.induct) (auto intro: run.intros)

text \<open>
  A system whose steps keep an invariant and conserve a ledger: \<open>out e\<close> is what a step hands out, \<open>in_of e\<close> what
  it takes in, \<open>held s\<close> what the system holds, in order.
\<close>

locale fifo_system =
  fixes stp :: "'e \<Rightarrow> 's \<Rightarrow> 's \<Rightarrow> bool"
    and inv :: "'s \<Rightarrow> bool"
    and held :: "'s \<Rightarrow> 't list"
    and in_of :: "'e \<Rightarrow> 't list"
    and out_of :: "'e \<Rightarrow> 't list"
  assumes keeps: "inv s \<Longrightarrow> stp e s s' \<Longrightarrow> inv s'"
    and ledger: "inv s \<Longrightarrow> stp e s s' \<Longrightarrow> out_of e @ held s' = held s @ in_of e"
begin

lemma run_keeps: "run stp s es s' \<Longrightarrow> inv s \<Longrightarrow> inv s'"
  by (induction rule: run.induct) (auto dest: keeps)

lemma run_fifo: "run stp s es s' \<Longrightarrow> inv s \<Longrightarrow> concat (map out_of es) @ held s' = held s @ concat (map in_of es)"
proof (induction rule: run.induct)
  case (cons e s s' es s'')
  then have "out_of e @ (concat (map out_of es) @ held s'') = (out_of e @ held s') @ concat (map in_of es)"
    using keeps by simp
  also have "out_of e @ held s' = held s @ in_of e" using cons ledger by blast
  finally show ?case by simp
qed simp

end

section \<open>The invariant\<close>

fun owns :: "'t wstate \<Rightarrow> bool" where
  "owns W_check = True" | "owns W_block = True" | "owns W_go = True" | "owns _ = False"

fun busy :: "'t wstate \<Rightarrow> bool" where
  "busy (W_run t) = True" | "busy W_relock = True" | "busy _ = False"

fun live :: "'t wstate \<Rightarrow> bool" where
  "live W_exit = False" | "live W_done = False" | "live _ = True"

definition count :: "('t wstate \<Rightarrow> bool) \<Rightarrow> 't cthread \<Rightarrow> int" where
  "count P s = int (length (filter P (ThreadBuf s)))"

text \<open>The manager's copy of \<^verbatim>\<open>liveNum\<close> is never too small while it decides by it.\<close>

fun manager_ok :: "mstate \<Rightarrow> 't cthread \<Rightarrow> bool" where
  "manager_ok (M_decide b l n) s = (liveNum s \<le> l)"
| "manager_ok (M_more l) s = (liveNum s \<le> l \<and> l < maxNum s)"
| "manager_ok (M_less l) s = (minNum s < l)"
| "manager_ok _ s = True"

definition pool_inv :: "'t cthread \<Rightarrow> bool" where
  "pool_inv s \<longleftrightarrow>
     count owns s + of_bool (Manager s = M_read) = of_bool (CThreadMutex s) \<and>
     busyNum s = count busy s \<and>
     count live s \<le> liveNum s \<and> (shutdown s \<or> liveNum s = count live s) \<and>
     liveNum s \<le> maxNum s \<and> 0 \<le> exitNum s \<and> manager_ok (Manager s) s \<and>
     (W_go \<in> set (ThreadBuf s) \<longrightarrow> condition s)"

lemma count_set:
  "i < length (ThreadBuf s) \<Longrightarrow>
   count P (s\<lparr>ThreadBuf := (ThreadBuf s)[i := w]\<rparr>) = count P s - of_bool (P (ThreadBuf s ! i)) + of_bool (P w)"
proof -
  assume i: "i < length (ThreadBuf s)"
  from length_filter_update [OF this, of P w] have
    "int (length (filter P ((ThreadBuf s)[i := w])) + of_bool (P (ThreadBuf s ! i))) =
     int (length (filter P (ThreadBuf s)) + of_bool (P w))" by (rule arg_cong)
  then show ?thesis by (simp add: count_def)
qed

lemma count_other [simp]:
  "count P (s\<lparr>TaskBuf := x\<rparr>) = count P s" "count P (s\<lparr>CThreadMutex := b\<rparr>) = count P s"
  "count P (s\<lparr>busyNum := n\<rparr>) = count P s" "count P (s\<lparr>liveNum := n\<rparr>) = count P s" "count P (s\<lparr>exitNum := n\<rparr>) = count P s"
  "count P (s\<lparr>Manager := m\<rparr>) = count P s" "count P (s\<lparr>Recycle := r\<rparr>) = count P s"
  "count P (s\<lparr>shutdown := b\<rparr>) = count P s" "count P (s\<lparr>notified := k\<rparr>) = count P s"
  by (simp_all add: count_def)

lemma count_pos: "w \<in> set (ThreadBuf s) \<Longrightarrow> P w \<Longrightarrow> 0 < count P s"
  by (auto simp: count_def filter_empty_conv)

lemma count_nonneg [simp]: "0 \<le> count P s"
  by (simp add: count_def)

text \<open>A worker that leaves \<open>W_go\<close> was the only one in it.\<close>

lemma single_owner:
  assumes "pool_inv s" "i < length (ThreadBuf s)" "owns (ThreadBuf s ! i)" "\<not> owns w"
  shows "W_go \<notin> set ((ThreadBuf s)[i := w])"
proof
  assume "W_go \<in> set ((ThreadBuf s)[i := w])"
  then have "0 < count owns (s\<lparr>ThreadBuf := (ThreadBuf s)[i := w]\<rparr>)" by (intro count_pos [of W_go]) simp_all
  then show False using assms by (simp add: count_set pool_inv_def of_bool_def split: if_splits)
qed

lemma unlocked_no_go: "pool_inv s \<Longrightarrow> \<not> CThreadMutex s \<Longrightarrow> W_go \<notin> set (ThreadBuf s)"
  using count_pos [of W_go s owns] count_nonneg [of owns s] by (auto simp: pool_inv_def of_bool_def split: if_splits)

section \<open>Every step keeps the invariant\<close>

lemma pool_inv_relabel:
  assumes "pool_inv s" "i < length (ThreadBuf s)" "ThreadBuf s ! i = W_sleep"
  shows "pool_inv (s\<lparr>ThreadBuf := (ThreadBuf s)[i := W_woken]\<rparr>)"
proof -
  have "W_go \<in> set ((ThreadBuf s)[i := W_woken]) \<Longrightarrow> W_go \<in> set (ThreadBuf s)"
    using set_update_subset_insert by fastforce
  moreover have "manager_ok (Manager s) (s\<lparr>ThreadBuf := x\<rparr>) = manager_ok (Manager s) s" for x
    by (cases "Manager s") simp_all
  ultimately show ?thesis
    using assms by (auto simp: pool_inv_def count_set condition_def GetTaskNum_def)
qed

lemma notify_one_keeps: "notify_one s s' \<Longrightarrow> pool_inv s \<Longrightarrow> pool_inv s'"
  by (auto elim!: notify_oneE intro: pool_inv_relabel)

lemma notify_times_keeps: "notify_times n s s' \<Longrightarrow> pool_inv s \<Longrightarrow> pool_inv s'"
  by (induction rule: notify_times.induct) (auto dest: notify_one_keeps)

lemma notify_one_TaskBuf: "notify_one s s' \<Longrightarrow> TaskBuf s' = TaskBuf s"
  by (auto elim: notify_oneE)

lemma notify_times_TaskBuf: "notify_times n s s' \<Longrightarrow> TaskBuf s' = TaskBuf s"
  by (induction rule: notify_times.induct) (auto dest: notify_one_TaskBuf)

lemma work_step_ThreadBuf: "work_step w s = Some (w', s') \<Longrightarrow> ThreadBuf s' = ThreadBuf s"
  by (cases w) (auto simp: GetTask_def split: if_splits list.splits)

lemma manager_ok_mono:
  "manager_ok (Manager s) s \<Longrightarrow> liveNum s' \<le> liveNum s \<Longrightarrow> maxNum s' = maxNum s \<Longrightarrow> minNum s' = minNum s \<Longrightarrow>
   Manager s' = Manager s \<Longrightarrow> manager_ok (Manager s') s'"
  by (cases "Manager s") auto

text \<open>Leaving \<open>W_go\<close> is possible only with a reason to leave \<^verbatim>\<open>wait\<close>, so the branch of a failed \<^verbatim>\<open>GetTask\<close> is dead.\<close>

lemma go_not_empty:
  "pool_inv s \<Longrightarrow> W_go \<in> set (ThreadBuf s) \<Longrightarrow> \<not> shutdown s \<Longrightarrow> \<not> 0 < exitNum s \<Longrightarrow> TaskBuf s \<noteq> []"
  by (auto simp: pool_inv_def condition_def GetTaskNum_def)

lemma work_keeps:
  assumes inv: "pool_inv s" and i: "i < length (ThreadBuf s)" and st: "work_step (ThreadBuf s ! i) s = Some (w, s')"
  shows "pool_inv (s'\<lparr>ThreadBuf := (ThreadBuf s)[i := w]\<rparr>)"
proof -
  let ?w = "ThreadBuf s ! i" and ?s = "s'\<lparr>ThreadBuf := (ThreadBuf s)[i := w]\<rparr>"
  have mem: "?w \<in> set (ThreadBuf s)" using i by simp
  have tb: "ThreadBuf s' = ThreadBuf s" using st by (rule work_step_ThreadBuf)
  have cnt: "count P ?s = count P s - of_bool (P ?w) + of_bool (P w)" for P
    using count_set [of i s' P w] i tb by (simp add: count_def)
  have io: "owns ?w \<Longrightarrow> 0 < count owns s" using count_pos [OF mem] .
  have go: "W_go \<in> set ((ThreadBuf s)[i := w]) \<Longrightarrow> w \<noteq> W_go \<Longrightarrow> W_go \<in> set (ThreadBuf s)"
    using set_update_subset_insert by fastforce
  note d = inv [unfolded pool_inv_def]
  have mk: "manager_ok (Manager ?s) ?s" if "liveNum s' \<le> liveNum s" "maxNum s' = maxNum s" "minNum s' = minNum s" "Manager s' = Manager s"
    by (rule manager_ok_mono [of s]) (use that d in simp_all)
  have so: "\<not> owns w \<Longrightarrow> owns ?w \<Longrightarrow> W_go \<notin> set ((ThreadBuf s)[i := w])"
    using single_owner [OF inv i] by blast
  show ?thesis
  proof (cases ?w)
    case W_go
    then have ex: "shutdown s \<or> 0 < exitNum s \<or> TaskBuf s \<noteq> []" using go_not_empty [OF inv] mem by auto
    have lp: "0 < count live s" using count_pos [OF mem, of live] W_go by simp
    show ?thesis
      using st W_go cnt [of owns] cnt [of busy] cnt [of live] io so mk d ex lp
      by (auto simp: pool_inv_def GetTask_def of_bool_def split: if_splits list.splits)
  qed (use st cnt [of owns] cnt [of busy] cnt [of live] io go so mk d unlocked_no_go [OF inv] in
      \<open>auto simp: pool_inv_def condition_def GetTaskNum_def of_bool_def split: if_splits\<close>)
qed

lemma count_create:
  "count P (create_threads k s) = count P s + (if P W_lock then int (nat k) else 0)"
  by (simp add: count_def create_threads_def)

lemma create_keeps:
  assumes "pool_inv s" "Manager s = M_sleep" "W_go \<notin> set (ThreadBuf s)" "liveNum s + int (nat k) \<le> maxNum s"
  shows "pool_inv (create_threads k s)"
proof -
  have "liveNum (create_threads k s) = liveNum s + int (nat k)" "CThreadMutex (create_threads k s) = CThreadMutex s"
    "Manager (create_threads k s) = M_sleep" "busyNum (create_threads k s) = busyNum s" "exitNum (create_threads k s) = exitNum s"
    "maxNum (create_threads k s) = maxNum s" "shutdown (create_threads k s) = shutdown s"
    "W_go \<notin> set (ThreadBuf (create_threads k s))"
    using assms(2,3) by (auto simp: create_threads_def)
  then show ?thesis using assms by (simp add: pool_inv_def count_create)
qed

lemma manage_keeps: "pool_inv s \<Longrightarrow> manage_step s s' \<Longrightarrow> pool_inv s'"
proof (erule manage_stepE, goal_cases)
  case 3
  then have "count owns s + 1 = of_bool (CThreadMutex s)" by (simp add: pool_inv_def)
  then have "count owns s = 0" using count_nonneg [of owns s] by (simp only: of_bool_def split: if_splits)
  with 3 show ?case by (auto simp: pool_inv_def condition_def GetTaskNum_def)
next
  case (5 live)
  let ?k = "if live + OnceCreateNum \<le> maxNum s then OnceCreateNum else maxNum s - live"
  have go: "W_go \<notin> set (ThreadBuf s)" using 5 unlocked_no_go by blast
  have "liveNum s + int (nat ?k) \<le> maxNum s"
    using 5 by (auto simp: pool_inv_def OnceCreateNum_def)
  moreover have "pool_inv (s\<lparr>Manager := M_sleep\<rparr>)" using 5 go by (simp add: pool_inv_def)
  ultimately show ?case using 5 go by (simp add: create_keeps)
next
  case (6 live)
  let ?k = "if minNum s \<le> live - OnceDestroyNum then OnceDestroyNum else live - minNum s"
  have "W_go \<notin> set (ThreadBuf s)" using 6 unlocked_no_go by blast
  then have "pool_inv (s\<lparr>exitNum := ?k, Manager := M_sleep\<rparr>)"
    using 6 by (auto simp: pool_inv_def OnceDestroyNum_def)
  then show ?case using 6 notify_times_keeps by blast
qed (auto simp: pool_inv_def condition_def GetTaskNum_def)

lemma recycle_keeps: "pool_inv s \<Longrightarrow> recycle_step s s' \<Longrightarrow> pool_inv s'"
proof (erule recycle_stepE, goal_cases)
  case 1
  then show ?case by (cases "Manager s") (auto simp: pool_inv_def condition_def GetTaskNum_def)
next
  case 2
  have "count P (s\<lparr>Recycle := R_sleep, ThreadBuf := filter (\<lambda>w. w \<noteq> W_done) (ThreadBuf s)\<rparr>) = count P s"
    if "\<not> P W_done" for P
  proof -
    have "(\<lambda>w. w \<noteq> W_done \<and> P w) = P" using that by auto
    then show ?thesis by (simp add: count_def)
  qed
  from this [of owns] this [of busy] this [of live] 2 show ?case
    by (cases "Manager s") (auto simp: pool_inv_def condition_def GetTaskNum_def)
qed

lemma pool_inv_push: "pool_inv s \<Longrightarrow> pool_inv (s\<lparr>TaskBuf := TaskBuf s @ [t]\<rparr>)"
  by (cases "Manager s") (auto simp: pool_inv_def condition_def GetTaskNum_def)

lemma pool_inv_dtor: "pool_inv s \<Longrightarrow> pool_inv (s\<lparr>notified := n\<rparr>)" "pool_inv s \<Longrightarrow> pool_inv (s\<lparr>shutdown := True, notified := n\<rparr>)"
  by (cases "Manager s"; auto simp: pool_inv_def condition_def GetTaskNum_def)+

lemma step_keeps: "pool_inv s \<Longrightarrow> step e s s' \<Longrightarrow> pool_inv s'"
  by (erule stepE)
    (auto elim!: AddTaskE intro: work_keeps manage_keeps recycle_keeps pool_inv_relabel pool_inv_dtor
      notify_one_keeps pool_inv_push)

lemma CThread_inv: "CThread Tmin Tmax = Some s \<Longrightarrow> 0 \<le> Tmin \<Longrightarrow> pool_inv s"
  by (auto simp: CThread_def pool_inv_def count_def split: if_splits)

section \<open>The queue\<close>

fun started :: "'t event \<Rightarrow> 't list" where
  "started (E_work i (Some t)) = [t]"
| "started _ = []"

fun added :: "'t event \<Rightarrow> 't list" where
  "added (E_add t) = [t]"
| "added _ = []"

lemma work_step_ledger:
  "work_step w s = Some (w', s') \<Longrightarrow> started (E_work i (running w')) @ TaskBuf s' = TaskBuf s"
  by (cases w) (auto simp: GetTask_def split: if_splits list.splits)

lemma step_ledger: "step e s s' \<Longrightarrow> started e @ TaskBuf s' = TaskBuf s @ added e"
proof (erule stepE, goal_cases)
  case (1 i w s1)
  then show ?case using work_step_ledger [of "ThreadBuf s ! i" s w s1 i] by simp
qed (auto elim!: AddTaskE manage_stepE recycle_stepE simp: create_threads_def
    dest: notify_one_TaskBuf notify_times_TaskBuf)

interpretation pool: fifo_system step pool_inv TaskBuf added started
  by unfold_locales (auto intro: step_keeps step_ledger)

text \<open>The pool in a run from its constructor.\<close>

definition reachable :: "int \<Rightarrow> int \<Rightarrow> 't event list \<Rightarrow> 't cthread \<Rightarrow> bool" where
  "reachable Tmin Tmax es s \<longleftrightarrow> (\<exists>s0. CThread Tmin Tmax = Some s0 \<and> run step s0 es s)"

lemma reachable_inv: "reachable Tmin Tmax es s \<Longrightarrow> 0 \<le> Tmin \<Longrightarrow> pool_inv s"
  by (auto simp: reachable_def dest: CThread_inv pool.run_keeps)

lemma reachable_append: "reachable Tmin Tmax es s \<Longrightarrow> run step s es' s' \<Longrightarrow> reachable Tmin Tmax (es @ es') s'"
  by (auto simp: reachable_def intro: run_append)

section \<open>Running the pool\<close>

text \<open>
  The step relation as a function, for concrete runs: the commands fix the choices, a notification wakes the
  first sleeping worker.
\<close>

datatype 't cmd = C_work nat | C_add 't | C_manage | C_recycle | C_shutdown | C_dnotify

fun wake_first :: "'t wstate list \<Rightarrow> 't wstate list" where
  "wake_first [] = []"
| "wake_first (W_sleep # ws) = W_woken # ws"
| "wake_first (w # ws) = w # wake_first ws"

definition notify_first :: "'t cthread \<Rightarrow> 't cthread" where
  "notify_first s = s\<lparr>ThreadBuf := wake_first (ThreadBuf s)\<rparr>"

definition manage :: "'t cthread \<Rightarrow> 't cthread option" where
  "manage s =
     (case Manager s of
        M_sleep \<Rightarrow> Some (s\<lparr>Manager := if shutdown s then M_exit else M_lock\<rparr>)
      | M_lock \<Rightarrow> if CThreadMutex s then None else Some (s\<lparr>Manager := M_read, CThreadMutex := True\<rparr>)
      | M_read \<Rightarrow> Some (s\<lparr>Manager := M_decide (busyNum s) (liveNum s) (GetTaskNum s), CThreadMutex := False\<rparr>)
      | M_decide b l n \<Rightarrow>
          Some (s\<lparr>Manager := (if l < maxNum s \<and> n \<noteq> 0 then M_more l
            else if minNum s < l \<and> b * 2 < l then M_less l else M_sleep)\<rparr>)
      | M_more l \<Rightarrow>
          if CThreadMutex s then None
          else Some (create_threads (if l + OnceCreateNum \<le> maxNum s then OnceCreateNum else maxNum s - l) (s\<lparr>Manager := M_sleep\<rparr>))
      | M_less l \<Rightarrow>
          if CThreadMutex s then None
          else let k = (if minNum s \<le> l - OnceDestroyNum then OnceDestroyNum else l - minNum s) in
            Some ((notify_first ^^ nat k) (s\<lparr>exitNum := k, Manager := M_sleep\<rparr>))
      | _ \<Rightarrow> None)"

fun exec :: "'t cmd \<Rightarrow> 't cthread \<Rightarrow> ('t event \<times> 't cthread) option" where
  "exec (C_work i) s =
     (if i < length (ThreadBuf s) then
        map_option (\<lambda>(w, s'). (E_work i (running w), s'\<lparr>ThreadBuf := (ThreadBuf s)[i := w]\<rparr>)) (work_step (ThreadBuf s ! i) s)
      else None)"
| "exec (C_add t) s = Some (E_add t, notify_first (s\<lparr>TaskBuf := TaskBuf s @ [t]\<rparr>))"
| "exec C_manage s = map_option (\<lambda>s'. (E_manage, s')) (manage s)"
| "exec C_recycle s =
     (case Recycle s of
        R_sleep \<Rightarrow> Some (E_recycle, s\<lparr>Recycle := if shutdown s then R_exit else R_lock\<rparr>)
      | R_lock \<Rightarrow> if CThreadMutex s then None
          else Some (E_recycle, s\<lparr>Recycle := R_sleep, ThreadBuf := filter (\<lambda>w. w \<noteq> W_done) (ThreadBuf s)\<rparr>)
      | _ \<Rightarrow> None)"
| "exec C_shutdown s = (if notified s = None then Some (E_shutdown, s\<lparr>shutdown := True, notified := Some 0\<rparr>) else None)"
| "exec C_dnotify s =
     (case notified s of None \<Rightarrow> None
      | Some i \<Rightarrow> if i < liveNum s then Some (E_dnotify, notify_first (s\<lparr>notified := Some (i + 1)\<rparr>)) else None)"

fun execs :: "'t cmd list \<Rightarrow> 't cthread \<Rightarrow> ('t event list \<times> 't cthread) option" where
  "execs [] s = Some ([], s)"
| "execs (c # cs) s =
     (case exec c s of None \<Rightarrow> None
      | Some (e, s') \<Rightarrow> map_option (\<lambda>(es, s''). (e # es, s'')) (execs cs s'))"

lemma wake_first_cases:
  "(W_sleep \<notin> set ws \<and> wake_first ws = ws) \<or>
   (\<exists>i < length ws. ws ! i = W_sleep \<and> wake_first ws = ws[i := W_woken])"
proof (induction ws rule: wake_first.induct)
  case (2 ws)
  then show ?case by (intro disjI2 exI [of _ 0]) simp
qed (force intro: exI [of _ "Suc _"])+

lemma wake_first_none: "W_sleep \<notin> set ws \<Longrightarrow> wake_first ws = ws"
  using wake_first_cases [of ws] by (auto dest: nth_mem)

lemma notify_first_ok: "notify_one s (notify_first s)"
  using wake_first_cases [of "ThreadBuf s"]
  by (auto simp: notify_first_def notify_one.simps)

lemma notify_first_times: "notify_times n s ((notify_first ^^ n) s)"
  by (induction n arbitrary: s) (auto simp: funpow_swap1 intro: notify_times.intros notify_first_ok)

lemma manage_ok: "manage s = Some s' \<Longrightarrow> manage_step s s'"
  by (cases "Manager s")
    (auto simp: manage_def manage_step.simps Let_def split: if_splits intro: notify_first_times)

lemma exec_ok: "exec c s = Some (e, s') \<Longrightarrow> step e s s'"
proof (cases c)
  case C_recycle
  then show "exec c s = Some (e, s') \<Longrightarrow> ?thesis"
    by (cases "Recycle s") (auto simp: recycle_step.simps split: if_splits intro!: step.recycle)
qed (auto split: if_splits option.splits intro: step.intros AddTask.intros notify_first_ok manage_ok)

lemma execs_ok: "execs cs s = Some (es, s') \<Longrightarrow> run step s es s'"
  by (induction cs arbitrary: s es) (auto split: option.splits intro!: run.intros exec_ok)

text \<open>What holds after a concrete run from the constructor is reached.\<close>

definition holds_after :: "int \<Rightarrow> int \<Rightarrow> 't cmd list \<Rightarrow> ('t event list \<Rightarrow> 't cthread \<Rightarrow> bool) \<Rightarrow> bool" where
  "holds_after Tmin Tmax cs P =
     (case CThread Tmin Tmax of None \<Rightarrow> False
      | Some s \<Rightarrow> (case execs cs s of None \<Rightarrow> False | Some (es, s') \<Rightarrow> P es s'))"

lemma holds_after_reachable: "holds_after Tmin Tmax cs P \<Longrightarrow> \<exists>es s. reachable Tmin Tmax es s \<and> P es s"
  by (auto simp: holds_after_def reachable_def dest!: execs_ok split: option.splits prod.splits)

lemma work_step_frees:
  "\<exists>w s'. work_step W_go s = Some (w, s') \<and> \<not> CThreadMutex s'"
  by (auto simp: GetTask_def split: list.split)

section \<open>Properties\<close>

text \<open>
  C3. Tasks are started in the order of their arrival, each exactly once. In every run of a pool from its
  constructor, under any interleaving of the workers, the manager, the recycling thread, callers of
  \<^verbatim>\<open>AddTask\<close>, spurious wake-ups and the destructor, the tasks started so far followed by the tasks still
  queued are exactly the tasks added, in order.
\<close>

theorem tasks_started_in_order:
  assumes "reachable Tmin Tmax es s" "0 \<le> Tmin"
  shows "concat (map started es) @ TaskBuf s = concat (map added es)"
proof -
  obtain s0 where "CThread Tmin Tmax = Some s0" "run step s0 es s" "TaskBuf s0 = []"
    using assms(1) by (auto simp: reachable_def CThread_def split: if_splits)
  then show ?thesis using pool.run_fifo CThread_inv [OF _ assms(2)] by fastforce
qed

theorem tasks_started_in_order_witness:
  "\<exists>es s. reachable 2 2 es s \<and> concat (map added es) = [7, 8, 9 :: nat] \<and> concat (map started es) = [7, 8] \<and> TaskBuf s = [9]"
proof -
  let ?P = "\<lambda>es (s :: nat cthread). concat (map added es) = [7, 8, 9] \<and> TaskBuf s = [9]"
  have "holds_after 2 2 [C_add 7, C_work 0, C_add 8, C_work 0, C_work 0, C_work 1, C_work 1, C_add 9, C_work 1] ?P"
    by code_simp
  then obtain es s where r: "reachable 2 2 es s" "?P es s" using holds_after_reachable [of 2 2 _ ?P] by blast
  show ?thesis using tasks_started_in_order [OF r(1)] r by fastforce
qed

text \<open>
  C12. The counters are right and the mutex excludes. In every reachable state of a pool \<^verbatim>\<open>busyNum\<close> is the
  number of workers executing a task (or about to report its end), \<^verbatim>\<open>liveNum\<close> the number of workers that have
  not returned (as long as the pool is not being destroyed), it never exceeds \<^verbatim>\<open>maxNum\<close>, \<^verbatim>\<open>exitNum\<close> is never
  negative, and at most one thread, worker or manager, owns \<^verbatim>\<open>CThreadMutex\<close>.
\<close>

theorem pool_counters_exact:
  assumes "reachable Tmin Tmax es s" "0 \<le> Tmin"
  shows "busyNum s = count busy s \<and> (shutdown s \<or> liveNum s = count live s) \<and> liveNum s \<le> maxNum s \<and>
    0 \<le> exitNum s \<and> count owns s + of_bool (Manager s = M_read) \<le> 1"
  using reachable_inv [OF assms] by (auto simp: pool_inv_def of_bool_def split: if_splits)

theorem pool_counters_exact_witness:
  "\<exists>es (s :: nat cthread). reachable 2 4 es s \<and> busyNum s = 1 \<and> count busy s = 1 \<and> liveNum s = 4 \<and> count live s = 4"
proof -
  let ?P = "\<lambda>es (s :: nat cthread). busyNum s = 1 \<and> liveNum s = 4 \<and> \<not> shutdown s"
  have "holds_after 2 4 [C_add 7, C_manage, C_manage, C_manage, C_manage, C_manage, C_work 0, C_work 0, C_work 0] ?P"
    by code_simp
  then obtain es s where r: "reachable 2 4 es s" "?P es s" using holds_after_reachable [of 2 4 _ ?P] by blast
  show ?thesis using pool_counters_exact [OF r(1)] r by fastforce
qed

text \<open>
  A worker that is awake takes the next task. In a pool that neither retires workers nor is being
  destroyed, with the mutex free, three steps of a worker that is about to lock it (at the head of its loop
  or after a notification) start the oldest queued task, count the worker as busy and free the mutex.
\<close>

theorem awake_worker_starts_task:
  assumes "i < length (ThreadBuf s)" "ThreadBuf s ! i = W_lock \<or> ThreadBuf s ! i = W_woken"
    and "\<not> CThreadMutex s" "\<not> shutdown s" "exitNum s = 0" "TaskBuf s = t # ts"
  shows "run step s [E_work i None, E_work i None, E_work i (Some t)]
     (s\<lparr>ThreadBuf := (ThreadBuf s)[i := W_run t], TaskBuf := ts, busyNum := busyNum s + 1, CThreadMutex := False\<rparr>)"
proof -
  have "execs [C_work i, C_work i, C_work i] s = Some ([E_work i None, E_work i None, E_work i (Some t)],
     s\<lparr>ThreadBuf := (ThreadBuf s)[i := W_run t], TaskBuf := ts, busyNum := busyNum s + 1, CThreadMutex := False\<rparr>)"
    using assms by (cases s) (auto simp: condition_def GetTaskNum_def GetTask_def)
  then show ?thesis by (rule execs_ok)
qed

theorem awake_worker_starts_task_witness:
  "\<exists>es s. reachable 1 1 es s \<and> concat (map started es) = [7 :: nat]"
proof -
  let ?P = "\<lambda>es (s :: nat cthread). ThreadBuf s = [W_woken] \<and> \<not> CThreadMutex s \<and> \<not> shutdown s \<and> exitNum s = 0 \<and>
    TaskBuf s = [7] \<and> concat (map started es) = []"
  have "holds_after 1 1 [C_work 0, C_work 0, C_work 0, C_add 7] ?P" by code_simp
  then obtain es s where r: "reachable 1 1 es s" "?P es s" using holds_after_reachable [of 1 1 _ ?P] by blast
  show ?thesis
    using reachable_append [OF r(1) awake_worker_starts_task [of 0 s 7 "[]"]] r(2) by fastforce
qed

text \<open>
  C22. The pool mutex is never held for long: in every reachable state in which it is locked, its owner can
  release it by at most two steps of its own, without the help of another thread. So no interleaving
  deadlocks on \<^verbatim>\<open>CThreadMutex\<close>.
\<close>

theorem mutex_released:
  assumes "reachable Tmin Tmax es s" "0 \<le> Tmin" "CThreadMutex s"
  shows "\<exists>es' s'. run step s es' s' \<and> \<not> CThreadMutex s' \<and> length es' \<le> 2 \<and>
    (es' = [E_manage] \<or> (\<exists>i. owns (ThreadBuf s ! i) \<and> (\<forall>e \<in> set es'. \<exists>ob. e = E_work i ob)))"
proof (cases "Manager s = M_read")
  case True
  then have "run step s [E_manage] (s\<lparr>Manager := M_decide (busyNum s) (liveNum s) (GetTaskNum s), CThreadMutex := False\<rparr>)"
    by (intro execs_ok [of "[C_manage]"]) (simp add: manage_def)
  then show ?thesis by fastforce
next
  case False
  then have "count owns s = 1" using reachable_inv [OF assms(1,2)] assms(3) by (simp add: pool_inv_def)
  then have "filter owns (ThreadBuf s) \<noteq> []" by (auto simp: count_def)
  then obtain i where i: "i < length (ThreadBuf s)" "owns (ThreadBuf s ! i)"
    by (auto simp: filter_empty_conv in_set_conv_nth)
  have one: "\<exists>e s'. run step s1 [E_work i e] s' \<and> \<not> CThreadMutex s'"
    if "i < length (ThreadBuf s1)" "ThreadBuf s1 ! i = W_block \<or> ThreadBuf s1 ! i = W_go" for s1
  proof -
    note h = that
    obtain w s2 where w: "work_step (ThreadBuf s1 ! i) s1 = Some (w, s2)" "\<not> CThreadMutex s2"
      using h(2) work_step_frees [of s1] by auto
    then have "run step s1 [E_work i (running w)] (s2\<lparr>ThreadBuf := (ThreadBuf s1)[i := w]\<rparr>)"
      using h(1) by (intro execs_ok [of "[C_work i]"]) simp
    then show ?thesis using w(2) by fastforce
  qed
  show ?thesis
  proof (cases "ThreadBuf s ! i = W_check")
    case True
    let ?s1 = "s\<lparr>ThreadBuf := (ThreadBuf s)[i := if condition s then W_go else W_block]\<rparr>"
    have "run step s [E_work i None] ?s1" using True i by (intro execs_ok [of "[C_work i]"]) simp
    moreover obtain e s' where "run step ?s1 [E_work i e] s'" "\<not> CThreadMutex s'" using one [of ?s1] i by (cases "condition s") auto
    ultimately have "run step s [E_work i None, E_work i e] s'" using run_append by fastforce
    then show ?thesis using \<open>\<not> CThreadMutex s'\<close> i(2) by fastforce
  next
    case False
    then have "ThreadBuf s ! i = W_block \<or> ThreadBuf s ! i = W_go" using i(2) by (cases "ThreadBuf s ! i") auto
    then show ?thesis using one [OF i(1)] i(2) by fastforce
  qed
qed

theorem mutex_released_witness:
  "\<exists>es (s :: nat cthread). reachable 1 1 es s \<and> CThreadMutex s \<and> (\<exists>es' s'. run step s es' s' \<and> \<not> CThreadMutex s')"
proof -
  have "holds_after 1 1 [C_work 0] (\<lambda>es (s :: nat cthread). CThreadMutex s)" by code_simp
  then obtain es and s :: "nat cthread" where r: "reachable 1 1 es s" "CThreadMutex s"
    using holds_after_reachable [of 1 1 _ "\<lambda>es s. CThreadMutex s"] by blast
  show ?thesis using mutex_released [OF r(1) _ r(2)] r by fastforce
qed

text \<open>
  C33. A notification can be lost. \<^verbatim>\<open>AddTask\<close> does not lock \<^verbatim>\<open>CThreadMutex\<close>, so it can come between a worker's
  evaluation of \<^verbatim>\<open>condition\<close> and its falling asleep. In a pool of fixed size whose other workers all execute
  tasks, the task is then queued while the worker sleeps, and nothing but a further \<^verbatim>\<open>AddTask\<close>, a spurious
  wake-up, the destructor or the end of one of the running tasks can happen (two of them, the heartbeat check and
  the delayed release of connections, never end).
\<close>

theorem lost_wakeup:
  assumes "ThreadBuf s = ws @ W_block # vs" "list_all (\<lambda>w. running w \<noteq> None) (ws @ vs)"
    and "Manager s = M_none" "Recycle s = R_none" "notified s = None"
  shows "\<exists>s'. run step s [E_add t, E_work (length ws) None] s' \<and> TaskBuf s' = TaskBuf s @ [t] \<and>
     ThreadBuf s' = ws @ W_sleep # vs \<and>
     (\<forall>e s''. step e s' s'' \<longrightarrow> (\<exists>u. e = E_add u) \<or> (\<exists>i. e = E_spurious i) \<or> e = E_shutdown \<or>
        (\<exists>i u. e = E_work i None \<and> ThreadBuf s' ! i = W_run u))"
proof -
  let ?s' = "s\<lparr>TaskBuf := TaskBuf s @ [t], ThreadBuf := ws @ W_sleep # vs, CThreadMutex := False\<rparr>"
  have "W_sleep \<notin> set (ws @ W_block # vs)" using assms(2) by (auto simp: list_all_iff dest!: bspec [where x = W_sleep])
  then have "wake_first (ws @ W_block # vs) = ws @ W_block # vs" by (rule wake_first_none)
  then have "execs [C_add t, C_work (length ws)] s = Some ([E_add t, E_work (length ws) None], ?s')"
    using assms(1,2) by (cases s) (auto simp: notify_first_def)
  then have "run step s [E_add t, E_work (length ws) None] ?s'" by (rule execs_ok)
  moreover have "(\<exists>u. e = E_add u) \<or> (\<exists>i. e = E_spurious i) \<or> e = E_shutdown \<or>
     (\<exists>i u. e = E_work i None \<and> ThreadBuf ?s' ! i = W_run u)" if "step e ?s' s''" for e s''
    using that
  proof (rule stepE, goal_cases)
    case (1 i w s1)
    have "ThreadBuf ?s' ! i = W_sleep \<or> running (ThreadBuf ?s' ! i) \<noteq> None"
      using 1(3) assms(2) by (auto simp: list_all_iff nth_append nth_Cons split: nat.splits)
    then show ?case using 1 by (cases "ThreadBuf ?s' ! i") auto
  qed (use assms(3-5) in \<open>auto elim: manage_stepE recycle_stepE\<close>)
  ultimately show ?thesis by (intro exI [of _ ?s']) simp
qed

theorem lost_wakeup_witness:
  "\<exists>es s. reachable 3 3 es s \<and> TaskBuf s = [9 :: nat] \<and> ThreadBuf s = [W_run 7, W_run 8, W_sleep]"
proof -
  let ?P = "\<lambda>es (s :: nat cthread). ThreadBuf s = [W_run 7, W_run 8, W_block] \<and> Manager s = M_none \<and> Recycle s = R_none \<and>
    notified s = None \<and> TaskBuf s = []"
  have "holds_after 3 3 [C_add 7, C_work 0, C_work 0, C_work 0, C_add 8, C_work 1, C_work 1, C_work 1, C_work 2, C_work 2] ?P"
    by code_simp
  then obtain es s where r: "reachable 3 3 es s" "?P es s" using holds_after_reachable [of 3 3 _ ?P] by blast
  obtain s' where "run step s [E_add 9, E_work 2 None] s'" "TaskBuf s' = [9]" "ThreadBuf s' = [W_run 7, W_run 8, W_sleep]"
    using lost_wakeup [of s "[W_run 7, W_run 8]" "[]" 9] r(2) by (auto simp: numeral_2_eq_2)
  then show ?thesis using reachable_append [OF r(1)] by blast
qed

text \<open>
  The manager can retire every worker. It decides by a copy of \<^verbatim>\<open>liveNum\<close> read in an earlier critical section
  and assigns \<^verbatim>\<open>exitNum\<close> anew, so workers that leave in between are not taken into account: a pool with a minimum
  of two workers reaches a state, without being destroyed, in which \<^verbatim>\<open>liveNum\<close> is zero. (The run needs a notified
  worker to wait for the mutex longer than the manager's pause.)
\<close>

theorem workers_below_minimum:
  "\<exists>es (s :: nat cthread). reachable 2 4 es s \<and> \<not> shutdown s \<and> minNum s = 2 \<and> liveNum s = 0 \<and> list_all (\<lambda>w. \<not> live w) (ThreadBuf s)"
proof -
  let ?sleep = "\<lambda>i. [C_work i, C_work i, C_work i]" and ?exit = "\<lambda>i. [C_work i, C_work i, C_work i]"
  let ?cs = "[C_add 7, C_manage, C_manage, C_manage, C_manage, C_manage] @
     [C_work 0, C_work 0, C_work 0, C_work 0, C_work 0] @ ?sleep 0 @ ?sleep 1 @ ?sleep 2 @ ?sleep 3 @
     [C_manage, C_manage, C_manage, C_manage, C_manage] @ [C_manage, C_manage, C_manage, C_manage] @
     ?exit 0 @ ?exit 1 @ [C_manage] @ ?exit 2 @ ?exit 3"
  have "holds_after 2 4 ?cs (\<lambda>es (s :: nat cthread). \<not> shutdown s \<and> minNum s = 2 \<and> liveNum s = 0 \<and> list_all (\<lambda>w. \<not> live w) (ThreadBuf s))"
    by code_simp
  then show ?thesis by (rule holds_after_reachable)
qed

text \<open>
  The thread buffers outgrow the memory reserved for them. The constructor reserves \<^verbatim>\<open>Tmax\<close> elements of \<^verbatim>\<open>PackBuf\<close>
  and \<^verbatim>\<open>ThreadBuf\<close> and the threads keep references into \<^verbatim>\<open>PackBuf\<close>, but retired threads stay in the buffers until
  the recycling thread runs and do not count as live: a pool for four workers reaches a state with six
  elements, so the buffers have been reallocated under the references.
\<close>

theorem buffers_outgrow_reserve:
  "\<exists>es (s :: nat cthread). reachable 2 4 es s \<and> maxNum s = 4 \<and> length (ThreadBuf s) = 6 \<and> liveNum s = 4"
proof -
  let ?sleep = "\<lambda>i. [C_work i, C_work i, C_work i]" and ?exit = "\<lambda>i. [C_work i, C_work i, C_work i]"
  let ?cs = "[C_add 7, C_manage, C_manage, C_manage, C_manage, C_manage] @
     [C_work 0, C_work 0, C_work 0, C_work 0, C_work 0] @ ?sleep 0 @ ?sleep 1 @ ?sleep 2 @ ?sleep 3 @
     [C_manage, C_manage, C_manage, C_manage, C_manage] @ ?exit 0 @ ?exit 1 @
     [C_add 8, C_manage, C_manage, C_manage, C_manage, C_manage]"
  have "holds_after 2 4 ?cs (\<lambda>es (s :: nat cthread). maxNum s = 4 \<and> length (ThreadBuf s) = 6 \<and> liveNum s = 4)"
    by code_simp
  then show ?thesis by (rule holds_after_reachable)
qed

text \<open>
  The destructor can wait forever. It sets \<^verbatim>\<open>shutdown\<close> and notifies without the mutex; a worker that has
  just found \<^verbatim>\<open>condition\<close> false falls asleep after the last notification. A pool of one worker reaches a state
  in which the destructor has sent all its notifications and waits for the worker's future, the worker sleeps,
  and only a spurious wake-up or a new task is possible.
\<close>

theorem destructor_can_hang:
  "\<exists>es (s :: nat cthread). reachable 1 1 es s \<and> shutdown s \<and> notified s = Some (liveNum s) \<and> ThreadBuf s = [W_sleep] \<and>
     CThread_dtor s = None \<and> {e. \<exists>s'. step e s s'} = insert (E_spurious 0) (range E_add)"
proof -
  let ?P = "\<lambda>es (s :: nat cthread). shutdown s \<and> notified s = Some (liveNum s) \<and> ThreadBuf s = [W_sleep] \<and>
    Manager s = M_none \<and> Recycle s = R_none"
  have "holds_after 1 1 [C_work 0, C_work 0, C_shutdown, C_dnotify, C_work 0] ?P" by code_simp
  then obtain es s where r: "reachable 1 1 es s" "?P es s" using holds_after_reachable [of 1 1 _ ?P] by blast
  have "e = E_spurious 0 \<or> e \<in> range E_add" if "step e s s'" for e s'
    using that
  proof (rule stepE, goal_cases)
    case (1 i w s1)
    then show ?case using r(2) by auto
  qed (use r(2) in \<open>auto elim: manage_stepE recycle_stepE\<close>)
  moreover have "\<exists>s'. step (E_spurious 0) s s'" using step.spurious [of 0 s] r(2) by auto
  moreover have "\<exists>s'. step (E_add u) s s'" for u using exec_ok [of "C_add u" s] by auto
  moreover have "CThread_dtor s = None" using r(2) by (simp add: CThread_dtor_def)
  ultimately show ?thesis using r by blast
qed

section \<open>The end of the pool\<close>

fun rank :: "'t wstate \<Rightarrow> nat" where
  "rank (W_run t) = 6" | "rank W_relock = 5" | "rank W_lock = 4" | "rank W_woken = 4" | "rank W_check = 3"
| "rank W_go = 2" | "rank W_exit = 1" | "rank _ = 0"

text \<open>A pool of fixed size that is shutting down, with no worker asleep or about to fall asleep.\<close>

definition stopping :: "'t cthread \<Rightarrow> bool" where
  "stopping s \<longleftrightarrow> pool_inv s \<and> shutdown s \<and> Manager s = M_none \<and> W_block \<notin> set (ThreadBuf s) \<and> W_sleep \<notin> set (ThreadBuf s)"

lemma rank_step:
  assumes "work_step w s = Some (w', s')" "shutdown s" "w \<noteq> W_block"
  shows "rank w' < rank w \<and> w' \<noteq> W_block \<and> w' \<noteq> W_sleep \<and> shutdown s' \<and> Manager s' = Manager s \<and>
    notified s' = notified s \<and> liveNum s' = liveNum s \<and> minNum s' = minNum s \<and> maxNum s' = maxNum s"
  using assms by (cases w) (auto simp: condition_def split: if_splits)

lemma stopping_awake: "stopping s \<Longrightarrow> i < length (ThreadBuf s) \<Longrightarrow> ThreadBuf s ! i \<noteq> W_block"
  by (metis stopping_def nth_mem)

lemma stopping_step:
  assumes s: "stopping s" and i: "i < length (ThreadBuf s)" and w: "work_step (ThreadBuf s ! i) s = Some (w, s')"
  shows "stopping (s'\<lparr>ThreadBuf := (ThreadBuf s)[i := w]\<rparr>) \<and>
    sum_list (map rank ((ThreadBuf s)[i := w])) < sum_list (map rank (ThreadBuf s))"
proof -
  have m: "ThreadBuf s ! i \<in> set (ThreadBuf s)" using i by simp
  have b: "ThreadBuf s ! i \<noteq> W_block" using s i by (rule stopping_awake)
  have r: "rank w < rank (ThreadBuf s ! i)" "w \<noteq> W_block" "w \<noteq> W_sleep" "shutdown s'" "Manager s' = Manager s"
    using rank_step [OF w _ b] s by (auto simp: stopping_def)
  have "set ((ThreadBuf s)[i := w]) \<subseteq> insert w (set (ThreadBuf s))" by (rule set_update_subset_insert)
  moreover have "pool_inv (s'\<lparr>ThreadBuf := (ThreadBuf s)[i := w]\<rparr>)" using work_keeps [OF _ i w] s by (simp add: stopping_def)
  ultimately have "stopping (s'\<lparr>ThreadBuf := (ThreadBuf s)[i := w]\<rparr>)" using s r by (auto simp: stopping_def)
  moreover have "rank (ThreadBuf s ! i) \<le> sum_list (map rank (ThreadBuf s))" using m by (simp add: member_le_sum_list)
  ultimately show ?thesis using r(1) i by (simp add: map_update sum_list_update)
qed

text \<open>Some worker can go on as long as one has not ended: the owner of the mutex, or any when it is free.\<close>

lemma stopping_progress:
  assumes s: "stopping s" and w: "w \<in> set (ThreadBuf s)" "w \<noteq> W_done"
  shows "\<exists>i < length (ThreadBuf s). work_step (ThreadBuf s ! i) s \<noteq> None"
proof (cases "CThreadMutex s")
  case True
  then have "count owns s = 1" using s by (auto simp: stopping_def pool_inv_def)
  then have "filter owns (ThreadBuf s) \<noteq> []" by (auto simp: count_def)
  then obtain i where i: "i < length (ThreadBuf s)" "owns (ThreadBuf s ! i)" by (auto simp: filter_empty_conv in_set_conv_nth)
  then have "ThreadBuf s ! i \<noteq> W_block" using s stopping_awake by blast
  with i(2) have "work_step (ThreadBuf s ! i) s \<noteq> None" using s
    by (cases "ThreadBuf s ! i") (auto simp: stopping_def)
  with i(1) show ?thesis by blast
next
  case False
  obtain i where i: "i < length (ThreadBuf s)" "ThreadBuf s ! i = w" using w(1) by (auto simp: in_set_conv_nth)
  have "work_step w s \<noteq> None" using s w False by (cases w) (auto simp: stopping_def)
  with i show ?thesis by blast
qed

text \<open>A run of the workers alone: it is short, and when none of them can go on all have ended.\<close>

fun worker_event :: "'t event \<Rightarrow> bool" where
  "worker_event (E_work i r) = True"
| "worker_event _ = False"

lemma stopping_event:
  assumes s: "stopping s" and e: "step e s s'" "worker_event e"
  shows "stopping s' \<and> sum_list (map rank (ThreadBuf s')) < sum_list (map rank (ThreadBuf s)) \<and> notified s' = notified s \<and>
    liveNum s' = liveNum s \<and> minNum s' = minNum s \<and> maxNum s' = maxNum s"
proof -
  obtain i w s1 where i: "i < length (ThreadBuf s)" and w: "work_step (ThreadBuf s ! i) s = Some (w, s1)"
    and s': "s' = s1\<lparr>ThreadBuf := (ThreadBuf s)[i := w]\<rparr>"
    using e by (auto elim: stepE)
  have "shutdown s" using s by (simp add: stopping_def)
  from rank_step [OF w this stopping_awake [OF s i]] show ?thesis using stopping_step [OF s i w] by (simp add: s')
qed

lemma stopping_run:
  "run step s es s' \<Longrightarrow> stopping s \<Longrightarrow> list_all worker_event es \<Longrightarrow>
   stopping s' \<and> length es + sum_list (map rank (ThreadBuf s')) \<le> sum_list (map rank (ThreadBuf s)) \<and>
   notified s' = notified s \<and> liveNum s' = liveNum s \<and> minNum s' = minNum s \<and> maxNum s' = maxNum s"
proof (induction rule: run.induct)
  case (cons e s s1 es s')
  then have e: "worker_event e" "list_all worker_event es" by simp_all
  show ?case using cons.IH [OF _ e(2)] stopping_event [OF cons.prems(1) cons.hyps(1) e(1)] by simp
qed simp

lemma ranks_le: "sum_list (map rank ws) \<le> 6 * length ws"
proof (induction ws)
  case (Cons w ws)
  have "rank w \<le> 6" by (cases w) auto
  with Cons show ?case by simp
qed simp

lemma stopping_stuck:
  assumes "stopping s" "\<And>e s'. worker_event e \<Longrightarrow> \<not> step e s s'"
  shows "list_all (\<lambda>w. w = W_done) (ThreadBuf s)"
proof (rule ccontr)
  assume "\<not> ?thesis"
  then obtain w where "w \<in> set (ThreadBuf s)" "w \<noteq> W_done" by (auto simp: list_all_iff)
  from stopping_progress [OF assms(1) this] obtain i w s1 where
    "i < length (ThreadBuf s)" "work_step (ThreadBuf s ! i) s = Some (w, s1)" by (auto simp: not_None_eq)
  then have "step (E_work i (running w)) s (s1\<lparr>ThreadBuf := (ThreadBuf s)[i := w]\<rparr>)" by (rule step.work)
  with assms(2) show False by auto
qed

lemma notify_one_size:
  "notify_one s s' \<Longrightarrow> Manager s' = Manager s \<and> Recycle s' = Recycle s \<and> minNum s' = minNum s \<and> maxNum s' = maxNum s"
  by (auto elim: notify_oneE)

lemma work_step_size:
  "work_step w s = Some (w', s') \<Longrightarrow>
   Manager s' = Manager s \<and> Recycle s' = Recycle s \<and> minNum s' = minNum s \<and> maxNum s' = maxNum s"
  by (cases w) (auto simp: GetTask_def split: if_splits list.splits)

definition fixed_size :: "'t cthread \<Rightarrow> bool" where
  "fixed_size s \<longleftrightarrow> Manager s = M_none \<and> Recycle s = R_none \<and> minNum s = maxNum s"

lemma step_fixed_size: "step e s s' \<Longrightarrow> fixed_size s \<Longrightarrow> fixed_size s'"
  by (erule stepE)
    (auto simp: fixed_size_def elim!: AddTaskE manage_stepE recycle_stepE dest!: notify_one_size work_step_size)

lemma run_fixed_size: "run step s es s' \<Longrightarrow> fixed_size s \<Longrightarrow> fixed_size s'"
  by (induction rule: run.induct) (auto dest: step_fixed_size)

lemma reachable_fixed_size: "reachable n n es s \<Longrightarrow> fixed_size s"
  by (auto simp: reachable_def CThread_def split: if_splits elim!: run_fixed_size) (simp add: fixed_size_def)

text \<open>
  C21. The destructor returns if nobody sleeps. When a pool of fixed size, as the program makes it, is shutting down, the destructor has sent its
  notifications and no worker is asleep or between its test and its sleep, then whatever steps the workers make by themselves,
  and in whatever order: these are at most six times as many as there are workers, and as soon as none of them can make
  another one, every join returns. (The other case is the hanging destructor.)
\<close>

theorem destructor_returns:
  assumes "reachable n n es s" "0 \<le> n" "shutdown s" "notified s = Some k" "liveNum s \<le> k"
    and "W_block \<notin> set (ThreadBuf s)" "W_sleep \<notin> set (ThreadBuf s)"
    and r: "run step s es' s'" "list_all worker_event es'"
  shows "length es' \<le> 6 * length (ThreadBuf s) \<and>
    ((\<exists>e s2. worker_event e \<and> step e s' s2) \<or> CThread_dtor s' = Some (s'\<lparr>ThreadBuf := []\<rparr>))"
proof -
  have "stopping s" "fixed_size s"
    using reachable_inv [OF assms(1,2)] reachable_fixed_size [OF assms(1)] assms(3,6,7) by (simp_all add: stopping_def fixed_size_def)
  note e = stopping_run [OF r(1) this(1) r(2)] run_fixed_size [OF r(1) this(2)]
  have "CThread_dtor s' = Some (s'\<lparr>ThreadBuf := []\<rparr>)" if "\<And>e s2. worker_event e \<Longrightarrow> \<not> step e s' s2"
    using stopping_stuck [OF _ that] e assms(4,5) by (auto simp: CThread_dtor_def list_all_iff fixed_size_def)
  then show ?thesis using e ranks_le [of "ThreadBuf s"] by fastforce
qed

text \<open>The single worker is about to test, and finds that the pool is shutting down.\<close>

theorem destructor_returns_witness:
  "\<exists>es (s :: nat cthread) es' s'. reachable 1 1 es s \<and> run step s es' s' \<and> length es' \<le> 6 \<and>
     ((\<exists>e s2. worker_event e \<and> step e s' s2) \<or> CThread_dtor s' = Some (s'\<lparr>ThreadBuf := []\<rparr>))"
proof -
  let ?P = "\<lambda>es (s :: nat cthread). shutdown s \<and> notified s = Some 1 \<and> liveNum s = 1 \<and> ThreadBuf s = [W_check]"
  have "holds_after 1 1 [C_work 0, C_shutdown, C_dnotify] ?P" by code_simp
  then obtain es s where r: "reachable 1 1 es s" "?P es s" using holds_after_reachable [of 1 1 _ ?P] by blast
  let ?s = "\<lambda>w. s\<lparr>ThreadBuf := [w]\<rparr>"
  have "condition s" using r(2) by (simp add: condition_def)
  then have "work_step (ThreadBuf s ! 0) s = Some (W_go, s)" using r(2) by simp
  from step.work [OF _ this] have "step (E_work 0 None) s (?s W_go)" using r(2) by simp
  then have run: "run step s [E_work 0 None] (?s W_go)" by (simp add: run_cons_iff)
  show ?thesis using destructor_returns [OF r(1) _ _ _ _ _ _ run] r run by fastforce
qed

end
