(* ===== verification/HttpParse.thy ===== *)
theory HttpParse
  imports CString
begin

text \<open>
  Request parsing of \<^verbatim>\<open>HttpServer\<close> (\<^verbatim>\<open>logic/ngx_c_http.cpp\<close>, \<^verbatim>\<open>logic/ngx_c_http_parheader.cpp\<close>,
  \<^verbatim>\<open>logic/ngx_c_http_assist.cpp\<close>): lines are cut by \<^verbatim>\<open>parse_line\<close> in the message buffer, the request line
  and the header fields are taken apart in place, with terminators written into the buffer, and
  pointers into the buffer are indices. Reads and writes outside the buffer, null pointers and
  uncaught exceptions are faults.
\<close>

section \<open>State\<close>

datatype http_method = GET | POST | HEAD | PUT | DELETE | TRACE | OPTIONS | CONNECT | PATCH

datatype http_code =
    NO_REQUEST | GET_REQUEST | BAD_REQUEST | NO_RESOURCE | FORBIDDEN_REQUEST | FILE_REQUEST
  | INTERNAL_ERROR | CLOSED_CONNECTION | NOT_MODIFIED | PARTIAL_CONTENT | PRECONDITION_FAILED
  | RESPONSE_SUCCESSFUL

datatype line_status = LINE_OK | LINE_BAD | LINE_OPEN

datatype check_state = CHECK_STATE_REQUETLINE | CHECK_STATE_HEADER | CHECK_STATE_CONTENT

datatype header_cb = CB_if_modified_since_func | CB_range

text \<open>What the program uses of \<^verbatim>\<open>struct stat\<close>, with the contents of the file.\<close>

record file_info =
  f_dir :: bool
  f_other_readable :: bool
  f_mtime :: int
  f_content :: "char list"
  f_opens :: bool

text \<open>An \<^verbatim>\<open>iovec\<close>: the package header, the written part of the write buffer, or a range of the mapped file.\<close>

datatype iov = I_pkg_header | I_write nat | I_file int int

record HttpServer =
  m_start_idx :: nat
  m_check_idx :: nat
  m_read_idx :: nat
  m_write_idx :: nat
  m_check_state :: check_state
  m_method :: http_method
  m_file_ptr :: "char list option"
  m_url :: "nat option"
  m_version :: "nat option"
  m_cookie_name :: "nat option"
  m_cookie_value :: "nat option"
  m_range_start :: int
  m_range_end :: int
  m_host :: "nat option"
  m_ETag :: "nat option"
  m_content_length :: int
  m_if_modified_since_time :: int
  m_if_unmodified_since_time :: int
  m_write_buffer :: "char list"
  m_read_buffer :: "char list"
  m_filename :: "char list"
  m_iov :: "iov list"
  m_stat :: "file_info option"
  m_header_func_vec :: "header_cb list"
  m_keeplive :: bool

definition WRITE_BUFFER_SIZE :: nat where "WRITE_BUFFER_SIZE = 4096"
definition FILENAME_LEN :: nat where "FILENAME_LEN = 200"
definition LOCAL_FILE_ADDR :: string where "LOCAL_FILE_ADDR = ''./Resource''"

text \<open>
  The constructor with \<^verbatim>\<open>init\<close>. \<^verbatim>\<open>m_keeplive\<close>, which \<^verbatim>\<open>init\<close> shadows by a local variable, and \<^verbatim>\<open>m_read_buffer\<close>
  get a value from \<open>old\<close>, the memory the object is made in; \<^verbatim>\<open>m_stat\<close> holds nothing before the first \<^verbatim>\<open>stat\<close>.
\<close>

definition init_http :: "HttpServer \<Rightarrow> HttpServer" where
  "init_http old =
     old\<lparr>m_start_idx := 0, m_check_idx := 0, m_read_idx := 0, m_write_idx := 0, m_iov := [],
         m_method := GET, m_file_ptr := None, m_url := None, m_version := None,
         m_cookie_value := None, m_cookie_name := None, m_range_start := 0, m_range_end := 0,
         m_host := None, m_ETag := None, m_content_length := 0,
         m_if_modified_since_time := 0, m_if_unmodified_since_time := 0,
         m_check_state := CHECK_STATE_REQUETLINE,
         m_write_buffer := replicate WRITE_BUFFER_SIZE NUL, m_filename := replicate FILENAME_LEN NUL,
         m_header_func_vec := [], m_stat := None\<rparr>"

text \<open>
  What the calls ask of the system: the time, the formatting and reading of dates (both in the local
  time zone), whether \<^verbatim>\<open>std::stof\<close> accepts a text, and the files.
\<close>

record http_env =
  h_now :: int
  h_strftime :: "int \<Rightarrow> string"
  h_strptime :: "string \<Rightarrow> int option"
  h_stof_ok :: "string \<Rightarrow> bool"
  h_stat :: "string \<Rightarrow> file_info option"

section \<open>The buffer\<close>

definition get_ch :: "char list \<Rightarrow> nat \<Rightarrow> char res" where
  "get_ch buf i = (if i < length buf then Inr (buf ! i) else Inl OutOfBounds)"

definition put_ch :: "char list \<Rightarrow> nat \<Rightarrow> char \<Rightarrow> char list res" where
  "put_ch buf i c = (if i < length buf then Inr (buf[i := c]) else Inl OutOfBounds)"

definition put_nul :: "nat \<Rightarrow> HttpServer \<Rightarrow> HttpServer res" where
  "put_nul i h = res_bind (put_ch (m_read_buffer h) i NUL) (\<lambda>b. Inr (h\<lparr>m_read_buffer := b\<rparr>))"

text \<open>The string functions read up to a terminator: without one they leave the buffer.\<close>

definition str_at :: "HttpServer \<Rightarrow> nat \<Rightarrow> string res" where
  "str_at h p =
     (if NUL \<in> set (drop p (m_read_buffer h)) then Inr (cstr (drop p (m_read_buffer h))) else Inl OutOfBounds)"

definition skip_blanks :: "HttpServer \<Rightarrow> nat \<Rightarrow> nat" where
  "skip_blanks h p = p + strspn (m_read_buffer h) p [SP, TAB]"

section \<open>Lines\<close>

text \<open>The loop of \<^verbatim>\<open>parse_line\<close>; \<open>n\<close> bounds the passes, of which there are at most \<^verbatim>\<open>m_read_idx - m_check_idx\<close>.\<close>

fun parse_line_loop :: "nat \<Rightarrow> HttpServer \<Rightarrow> (line_status \<times> HttpServer) res" where
  "parse_line_loop 0 h = Inr (LINE_OPEN, h)"
| "parse_line_loop (Suc n) h =
     (let i = m_check_idx h in
      if m_read_idx h \<le> i then Inr (LINE_OPEN, h)
      else
        res_bind (get_ch (m_read_buffer h) i) (\<lambda>c.
        if c = CR then
          (if i + 1 = m_read_idx h then Inr (LINE_OPEN, h)
           else
             res_bind (get_ch (m_read_buffer h) (i + 1)) (\<lambda>d.
             if d = LF then
               res_bind (put_nul i h) (\<lambda>h. res_bind (put_nul (i + 1) h)
                 (\<lambda>h. Inr (LINE_OK, h\<lparr>m_check_idx := i + 2\<rparr>)))
             else Inr (LINE_BAD, h)))
        else if c = LF then
          (if i > 1 \<and> m_read_buffer h ! (i - 1) = CR then
             res_bind (put_nul i h) (\<lambda>h. res_bind (put_nul (i + 1) h)
               (\<lambda>h. Inr (LINE_OK, h\<lparr>m_check_idx := i + 2\<rparr>)))
           else Inr (LINE_BAD, h))
        else parse_line_loop n (h\<lparr>m_check_idx := i + 1\<rparr>)))"

definition parse_line :: "HttpServer \<Rightarrow> (line_status \<times> HttpServer) res" where
  "parse_line h = parse_line_loop (m_read_idx h - m_check_idx h) h"

section \<open>The request line\<close>

definition method_of :: "string \<Rightarrow> http_method \<Rightarrow> http_method" where
  "method_of word old =
     (if strcasecmp0 word ''GET'' then GET
      else if strcasecmp0 word ''POST'' then POST
      else if strcasecmp0 word ''HEAD'' then HEAD
      else if strcasecmp0 word ''OPTIONS'' then OPTIONS
      else old)"

definition parse_request :: "nat \<Rightarrow> HttpServer \<Rightarrow> (http_code \<times> HttpServer) res" where
  "parse_request p h =
     res_bind (str_at h p) (\<lambda>_.
     case strpbrk (m_read_buffer h) p [SP, TAB] of
       None \<Rightarrow> Inr (BAD_REQUEST, h\<lparr>m_url := None\<rparr>)
     | Some u \<Rightarrow>
         res_bind (put_nul u h) (\<lambda>h.
         res_bind (str_at h p) (\<lambda>word.
         let h = h\<lparr>m_method := method_of word (m_method h)\<rparr>;
             u = skip_blanks h (u + 1);
             h = h\<lparr>m_url := Some u\<rparr> in
         case strpbrk (m_read_buffer h) u [SP, TAB] of
           None \<Rightarrow> Inr (BAD_REQUEST, h\<lparr>m_version := None\<rparr>)
         | Some v \<Rightarrow>
             res_bind (put_nul v h) (\<lambda>h.
             let v = skip_blanks h (v + 1);
                 h = h\<lparr>m_version := Some v\<rparr> in
             res_bind (str_at h v) (\<lambda>version.
             res_bind (str_at h u) (\<lambda>url.
             if \<not> strcasecmp0 version ''HTTP/1.1'' then Inr (BAD_REQUEST, h)
             else if \<not> strncasecmp0 url ''http://'' 7 then Inr (BAD_REQUEST, h)
             else
               let u' = strchr (m_read_buffer h) (u + 7) (CHR ''/'');
                   h = h\<lparr>m_url := u'\<rparr> in
               (case u' of
                  None \<Rightarrow> Inr (BAD_REQUEST, h)
                | Some _ \<Rightarrow> Inr (NO_REQUEST, h\<lparr>m_check_state := CHECK_STATE_HEADER\<rparr>))))))))"

section \<open>Header fields\<close>

text \<open>
  \<^verbatim>\<open>decompose_weight\<close> (\<^verbatim>\<open>logic/ngx_c_http_assist.cpp\<close>). The map is passed by value, so what it collects is
  lost; what remains are the terminators it writes and the exceptions of \<^verbatim>\<open>std::stof\<close>. \<open>n\<close> bounds the
  passes: each moves \<^verbatim>\<open>right\<close> forward in the buffer.
\<close>

fun decompose_weight :: "nat \<Rightarrow> http_env \<Rightarrow> nat \<Rightarrow> HttpServer \<Rightarrow> HttpServer res" where
  "decompose_weight 0 env right h = Inl Blocked"
| "decompose_weight (Suc n) env right h =
     (case strchr (m_read_buffer h) right (CHR '';'') of
        None \<Rightarrow> Inr h
      | Some r \<Rightarrow>
          res_bind (put_nul r h) (\<lambda>h.
          let r = skip_blanks h (r + 1) in
          res_bind (str_at h r) (\<lambda>s.
          if strncasecmp0 s ''q='' 2 then
            let r = skip_blanks h (r + 2) in
            res_bind (str_at h r) (\<lambda>w.
            if \<not> h_stof_ok env w then Inl UncaughtException
            else
              (case strchr (m_read_buffer h) r (CHR '','') of
                 None \<Rightarrow> Inr h
               | Some r' \<Rightarrow> decompose_weight n env (r' + 1) h))
          else decompose_weight n env r h)))"

definition strtime_convert_time_t :: "http_env \<Rightarrow> string \<Rightarrow> int" where
  "strtime_convert_time_t env s = (case h_strptime env s of None \<Rightarrow> 0 | Some t \<Rightarrow> t)"

definition Connection_func :: "nat \<Rightarrow> HttpServer \<Rightarrow> (http_code \<times> HttpServer) res" where
  "Connection_func p h =
     res_bind (str_at h (skip_blanks h p)) (\<lambda>s.
     Inr (NO_REQUEST,
       if strncasecmp0 s ''keep-alive'' 11 then h\<lparr>m_keeplive := True\<rparr>
       else if strncasecmp0 s ''close'' 5 then h\<lparr>m_keeplive := False\<rparr> else h))"

definition Host_func :: "nat \<Rightarrow> HttpServer \<Rightarrow> (http_code \<times> HttpServer) res" where
  "Host_func p h = Inr (NO_REQUEST, h\<lparr>m_host := Some (skip_blanks h p)\<rparr>)"

definition Connect_Length_func :: "nat \<Rightarrow> HttpServer \<Rightarrow> (http_code \<times> HttpServer) res" where
  "Connect_Length_func p h =
     res_bind (str_at h (skip_blanks h p)) (\<lambda>s.
     res_bind (stoi s) (\<lambda>n. Inr (NO_REQUEST, h\<lparr>m_content_length := n\<rparr>)))"

definition Range_func :: "nat \<Rightarrow> HttpServer \<Rightarrow> (http_code \<times> HttpServer) res" where
  "Range_func p h =
     (let p = skip_blanks h p in
      res_bind (str_at h p) (\<lambda>s.
      if strncasecmp0 s ''bytes='' 6 then
        let p = p + 6 in
        res_bind
          (case strchr (m_read_buffer h) p (CHR ''-'') of
             None \<Rightarrow> Inr h
           | Some t \<Rightarrow>
               res_bind (put_nul t h) (\<lambda>h.
               res_bind (str_at h p) (\<lambda>a.
               res_bind (stoi a) (\<lambda>x.
               res_bind (str_at h (t + 1)) (\<lambda>b.
               res_bind (stoi b) (\<lambda>y. Inr (h\<lparr>m_range_start := x, m_range_end := y\<rparr>)))))))
          (\<lambda>h. Inr (NO_REQUEST, h\<lparr>m_header_func_vec := m_header_func_vec h @ [CB_range]\<rparr>))
      else Inr (BAD_REQUEST, h)))"

definition If_Modified_Since_func :: "http_env \<Rightarrow> nat \<Rightarrow> HttpServer \<Rightarrow> (http_code \<times> HttpServer) res" where
  "If_Modified_Since_func env p h =
     res_bind (str_at h (skip_blanks h p)) (\<lambda>s.
     Inr (NO_REQUEST, h\<lparr>m_if_modified_since_time := strtime_convert_time_t env s\<rparr>))"

text \<open>\<^verbatim>\<open>If_UnModified_Since_func\<close> is the same code, with the same field; no header name leads to it.\<close>

definition If_UnModified_Since_func :: "http_env \<Rightarrow> nat \<Rightarrow> HttpServer \<Rightarrow> (http_code \<times> HttpServer) res" where
  "If_UnModified_Since_func env p h =
     res_bind (str_at h (skip_blanks h p)) (\<lambda>s.
     Inr (NO_REQUEST, h\<lparr>m_if_modified_since_time := strtime_convert_time_t env s\<rparr>))"

text \<open>\<^verbatim>\<open>Accept_func\<close>, \<^verbatim>\<open>Accept_Charset_func\<close>, \<^verbatim>\<open>Accept_Encoding_func\<close> and \<^verbatim>\<open>Accept_Language_func\<close> differ in the map only.\<close>

definition Accept_func :: "http_env \<Rightarrow> nat \<Rightarrow> HttpServer \<Rightarrow> (http_code \<times> HttpServer) res" where
  "Accept_func env p h =
     res_bind (decompose_weight (length (m_read_buffer h) + 1) env (skip_blanks h p) h)
       (\<lambda>h. Inr (NO_REQUEST, h))"

definition Cookie_func :: "nat \<Rightarrow> HttpServer \<Rightarrow> (http_code \<times> HttpServer) res" where
  "Cookie_func p h =
     (let p = skip_blanks h p in
      case strchr (m_read_buffer h) p (CHR ''='') of
        None \<Rightarrow> Inl NullDeref
      | Some v \<Rightarrow>
          res_bind (put_nul v h) (\<lambda>h.
          Inr (NO_REQUEST, h\<lparr>m_cookie_value := Some (v + 1), m_cookie_name := Some p\<rparr>)))"

text \<open>\<^verbatim>\<open>Authorization_func\<close>, which no header name leads to either.\<close>

definition Authorization_func :: "nat \<Rightarrow> HttpServer \<Rightarrow> (http_code \<times> HttpServer) res" where
  "Authorization_func p h = Inr (NO_REQUEST, h)"

definition If_Match_func :: "nat \<Rightarrow> HttpServer \<Rightarrow> (http_code \<times> HttpServer) res" where
  "If_Match_func p h =
     (case strchr (m_read_buffer h) (skip_blanks h p) (CHR 0x22) of
        None \<Rightarrow> Inl NullDeref
      | Some t1 \<Rightarrow>
          res_bind (put_nul t1 h) (\<lambda>h.
          case strchr (m_read_buffer h) (t1 + 1) (CHR 0x22) of
            None \<Rightarrow> Inl NullDeref
          | Some t2 \<Rightarrow> res_bind (put_nul t2 h) (\<lambda>h. Inr (NO_REQUEST, h\<lparr>m_ETag := Some (t1 + 1)\<rparr>))))"

text \<open>\<^verbatim>\<open>parse_header_func_map\<close>, as the constructor fills it.\<close>

definition parse_header_func_map ::
  "http_env \<Rightarrow> string \<Rightarrow> (nat \<Rightarrow> HttpServer \<Rightarrow> (http_code \<times> HttpServer) res) option" where
  "parse_header_func_map env =
     map_of [(''Connection'', Connection_func), (''Host'', Host_func),
             (''Connect-Length'', Connect_Length_func), (''Range'', Range_func),
             (''If-Modified-Since'', If_Modified_Since_func env), (''Accept'', Accept_func env),
             (''Accept-Charset'', Accept_func env), (''Accept-Encoding'', Accept_func env),
             (''Accept-Language'', Accept_func env), (''Cookie'', Cookie_func), (''If-Match'', If_Match_func)]"

definition parse_header :: "http_env \<Rightarrow> nat \<Rightarrow> HttpServer \<Rightarrow> (http_code \<times> HttpServer) res" where
  "parse_header env p h =
     res_bind (get_ch (m_read_buffer h) p) (\<lambda>c.
     if c = NUL then
       (if m_content_length h > 0 then Inr (NO_REQUEST, h\<lparr>m_check_state := CHECK_STATE_CONTENT\<rparr>)
        else Inr (GET_REQUEST, h))
     else
       res_bind (str_at h p) (\<lambda>_.
       case strchr (m_read_buffer h) p (CHR '':'') of
         None \<Rightarrow> Inl NullDeref
       | Some t \<Rightarrow>
           res_bind (put_nul t h) (\<lambda>h.
           res_bind (str_at h p) (\<lambda>name.
           case parse_header_func_map env name of
             None \<Rightarrow> Inr (BAD_REQUEST, h)
           | Some f \<Rightarrow> f (t + 1) h))))"

text \<open>\<^verbatim>\<open>parse_content\<close>: the sum and the offset are of type \<^verbatim>\<open>int\<close>.\<close>

definition parse_content :: "nat \<Rightarrow> HttpServer \<Rightarrow> (http_code \<times> HttpServer) res" where
  "parse_content p h =
     (if int (m_read_idx h) \<ge> wrap32 (m_content_length h + int (m_check_idx h)) then
        (if int p + m_content_length h < 0 then Inl OutOfBounds
         else res_bind (put_nul (nat (int p + m_content_length h)) h) (\<lambda>h. Inr (GET_REQUEST, h)))
      else Inr (NO_REQUEST, h))"

section \<open>Requests\<close>

text \<open>
  \<^verbatim>\<open>do_request\<close>: \<^verbatim>\<open>m_filename\<close> is not terminated by the code, mapping an empty file fails.
\<close>

definition do_request :: "http_env \<Rightarrow> HttpServer \<Rightarrow> (http_code \<times> HttpServer) res" where
  "do_request env h =
     (if m_method h = OPTIONS then Inr (FILE_REQUEST, h)
      else case m_url h of None \<Rightarrow> Inl NullDeref | Some u \<Rightarrow>
        res_bind (poke 0 LOCAL_FILE_ADDR (m_filename h)) (\<lambda>fn.
        res_bind (str_at h u) (\<lambda>url.
        res_bind (poke 10 url fn) (\<lambda>fn.
        let h = h\<lparr>m_filename := fn\<rparr> in
        if NUL \<notin> set fn then Inl OutOfBounds else
        case h_stat env (cstr fn) of
          None \<Rightarrow> Inr (NO_RESOURCE, h)
        | Some st \<Rightarrow>
            let h = h\<lparr>m_stat := Some st\<rparr>; size = int (length (f_content st)) in
            if f_dir st then Inr (BAD_REQUEST, h)
            else if \<not> f_other_readable st then Inr (FORBIDDEN_REQUEST, h)
            else if m_if_modified_since_time h \<noteq> 0 \<and> \<not> f_mtime st > m_if_modified_since_time h
            then Inr (NOT_MODIFIED, h)
            else if m_if_modified_since_time h = 0 \<and> m_if_unmodified_since_time h \<noteq> 0 \<and>
                    f_mtime st > m_if_modified_since_time h
            then Inr (PRECONDITION_FAILED, h)
            else
              let h = (if m_if_modified_since_time h \<noteq> 0
                       then h\<lparr>m_header_func_vec := m_header_func_vec h @ [CB_if_modified_since_func]\<rparr> else h) in
              if \<not> f_opens st then Inr (INTERNAL_ERROR, h)
              else if f_content st = [] then Inr (INTERNAL_ERROR, h\<lparr>m_file_ptr := Some []\<rparr>)
              else
                let h = h\<lparr>m_file_ptr := Some (f_content st), m_content_length := wrap32 size\<rparr> in
                if (m_range_start h \<noteq> 0 \<and> m_range_end h \<noteq> 0) \<and> \<not> (m_range_start h < 0 \<or> m_range_end h > size)
                then Inr (PARTIAL_CONTENT, h\<lparr>m_content_length := wrap32 (m_range_end h - m_range_start h + 1)\<rparr>)
                else Inr (FILE_REQUEST, h)))))"

text \<open>\<^verbatim>\<open>process_read\<close>; \<open>n\<close> bounds the passes, each of which consumes a line of at least two characters.\<close>

fun process_read_loop :: "nat \<Rightarrow> http_env \<Rightarrow> HttpServer \<Rightarrow> (http_code \<times> HttpServer) res" where
  "process_read_loop 0 env h = Inl Blocked"
| "process_read_loop (Suc n) env h =
     res_bind (parse_line h) (\<lambda>(line_status, h).
       if line_status = LINE_OK then
         let p = m_start_idx h;
             h = h\<lparr>m_start_idx := m_check_idx h\<rparr> in
         (case m_check_state h of
            CHECK_STATE_REQUETLINE \<Rightarrow>
              res_bind (parse_request p h) (\<lambda>(ret, h).
                if ret = BAD_REQUEST then Inr (BAD_REQUEST, h) else process_read_loop n env h)
          | CHECK_STATE_HEADER \<Rightarrow>
              res_bind (parse_header env p h) (\<lambda>(ret, h).
                if ret = BAD_REQUEST then Inr (BAD_REQUEST, h)
                else if ret = GET_REQUEST then do_request env h
                else process_read_loop n env h)
          | CHECK_STATE_CONTENT \<Rightarrow>
              res_bind (parse_content p h) (\<lambda>(ret, h).
                if ret = BAD_REQUEST then Inr (BAD_REQUEST, h)
                else if ret = GET_REQUEST then do_request env h
                else process_read_loop n env h))
       else Inr (BAD_REQUEST, h))"

definition process_read :: "http_env \<Rightarrow> HttpServer \<Rightarrow> (http_code \<times> HttpServer) res" where
  "process_read env h = process_read_loop (m_read_idx h + 1) env h"

section \<open>Lemmas: lines\<close>

named_theorems http_simps \<open>parsing of laid out buffers\<close>

text \<open>The buffer is \<open>xs\<close> from its start to the end of what was read.\<close>

definition laid_out :: "HttpServer \<Rightarrow> char list \<Rightarrow> bool" where
  "laid_out h xs \<longleftrightarrow> m_read_buffer h = xs \<and> m_read_idx h = length xs"

lemma put_nul_at:
  "m_read_buffer h = xs @ c # ys \<Longrightarrow> i = length xs \<Longrightarrow> put_nul i h = Inr (h\<lparr>m_read_buffer := xs @ NUL # ys\<rparr>)"
  by (simp add: put_nul_def put_ch_def)

lemma get_ch_at: "buf = xs @ c # ys \<Longrightarrow> i = length xs \<Longrightarrow> get_ch buf i = Inr c"
  by (simp add: get_ch_def)

lemma parse_line_loop_ok:
  "laid_out h (pre @ line @ CR # LF # post) \<Longrightarrow> m_check_idx h = length pre \<Longrightarrow> CR \<notin> set line \<Longrightarrow> LF \<notin> set line \<Longrightarrow>
   length line < n \<Longrightarrow>
   parse_line_loop n h = Inr (LINE_OK, h\<lparr>m_read_buffer := pre @ line @ NUL # NUL # post,
                                          m_check_idx := length pre + length line + 2\<rparr>)"
proof (induction line arbitrary: pre h n)
  case Nil
  then obtain m where n: "n = Suc m" by (cases n) auto
  let ?h1 = "h\<lparr>m_read_buffer := pre @ NUL # LF # post\<rparr>"
  have b: "m_read_buffer h = pre @ CR # LF # post" "m_read_idx h = length pre + 2 + length post"
    using Nil by (simp_all add: laid_out_def)
  have "get_ch (m_read_buffer h) (length pre) = Inr CR" by (rule get_ch_at [OF b(1)]) simp
  moreover have "get_ch (m_read_buffer h) (length pre + 1) = Inr LF"
    using get_ch_at [of "m_read_buffer h" "pre @ [CR]" LF post] b(1) by simp
  moreover have "put_nul (length pre) h = Inr ?h1" using b(1) by (intro put_nul_at) auto
  moreover have "put_nul (length pre + 1) ?h1 = Inr (h\<lparr>m_read_buffer := pre @ NUL # NUL # post\<rparr>)"
    using put_nul_at [of ?h1 "pre @ [NUL]" LF post] by simp
  ultimately show ?case using n b(2) Nil.prems(2) by (simp add: Let_def)
next
  case (Cons c line)
  then obtain m where n: "n = Suc m" by (cases n) auto
  let ?h1 = "h\<lparr>m_check_idx := length pre + 1\<rparr>"
  have b: "m_read_buffer h = pre @ c # line @ CR # LF # post" "m_read_idx h > length pre"
    using Cons.prems(1) by (simp_all add: laid_out_def)
  have "get_ch (m_read_buffer h) (length pre) = Inr c" by (rule get_ch_at [OF b(1)]) simp
  moreover have "c \<noteq> CR" "c \<noteq> LF" using Cons.prems(3,4) by auto
  ultimately have "parse_line_loop n h = parse_line_loop m ?h1"
    using n b(2) Cons.prems(2) by (simp add: Let_def)
  also have "\<dots> = Inr (LINE_OK, ?h1\<lparr>m_read_buffer := (pre @ [c]) @ line @ NUL # NUL # post,
      m_check_idx := length (pre @ [c]) + length line + 2\<rparr>)"
    by (rule Cons.IH) (use Cons.prems n in \<open>simp_all add: laid_out_def\<close>)
  finally show ?case by simp
qed

lemma parse_line_ok:
  assumes "laid_out h (pre @ line @ CR # LF # post)" "m_check_idx h = length pre" "CR \<notin> set line" "LF \<notin> set line"
  shows "parse_line h = Inr (LINE_OK, h\<lparr>m_read_buffer := pre @ line @ NUL # NUL # post,
                                          m_check_idx := length pre + length line + 2\<rparr>)"
proof -
  have "length line < m_read_idx h - m_check_idx h" using assms(1,2) by (simp add: laid_out_def)
  then show ?thesis unfolding parse_line_def by (intro parse_line_loop_ok assms)
qed

section \<open>Lemmas: a line in the buffer\<close>

text \<open>The string functions on a line that stands behind \<open>pre\<close> and is terminated.\<close>

lemma str_at_line [http_simps]:
  "m_read_buffer h = pre @ s @ NUL # post \<Longrightarrow> NUL \<notin> set s \<Longrightarrow> p = length pre \<Longrightarrow> str_at h p = Inr s"
  by (simp add: str_at_def)

lemma strpbrk_line:
  "buf = pre @ a @ c # b @ NUL # post \<Longrightarrow> NUL \<notin> set (a @ c # b) \<Longrightarrow> \<forall>x \<in> set a. x \<notin> set acc \<Longrightarrow> c \<in> set acc \<Longrightarrow>
   p = length pre \<Longrightarrow> strpbrk buf p acc = Some (length pre + length a)"
  using cstr_append_NUL [of "a @ c # b" post]
  by (simp add: strpbrk_def find_index_append)

lemma strchr_line:
  "buf = pre @ a @ c # b @ NUL # post \<Longrightarrow> NUL \<notin> set (a @ c # b) \<Longrightarrow> c \<notin> set a \<Longrightarrow>
   p = length pre \<Longrightarrow> strchr buf p c = Some (length pre + length a)"
  using cstr_append_NUL [of "a @ c # b" post] find_index_append [of a "\<lambda>x. x = c" c b]
  by (auto simp: strchr_def)

lemma strchr_line_None:
  "buf = pre @ a @ NUL # post \<Longrightarrow> NUL \<notin> set a \<Longrightarrow> c \<notin> set a \<Longrightarrow> p = length pre \<Longrightarrow> strchr buf p c = None"
  by (auto simp: strchr_def find_index_None)

lemma skip_blanks_line:
  "m_read_buffer h = pre @ bl @ s @ NUL # post \<Longrightarrow> set bl \<subseteq> {SP, TAB} \<Longrightarrow> NUL \<notin> set s \<Longrightarrow>
   s = [] \<or> hd s \<notin> {SP, TAB} \<Longrightarrow> p = length pre \<Longrightarrow> skip_blanks h p = length pre + length bl"
proof -
  assume a: "m_read_buffer h = pre @ bl @ s @ NUL # post" "set bl \<subseteq> {SP, TAB}" "NUL \<notin> set s"
    "s = [] \<or> hd s \<notin> {SP, TAB}" "p = length pre"
  have "NUL \<notin> set (bl @ s)" using a(2,3) by auto
  then have "cstr (drop p (m_read_buffer h)) = bl @ s" using cstr_append_NUL [of "bl @ s" post] a(1,5) by simp
  moreover have "takeWhile (\<lambda>c. c \<in> set [SP, TAB]) (bl @ s) = bl"
  proof -
    have "takeWhile (\<lambda>c. c \<in> set [SP, TAB]) (bl @ s) = bl @ takeWhile (\<lambda>c. c \<in> set [SP, TAB]) s"
      using a(2) by (intro takeWhile_all_append) auto
    moreover have "takeWhile (\<lambda>c. c \<in> set [SP, TAB]) s = []" using a(4) by (cases s) auto
    ultimately show ?thesis by simp
  qed
  ultimately show ?thesis unfolding skip_blanks_def strspn_def a(5) by simp
qed

section \<open>Lemmas: the request line\<close>

text \<open>A word of a request line, and a request line in absolute form.\<close>

definition plain :: "string \<Rightarrow> bool" where
  "plain s \<longleftrightarrow> set s \<inter> {NUL, TAB, LF, CR, SP} = {}"

definition request_line :: "string \<Rightarrow> string \<Rightarrow> string \<Rightarrow> string" where
  "request_line word host path = word @ SP # (''http://'' @ host @ path) @ SP # ''HTTP/1.1''"

lemma plain_append [simp]: "plain (a @ b) \<longleftrightarrow> plain a \<and> plain b"
  by (auto simp: plain_def)

lemma plainD: "plain s \<Longrightarrow> NUL \<notin> set s \<and> SP \<notin> set s \<and> TAB \<notin> set s \<and> CR \<notin> set s \<and> LF \<notin> set s"
  by (auto simp: plain_def)

lemma plain_hd: "plain s \<Longrightarrow> s = [] \<or> hd s \<notin> {SP, TAB}"
  by (cases s) (auto simp: plain_def)

text \<open>
  The three words of a request line: what \<open>parse_request\<close> finds in a terminated line
  \<open>word SP url SP version\<close> behind \<open>pre\<close>.
\<close>

lemma parse_request_words:
  assumes b: "m_read_buffer h = pre @ (word @ SP # url @ SP # version) @ NUL # post"
    and w: "plain word" "plain url" "plain version" and u: "url \<noteq> []"
  shows "parse_request (length pre) h =
     (let u = length pre + length word + 1;
          h = h\<lparr>m_method := method_of word (m_method h), m_url := Some u,
               m_read_buffer := pre @ (word @ NUL # url @ NUL # version) @ NUL # post,
               m_version := Some (u + length url + 1)\<rparr> in
      if \<not> strcasecmp0 version ''HTTP/1.1'' then Inr (BAD_REQUEST, h)
      else if \<not> strncasecmp0 url ''http://'' 7 then Inr (BAD_REQUEST, h)
      else
        let u' = strchr (m_read_buffer h) (u + 7) (CHR ''/''); h = h\<lparr>m_url := u'\<rparr> in
        (case u' of None \<Rightarrow> Inr (BAD_REQUEST, h)
         | Some _ \<Rightarrow> Inr (NO_REQUEST, h\<lparr>m_check_state := CHECK_STATE_HEADER\<rparr>)))"
proof -
  note p = w [THEN plainD]
  let ?u0 = "length pre + length word"
  let ?b1 = "pre @ word @ NUL # url @ SP # version @ NUL # post"
  let ?b2 = "pre @ word @ NUL # url @ NUL # version @ NUL # post"
  let ?h1 = "h\<lparr>m_read_buffer := ?b1\<rparr>"
  let ?h2 = "?h1\<lparr>m_method := method_of word (m_method h), m_url := Some (?u0 + 1)\<rparr>"
  let ?h3 = "?h2\<lparr>m_read_buffer := ?b2\<rparr>"
  let ?v = "?u0 + 1 + length url"
  have s0: "str_at h (length pre) = Inr (word @ SP # url @ SP # version)"
    by (rule str_at_line [OF b]) (use p in auto)
  have p0: "strpbrk (m_read_buffer h) (length pre) [SP, TAB] = Some ?u0"
    by (rule strpbrk_line [of _ pre word SP "url @ SP # version" post]) (use b p in auto)
  have n0: "put_nul ?u0 h = Inr ?h1"
    using put_nul_at [of h "pre @ word" SP "url @ SP # version @ NUL # post"] b by simp
  have s1: "str_at ?h1 (length pre) = Inr word"
    by (rule str_at_line [of _ pre word "url @ SP # version @ NUL # post"]) (use p in auto)
  have k1: "skip_blanks (?h1\<lparr>m_method := m\<rparr>) (?u0 + 1) = ?u0 + 1" for m
    using skip_blanks_line [of "?h1\<lparr>m_method := m\<rparr>" "pre @ word @ [NUL]" "[]" "url @ SP # version" post "?u0 + 1"]
      p u plain_hd [OF w(2)] by (auto simp: hd_append)
  have p1: "strpbrk ?b1 (?u0 + 1) [SP, TAB] = Some ?v"
    using strpbrk_line [of ?b1 "pre @ word @ [NUL]" url SP version post "[SP, TAB]" "?u0 + 1"] p by auto
  have n1: "put_nul ?v ?h2 = Inr ?h3"
    using put_nul_at [of ?h2 "pre @ word @ NUL # url" SP "version @ NUL # post"] by (simp add: add.assoc)
  have k2: "skip_blanks ?h3 (?v + 1) = ?v + 1"
    using skip_blanks_line [of ?h3 "pre @ word @ NUL # url @ [NUL]" "[]" version post "?v + 1"]
      p plain_hd [OF w(3)] by auto
  have s2: "str_at (?h3\<lparr>m_version := x\<rparr>) (?v + 1) = Inr version" for x
    using str_at_line [of "?h3\<lparr>m_version := x\<rparr>" "pre @ word @ NUL # url @ [NUL]" version post "?v + 1"] p by simp
  have s3: "str_at (?h3\<lparr>m_version := x\<rparr>) (?u0 + 1) = Inr url" for x
    using str_at_line [of "?h3\<lparr>m_version := x\<rparr>" "pre @ word @ [NUL]" url "version @ NUL # post" "?u0 + 1"] p by simp
  show ?thesis
    unfolding parse_request_def s0 res_bind.simps p0 option.case n0 s1 Let_def
    using k1 p1 n1 k2 s2 s3 by (simp add: add.assoc split: option.split)
qed

section \<open>Lemmas: header lines\<close>

text \<open>What the request line decides, and what header fields may change.\<close>

definition line_view :: "HttpServer \<Rightarrow> http_method \<times> nat option \<times> int \<times> check_state" where
  "line_view h = (m_method h, m_url h, m_content_length h, m_check_state h)"

record conditions =
  since :: int
  unsince :: int
  r_start :: int
  r_end :: int
  cookie :: bool
  cond_cbs :: "header_cb list"
  fname :: "char list"
  wbuf :: "char list"
  widx :: nat

definition conditions_of :: "HttpServer \<Rightarrow> conditions" where
  "conditions_of h =
     \<lparr>since = m_if_modified_since_time h, unsince = m_if_unmodified_since_time h, r_start = m_range_start h,
      r_end = m_range_end h, cookie = (m_cookie_value h \<noteq> None), cond_cbs = m_header_func_vec h, fname = m_filename h,
      wbuf = m_write_buffer h, widx = m_write_idx h\<rparr>"

text \<open>What the reply is written into, and what decides about its header.\<close>

definition write_view :: "HttpServer \<Rightarrow> char list \<times> nat \<times> nat option \<times> header_cb list" where
  "write_view h = (m_write_buffer h, m_write_idx h, m_cookie_value h, m_header_func_vec h)"

definition idx_view :: "HttpServer \<Rightarrow> nat \<times> nat \<times> nat" where
  "idx_view h = (m_start_idx h, m_check_idx h, m_read_idx h)"

definition header_line :: "string \<times> string \<Rightarrow> string" where
  "header_line nv = fst nv @ CHR '':'' # snd nv"

text \<open>All header lines and the empty line behind them.\<close>

definition header_block :: "(string \<times> string) list \<Rightarrow> string" where
  "header_block hs = concat (map (\<lambda>nv. header_line nv @ CRLF) hs) @ CRLF"

text \<open>
  The contract of header fields: for the fields that are \<open>ok\<close> there is a function in the table, it goes on with the
  request, writes at most inside its own value, and changes the conditions of the request by \<open>eff\<close>. The lines of
  such fields are parsed one after the other.
\<close>

locale header_fields =
  fixes ok :: "'f \<Rightarrow> bool" and render :: "'f \<Rightarrow> string \<times> string"
    and eff :: "http_env \<Rightarrow> 'f \<Rightarrow> conditions \<Rightarrow> conditions"
  assumes chars: "ok f \<Longrightarrow> render f = (name, val) \<Longrightarrow>
      name \<noteq> [] \<and> set name \<inter> {NUL, CR, LF, CHR '':''} = {} \<and> set val \<inter> {NUL, CR, LF} = {}"
    and handled: "ok f \<Longrightarrow> render f = (name, val) \<Longrightarrow> m_read_buffer h = pre @ val @ NUL # post \<Longrightarrow>
      \<exists>g h' val'. parse_header_func_map env name = Some g \<and> g (length pre) h = Inr (NO_REQUEST, h') \<and>
        m_read_buffer h' = pre @ val' @ NUL # post \<and> length val' = length val \<and>
        line_view h' = line_view h \<and> idx_view h' = idx_view h \<and>
        conditions_of h' = eff env f (conditions_of h)"
begin

lemma parse_field:
  assumes i: "ok f" "render f = (name, val)" and b: "m_read_buffer h = pre @ header_line (name, val) @ NUL # post"
  shows "\<exists>h' val'. parse_header env (length pre) h = Inr (NO_REQUEST, h') \<and>
     m_read_buffer h' = pre @ name @ NUL # val' @ NUL # post \<and> length val' = length val \<and>
     line_view h' = line_view h \<and> idx_view h' = idx_view h \<and> conditions_of h' = eff env f (conditions_of h)"
proof -
  have nn: "NUL \<notin> set name" "CHR '':'' \<notin> set name" "name \<noteq> []" "NUL \<notin> set val" using chars [OF i] by auto
  let ?t = "length pre + length name"
  let ?h1 = "h\<lparr>m_read_buffer := pre @ name @ NUL # val @ NUL # post\<rparr>"
  have b': "m_read_buffer h = pre @ name @ CHR '':'' # val @ NUL # post" using b by (simp add: header_line_def)
  have c: "get_ch (m_read_buffer h) (length pre) = Inr (hd name)" "hd name \<noteq> NUL"
    using get_ch_at [of _ pre "hd name" "tl name @ CHR '':'' # val @ NUL # post"] b' nn by (cases name, auto)+
  have s0: "str_at h (length pre) = Inr (name @ CHR '':'' # val)"
    by (rule str_at_line [of _ pre _ post]) (use b' nn in auto)
  have f: "strchr (m_read_buffer h) (length pre) (CHR '':'') = Some ?t"
    by (rule strchr_line [of _ pre name _ val post]) (use b' nn in auto)
  have p: "put_nul ?t h = Inr ?h1"
    using put_nul_at [of h "pre @ name" "CHR '':''" "val @ NUL # post"] b' by simp
  have s1: "str_at ?h1 (length pre) = Inr name"
    by (rule str_at_line [of _ pre _ "val @ NUL # post"]) (use nn in auto)
  obtain g h' val' where "parse_header_func_map env name = Some g" "g (?t + 1) ?h1 = Inr (NO_REQUEST, h')"
    "m_read_buffer h' = pre @ name @ NUL # val' @ NUL # post" "length val' = length val"
    "line_view h' = line_view ?h1" "idx_view h' = idx_view ?h1" "conditions_of h' = eff env f (conditions_of ?h1)"
    using handled [OF i, of ?h1 "pre @ name @ [NUL]" post env] by auto
  then show ?thesis
    using c s0 f p s1 by (simp add: parse_header_def line_view_def idx_view_def conditions_of_def)
qed

lemma field_line_chars: "ok f \<Longrightarrow> CR \<notin> set (header_line (render f)) \<and> LF \<notin> set (header_line (render f))"
  using chars [of f "fst (render f)" "snd (render f)"] by (auto simp: header_line_def)

lemma parse_fields:
  "laid_out h (pre @ header_block (map render hs)) \<Longrightarrow> idx_view h = (length pre, length pre, length (pre @ header_block (map render hs))) \<Longrightarrow>
   m_check_state h = CHECK_STATE_HEADER \<Longrightarrow> m_content_length h \<le> 0 \<Longrightarrow> list_all ok hs \<Longrightarrow> length hs < n \<Longrightarrow>
   \<exists>h'. process_read_loop n env h = do_request env h' \<and> line_view h' = line_view h \<and>
     conditions_of h' = fold (eff env) hs (conditions_of h) \<and>
     take (length pre) (m_read_buffer h') = pre \<and> m_check_idx h' = length (pre @ header_block (map render hs))"
proof (induction hs arbitrary: pre h n)
  case Nil
  then obtain m where n: "n = Suc m" by (cases n) auto
  let ?h = "h\<lparr>m_read_buffer := pre @ NUL # NUL # [], m_check_idx := length pre + 2\<rparr>"
  have "parse_line h = Inr (LINE_OK, ?h)"
    using parse_line_ok [of h pre "[]" "[]"] Nil.prems(1,2) by (simp add: header_block_def idx_view_def)
  moreover have "get_ch (m_read_buffer ?h) (length pre) = Inr NUL" by (rule get_ch_at) auto
  ultimately have "process_read_loop n env h = do_request env (?h\<lparr>m_start_idx := length pre + 2\<rparr>)"
    using n Nil.prems(2-4) by (simp add: parse_header_def idx_view_def Let_def)
  then show ?case
    by (intro exI [of _ "?h\<lparr>m_start_idx := length pre + 2\<rparr>"]) (simp add: line_view_def conditions_of_def header_block_def)
next
  case (Cons f hs)
  then obtain m where n: "n = Suc m" by (cases n) auto
  obtain name val where nv: "render f = (name, val)" by (cases "render f")
  have i: "ok f" using Cons.prems(5) by simp
  let ?l = "header_line (render f)" and ?rest = "header_block (map render hs)"
  have hb: "header_block (map render (f # hs)) = ?l @ CR # LF # ?rest" by (simp add: header_block_def)
  let ?h1 = "h\<lparr>m_read_buffer := pre @ ?l @ NUL # NUL # ?rest, m_check_idx := length pre + length ?l + 2\<rparr>"
  let ?h2 = "?h1\<lparr>m_start_idx := length pre + length ?l + 2\<rparr>"
  have pl: "parse_line h = Inr (LINE_OK, ?h1)"
    by (rule parse_line_ok) (use Cons.prems(1,2,5) hb field_line_chars [of f] in \<open>auto simp: idx_view_def\<close>)
  obtain h3 val' where h3: "parse_header env (length pre) ?h2 = Inr (NO_REQUEST, h3)"
    "m_read_buffer h3 = pre @ name @ NUL # val' @ NUL # NUL # ?rest" "length val' = length val" "line_view h3 = line_view ?h2"
    "idx_view h3 = idx_view ?h2" "conditions_of h3 = eff env f (conditions_of ?h2)"
    using parse_field [OF i nv, of ?h2 pre "NUL # ?rest" env] nv by auto
  have step: "process_read_loop n env h = process_read_loop m env h3"
    using n pl h3(1) Cons.prems(2,3) by (simp add: idx_view_def Let_def)
  let ?pre = "pre @ name @ NUL # val' @ [NUL, NUL]"
  have len: "length ?pre = length pre + length ?l + 2" by (simp add: nv header_line_def h3(3))
  have "\<exists>h'. process_read_loop m env h3 = do_request env h' \<and> line_view h' = line_view h3 \<and>
     conditions_of h' = fold (eff env) hs (conditions_of h3) \<and>
     take (length ?pre) (m_read_buffer h') = ?pre \<and> m_check_idx h' = length (?pre @ ?rest)"
  proof (rule Cons.IH)
    show "laid_out h3 (?pre @ ?rest)"
      using h3(2,5) Cons.prems(1,2) hb len by (simp add: laid_out_def idx_view_def)
    show "idx_view h3 = (length ?pre, length ?pre, length (?pre @ ?rest))"
      using h3(5) Cons.prems(2) hb len by (simp add: idx_view_def)
  qed (use h3(4) Cons.prems(3-6) n in \<open>auto simp: line_view_def\<close>)
  then obtain h' where h': "process_read_loop m env h3 = do_request env h'" "line_view h' = line_view h3"
    "conditions_of h' = fold (eff env) hs (conditions_of h3)"
    "take (length ?pre) (m_read_buffer h') = ?pre" "m_check_idx h' = length (?pre @ ?rest)" by blast
  have "take (length pre) (m_read_buffer h') = take (length pre) (take (length ?pre) (m_read_buffer h'))"
    by (simp add: min_def)
  also have "\<dots> = pre" unfolding h'(4) by simp
  finally show ?case using step h' h3(4,6) hb len by (auto simp: line_view_def conditions_of_def)
qed

end

text \<open>The fields that change nothing that matters here.\<close>

definition inert_header :: "string \<times> string \<Rightarrow> bool" where
  "inert_header nv \<longleftrightarrow> fst nv \<in> {''Host'', ''Connection''} \<and> set (snd nv) \<inter> {NUL, CR, LF} = {}"

lemma value_blanks:
  obtains bl s where "val = bl @ s" "set bl \<subseteq> {SP, TAB}" "s = [] \<or> hd s \<notin> {SP, TAB}"
proof
  show "val = takeWhile (\<lambda>c. c \<in> {SP, TAB}) val @ dropWhile (\<lambda>c. c \<in> {SP, TAB}) val" by simp
  show "set (takeWhile (\<lambda>c. c \<in> {SP, TAB}) val) \<subseteq> {SP, TAB}" by (auto dest: set_takeWhileD)
  show "dropWhile (\<lambda>c. c \<in> {SP, TAB}) val = [] \<or> hd (dropWhile (\<lambda>c. c \<in> {SP, TAB}) val) \<notin> {SP, TAB}"
    using hd_dropWhile by blast
qed

lemma value_str:
  assumes "m_read_buffer h = pre @ bl @ s @ NUL # post" "set bl \<subseteq> {SP, TAB}" "s = [] \<or> hd s \<notin> {SP, TAB}" "NUL \<notin> set s"
  shows "skip_blanks h (length pre) = length pre + length bl" "str_at h (length pre + length bl) = Inr s"
  using skip_blanks_line [OF assms(1,2,4,3), of "length pre"] str_at_line [of h "pre @ bl" s post] assms(1,4) by simp_all

lemma inert_value_func:
  assumes n: "name = ''Host'' \<or> name = ''Connection''" and b: "m_read_buffer h = pre @ val @ NUL # post" "NUL \<notin> set val"
  shows "\<exists>f h'. parse_header_func_map env name = Some f \<and> f (length pre) h = Inr (NO_REQUEST, h') \<and>
     m_read_buffer h' = m_read_buffer h \<and> line_view h' = line_view h \<and> idx_view h' = idx_view h \<and>
     conditions_of h' = conditions_of h"
  using n
proof
  assume "name = ''Host''"
  then show ?thesis
    by (simp add: parse_header_func_map_def Host_func_def line_view_def idx_view_def conditions_of_def)
next
  assume "name = ''Connection''"
  moreover obtain bl s where v: "val = bl @ s" "set bl \<subseteq> {SP, TAB}" "s = [] \<or> hd s \<notin> {SP, TAB}"
    by (rule value_blanks)
  ultimately show ?thesis
    using value_str [of h pre bl s post] b
    by (simp add: parse_header_func_map_def Connection_func_def line_view_def idx_view_def conditions_of_def)
qed

interpretation inert: header_fields inert_header id "\<lambda>_ _ c. c"
proof
  fix f :: "string \<times> string" and name val :: string and h :: HttpServer and pre post :: string and env :: http_env
  assume "inert_header f" "id f = (name, val)"
  then have i: "inert_header (name, val)" by simp
  then show "name \<noteq> [] \<and> set name \<inter> {NUL, CR, LF, CHR '':''} = {} \<and> set val \<inter> {NUL, CR, LF} = {}"
    by (auto simp: inert_header_def)
  assume b: "m_read_buffer h = pre @ val @ NUL # post"
  show "\<exists>f h' val'. parse_header_func_map env name = Some f \<and> f (length pre) h = Inr (NO_REQUEST, h') \<and>
        m_read_buffer h' = pre @ val' @ NUL # post \<and> length val' = length val \<and>
        line_view h' = line_view h \<and> idx_view h' = idx_view h \<and> conditions_of h' = conditions_of h"
    using inert_value_func [OF _ b, of name env] i b by (fastforce simp: inert_header_def)
qed

section \<open>Requests against their specification\<close>

text \<open>\<^verbatim>\<open>Business\<close> points the object at the message body before parsing.\<close>

definition load_request :: "string \<Rightarrow> HttpServer \<Rightarrow> HttpServer" where
  "load_request body h = h\<lparr>m_read_buffer := body, m_read_idx := length body\<rparr>"

text \<open>The specification: what a request for \<open>path\<close> without conditions is answered with.\<close>

definition serve :: "http_env \<Rightarrow> string \<Rightarrow> http_code" where
  "serve env path =
     (case h_stat env (LOCAL_FILE_ADDR @ path) of
        None \<Rightarrow> NO_RESOURCE
      | Some st \<Rightarrow>
          if f_dir st then BAD_REQUEST
          else if \<not> f_other_readable st then FORBIDDEN_REQUEST
          else if \<not> f_opens st \<or> f_content st = [] then INTERNAL_ERROR
          else FILE_REQUEST)"

definition request :: "string \<Rightarrow> string \<Rightarrow> string \<Rightarrow> (string \<times> string) list \<Rightarrow> string" where
  "request word host path hs = request_line word host path @ CRLF @ header_block hs"

definition good_line :: "string \<Rightarrow> string \<Rightarrow> string \<Rightarrow> bool" where
  "good_line word host path \<longleftrightarrow>
     plain word \<and> plain host \<and> plain path \<and> CHR ''/'' \<notin> set host \<and> path \<noteq> [] \<and> hd path = CHR ''/''"

definition good_request :: "string \<Rightarrow> string \<Rightarrow> string \<Rightarrow> (string \<times> string) list \<Rightarrow> bool" where
  "good_request word host path hs \<longleftrightarrow> good_line word host path \<and> list_all inert_header hs"

lemma good_request_line: "good_request word host path hs \<Longrightarrow> good_line word host path"
  by (simp add: good_request_def)

lemma cstr_filename:
  "NUL \<notin> set path \<Longrightarrow> 10 + length path < 200 \<Longrightarrow>
   \<exists>fn. poke 0 LOCAL_FILE_ADDR (replicate FILENAME_LEN NUL) = Inr (LOCAL_FILE_ADDR @ replicate 190 NUL) \<and>
     poke 10 path (LOCAL_FILE_ADDR @ replicate 190 NUL) = Inr fn \<and> NUL \<in> set fn \<and> cstr fn = LOCAL_FILE_ADDR @ path"
proof -
  assume a: "NUL \<notin> set path" "10 + length path < 200"
  obtain m where m: "190 - length path = Suc m" using a(2) by (cases "190 - length path") auto
  have "cstr ((LOCAL_FILE_ADDR @ path) @ NUL # replicate m NUL) = LOCAL_FILE_ADDR @ path"
    using a(1) by (intro cstr_append_NUL) (auto simp: LOCAL_FILE_ADDR_def)
  moreover have "LOCAL_FILE_ADDR @ path @ replicate (190 - length path) NUL = (LOCAL_FILE_ADDR @ path) @ NUL # replicate m NUL"
    using m by simp
  moreover have l: "length LOCAL_FILE_ADDR = 10" by (simp add: LOCAL_FILE_ADDR_def)
  have "poke 0 LOCAL_FILE_ADDR (replicate FILENAME_LEN NUL) = Inr (LOCAL_FILE_ADDR @ replicate 190 NUL)"
    by (simp add: poke_def FILENAME_LEN_def l)
  moreover have "poke 10 path (LOCAL_FILE_ADDR @ replicate 190 NUL) =
      Inr (LOCAL_FILE_ADDR @ path @ replicate (190 - length path) NUL)"
    using a(2) by (simp add: poke_def l)
  ultimately show ?thesis by simp
qed

lemma do_request_serves:
  assumes u: "m_url h = Some u" "str_at h u = Inr path" "m_method h \<noteq> OPTIONS" "m_filename h = replicate FILENAME_LEN NUL"
    and z: "m_range_start h = 0" "m_if_modified_since_time h = 0" "m_if_unmodified_since_time h = 0"
    and p: "NUL \<notin> set path" "10 + length path < 200"
  shows "\<exists>h'. do_request env h = Inr (serve env path, h') \<and> m_method h' = m_method h \<and> write_view h' = write_view h \<and>
     m_stat h' = (case h_stat env (LOCAL_FILE_ADDR @ path) of None \<Rightarrow> m_stat h | Some st \<Rightarrow> Some st) \<and>
     (serve env path \<noteq> FILE_REQUEST \<longrightarrow> m_content_length h' = m_content_length h) \<and>
     (serve env path = FILE_REQUEST \<longrightarrow> m_file_ptr h' = map_option f_content (h_stat env (LOCAL_FILE_ADDR @ path)) \<and>
        (\<forall>st. h_stat env (LOCAL_FILE_ADDR @ path) = Some st \<longrightarrow> m_content_length h' = wrap32 (int (length (f_content st)))))"
proof -
  obtain fn where fn: "poke 0 LOCAL_FILE_ADDR (m_filename h) = Inr (LOCAL_FILE_ADDR @ replicate 190 NUL)"
    "poke 10 path (LOCAL_FILE_ADDR @ replicate 190 NUL) = Inr fn" "NUL \<in> set fn" "cstr fn = LOCAL_FILE_ADDR @ path"
    using cstr_filename [OF p] u(4) by auto
  show ?thesis
    using u(1-3) z fn by (auto simp: do_request_def serve_def Let_def write_view_def split: option.split)
qed

lemma request_line_url:
  assumes g: "good_line word host path" and b: "m_read_buffer h = request_line word host path @ NUL # post"
  shows "\<exists>h' u. parse_request 0 h = Inr (NO_REQUEST, h') \<and> m_url h' = Some u \<and>
     u = length word + 8 + length host \<and>
     m_read_buffer h' = (word @ NUL # ''http://'' @ host) @ path @ NUL # ''HTTP/1.1'' @ NUL # post \<and>
     m_method h' = method_of word (m_method h) \<and> m_check_state h' = CHECK_STATE_HEADER \<and> idx_view h' = idx_view h \<and>
     m_content_length h' = m_content_length h \<and> conditions_of h' = conditions_of h"
proof -
  let ?url = "''http://'' @ host @ path"
  have pl: "plain word" "plain host" "plain path" "CHR ''/'' \<notin> set host"
    using g by (simp_all add: good_line_def)
  obtain p' where ph: "path = CHR ''/'' # p'" using g by (cases path) (auto simp: good_line_def)
  have "plain ?url" "plain ''HTTP/1.1''" using pl by (simp_all add: plain_def)
  note w = parse_request_words [of h "[]" word ?url "''HTTP/1.1''" post, OF _ pl(1) this]
  let ?buf = "[] @ (word @ NUL # ?url @ NUL # ''HTTP/1.1'') @ NUL # post"
  have bf: "?buf = (word @ NUL # ''http://'') @ host @ CHR ''/'' # p' @ NUL # ''HTTP/1.1'' @ NUL # post"
    by (simp add: ph)
  have nn: "NUL \<notin> set (host @ CHR ''/'' # p')" using plainD [OF pl(2)] plainD [OF pl(3)] ph by simp
  have ch: "strchr ?buf (length word + 1 + 7) (CHR ''/'') = Some (length word + 8 + length host)"
    using strchr_line [OF bf nn pl(4), of "length word + 8"] by (simp add: add.commute)
  show ?thesis
    using w b ch
    by (simp add: request_line_def Let_def strcasecmp0_def strncasecmp0_def idx_view_def conditions_of_def)
qed

lemma length_header_block: "length hs < length (header_block hs)"
  by (induction hs) (auto simp: header_block_def)

section \<open>What the parsing functions keep\<close>

text \<open>A parsing function ends, and keeps the indices and the size of the buffer.\<close>

definition same_idx :: "HttpServer \<Rightarrow> HttpServer \<Rightarrow> bool" where
  "same_idx h h' \<longleftrightarrow> idx_view h' = idx_view h \<and> length (m_read_buffer h') = length (m_read_buffer h)"

abbreviation steady :: "HttpServer \<Rightarrow> (http_code \<times> HttpServer) res \<Rightarrow> bool" where
  "steady h \<equiv> ends_in (\<lambda>r. same_idx h (snd r))"

lemma same_idx_trans: "same_idx h h1 \<Longrightarrow> same_idx h1 h2 \<Longrightarrow> same_idx h h2"
  by (simp add: same_idx_def)

lemma not_blocked [simp]:
  "str_at h p \<noteq> Inl Blocked" "put_nul p h \<noteq> Inl Blocked" "get_ch b p \<noteq> Inl Blocked" "poke k a b' \<noteq> Inl Blocked"
  "stoi s \<noteq> Inl Blocked"
  by (auto simp: str_at_def put_nul_def put_ch_def get_ch_def poke_def stoi_def Let_def)

lemma put_nul_keeps: "put_nul p h = Inr h' \<Longrightarrow> same_idx h h'"
  by (auto simp: put_nul_def put_ch_def same_idx_def idx_view_def split: if_splits)

lemma idx_view_updates [simp]:
  "idx_view (h\<lparr>m_url := a\<rparr>) = idx_view h" "idx_view (h\<lparr>m_version := a\<rparr>) = idx_view h"
  "idx_view (h\<lparr>m_method := m\<rparr>) = idx_view h" "idx_view (h\<lparr>m_check_state := cst\<rparr>) = idx_view h"
  "idx_view (h\<lparr>m_host := a\<rparr>) = idx_view h" "idx_view (h\<lparr>m_content_length := i\<rparr>) = idx_view h"
  "idx_view (h\<lparr>m_range_start := i\<rparr>) = idx_view h" "idx_view (h\<lparr>m_range_end := i\<rparr>) = idx_view h"
  "idx_view (h\<lparr>m_keeplive := b\<rparr>) = idx_view h" "idx_view (h\<lparr>m_header_func_vec := v\<rparr>) = idx_view h"
  "idx_view (h\<lparr>m_if_modified_since_time := i\<rparr>) = idx_view h" "idx_view (h\<lparr>m_cookie_value := a\<rparr>) = idx_view h"
  "idx_view (h\<lparr>m_cookie_name := a\<rparr>) = idx_view h" "idx_view (h\<lparr>m_ETag := a\<rparr>) = idx_view h"
  "idx_view (h\<lparr>m_filename := fn\<rparr>) = idx_view h" "idx_view (h\<lparr>m_stat := st\<rparr>) = idx_view h"
  "idx_view (h\<lparr>m_file_ptr := fp\<rparr>) = idx_view h"
  by (simp_all add: idx_view_def)

lemma do_request_steady: "steady h (do_request env h)"
  unfolding do_request_def Let_def
  by (intro res_intros) (simp_all add: same_idx_def)

lemma do_request_idx: "do_request env h = Inr (c, h') \<Longrightarrow> m_check_idx h' = m_check_idx h"
  using do_request_steady [of h env] by (simp add: ends_in_def same_idx_def idx_view_def)

lemma parse_request_steady: "steady h (parse_request p h)"
  unfolding parse_request_def Let_def
  by (intro res_intros) (auto dest!: put_nul_keeps simp: same_idx_def)

lemma strchr_bounds:
  assumes "strchr buf p c = Some r"
  shows "p \<le> r \<and> r < length buf"
proof -
  from assms obtain k where "find_index (\<lambda>x. x = c) (cstr (drop p buf)) = Some k" "r = p + k" by (auto simp: strchr_def)
  moreover from this(1) have "k < length (cstr (drop p buf))" using find_index_Some by blast
  ultimately show ?thesis using length_cstr_le [of "drop p buf"] by simp
qed

lemma skip_blanks_le: "p \<le> skip_blanks h p"
  by (simp add: skip_blanks_def)

lemma decompose_weight_steady:
  "length (m_read_buffer h) - right < n \<Longrightarrow> ends_in (same_idx h) (decompose_weight n env right h)"
proof (induction n arbitrary: right h)
  case (Suc n)
  have rec: "ends_in (same_idx h) (decompose_weight n env x h1)"
    if "strchr (m_read_buffer h) right (CHR '';'') = Some r" "put_nul r h = Inr h1" "r < x" for r h1 x
  proof -
    have k: "same_idx h h1" using put_nul_keeps that(2) .
    have "length (m_read_buffer h1) - x < n"
      using Suc.prems strchr_bounds [OF that(1)] that(3) k unfolding same_idx_def by linarith
    then show ?thesis using Suc.IH same_idx_trans [OF k] by (blast intro: ends_in_weaken)
  qed
  have adv: "r < skip_blanks h1 (Suc r)" for r h1 using skip_blanks_le [of "Suc r" h1] by simp
  have adv2: "r < Suc r'" if "strchr b (skip_blanks h1 (Suc (Suc (skip_blanks h1 (Suc r))))) c = Some r'" for r r' h1 b c
    using strchr_bounds [OF that] skip_blanks_le [of "Suc (Suc (skip_blanks h1 (Suc r)))" h1] adv [of r h1] by linarith
  show ?case
    unfolding decompose_weight.simps Let_def
    by (intro res_intros) (auto simp: same_idx_def [of h h] intro: put_nul_keeps rec adv adv2)
qed simp

lemma header_funcs_steady:
  assumes "parse_header_func_map env name = Some f"
  shows "steady h (f p h)"
proof -
  have 1: "steady h (Connection_func p h)" "steady h (Host_func p h)" "steady h (Connect_Length_func p h)"
    "steady h (If_Modified_Since_func env p h)"
    unfolding Connection_func_def Host_func_def Connect_Length_func_def If_Modified_Since_func_def
    by (intro res_intros; simp add: same_idx_def)+
  have 2: "steady h (Cookie_func p h)" "steady h (If_Match_func p h)"
    unfolding Cookie_func_def If_Match_func_def Let_def
    by (intro res_intros; auto dest!: put_nul_keeps simp: same_idx_def)+
  have "ends_in (same_idx h) (decompose_weight (length (m_read_buffer h) + 1) env (skip_blanks h p) h)"
    by (rule decompose_weight_steady) simp
  then have 3: "steady h (Accept_func env p h)"
    unfolding Accept_func_def by (intro res_intros) (auto simp: ends_in_def)
  have range: "ends_in (same_idx h) (case strchr (m_read_buffer h) q (CHR ''-'') of
             None \<Rightarrow> Inr h
           | Some t \<Rightarrow>
               res_bind (put_nul t h) (\<lambda>h.
               res_bind (str_at h q) (\<lambda>a.
               res_bind (stoi a) (\<lambda>x.
               res_bind (str_at h (t + 1)) (\<lambda>b.
               res_bind (stoi b) (\<lambda>y. Inr (h\<lparr>m_range_start := x, m_range_end := y\<rparr>)))))))" for q
    by (intro res_intros) (auto dest!: put_nul_keeps simp: same_idx_def)
  have 4: "steady h (Range_func p h)"
    unfolding Range_func_def Let_def
    by (intro res_intros) (use range in \<open>auto simp: ends_in_def same_idx_def\<close>)
  show ?thesis using assms 1 2 3 4 by (auto simp: parse_header_func_map_def split: if_splits)
qed

lemma parse_header_steady: "steady h (parse_header env p h)"
proof -
  have "steady h (f q h1)" if "put_nul t h = Inr h1" "parse_header_func_map env name = Some f" for t h1 name f q
    using header_funcs_steady [OF that(2), of h1 q] put_nul_keeps [OF that(1)]
    by (auto intro: ends_in_weaken same_idx_trans)
  then show ?thesis
    unfolding parse_header_def
    by (intro res_intros) (auto dest!: put_nul_keeps simp: same_idx_def)
qed

lemma parse_content_steady: "steady h (parse_content p h)"
  unfolding parse_content_def
  by (intro res_intros) (auto dest!: put_nul_keeps simp: same_idx_def)

definition line_read :: "HttpServer \<Rightarrow> line_status \<times> HttpServer \<Rightarrow> bool" where
  "line_read h r \<longleftrightarrow> (fst r = LINE_OK \<longrightarrow>
     m_check_idx h < m_check_idx (snd r) \<and> m_check_idx h < m_read_idx h \<and> m_read_idx (snd r) = m_read_idx h)"

lemma line_read_other [simp]: "line_read h (LINE_OPEN, h')" "line_read h (LINE_BAD, h')"
  by (simp_all add: line_read_def)

lemma line_read_ok:
  "put_nul i h = Inr h1 \<Longrightarrow> put_nul j h1 = Inr h2 \<Longrightarrow> m_check_idx h < m_read_idx h \<Longrightarrow> m_check_idx h < k \<Longrightarrow>
   line_read h (LINE_OK, h2\<lparr>m_check_idx := k\<rparr>)"
  by (auto dest!: put_nul_keeps simp: line_read_def same_idx_def idx_view_def)

lemma parse_line_loop_advances: "ends_in (line_read h) (parse_line_loop n h)"
proof (induction n arbitrary: h)
  case (Suc n)
  have "ends_in (line_read h) (parse_line_loop n (h\<lparr>m_check_idx := m_check_idx h + 1\<rparr>))"
    using Suc.IH [of "h\<lparr>m_check_idx := m_check_idx h + 1\<rparr>"] by (rule ends_in_weaken) (auto simp: line_read_def)
  then show ?case
    unfolding parse_line_loop.simps Let_def
    by (intro res_intros) (auto intro: line_read_ok)
qed (simp add: ends_in_def line_read_def)

lemma process_read_loop_ends:
  "m_read_idx h - m_check_idx h < n \<Longrightarrow> process_read_loop n env h \<noteq> Inl Blocked"
proof (induction n arbitrary: h)
  case (Suc n)
  have rec: "process_read_loop n env h2 \<noteq> Inl Blocked"
    if "parse_line h = Inr (LINE_OK, h1)" "same_idx (h1\<lparr>m_start_idx := m_check_idx h1\<rparr>) h2" for h1 h2
    using Suc.IH [of h2] Suc.prems that parse_line_loop_advances [of h "m_read_idx h - m_check_idx h"]
    by (fastforce simp: parse_line_def ends_in_def line_read_def same_idx_def idx_view_def)
  have dr: "do_request env h2 \<noteq> Inl Blocked" for h2 using do_request_steady by (auto simp: ends_in_def)
  have cont: "res_bind r f \<noteq> Inl Blocked"
    if "steady g r" "\<And>c g'. same_idx g g' \<Longrightarrow> f (c, g') \<noteq> Inl Blocked"
    for g r and f :: "http_code \<times> HttpServer \<Rightarrow> (http_code \<times> HttpServer) res"
    using that by (cases r) (auto simp: ends_in_def)
  show ?case
  proof (cases "parse_line h")
    case (Inl e)
    then show ?thesis
      using parse_line_loop_advances [of h "m_read_idx h - m_check_idx h"] by (auto simp: parse_line_def ends_in_def)
  next
    case (Inr r)
    then obtain st h1 where pl: "parse_line h = Inr (st, h1)" by (cases r) auto
    show ?thesis
    proof (cases "st = LINE_OK")
      case True
      let ?g = "h1\<lparr>m_start_idx := m_check_idx h1\<rparr>"
      have "process_read_loop n env h2 \<noteq> Inl Blocked" if "same_idx ?g h2" for h2
        using rec pl True that by blast
      then show ?thesis
        using pl True dr
        by (cases "m_check_state ?g")
          (auto simp: Let_def split: if_splits intro!: cont [OF parse_request_steady [of ?g]] cont [OF parse_header_steady [of ?g]]
            cont [OF parse_content_steady [of ?g]])
    qed (use pl in simp)
  qed
qed simp

text \<open>Parsing works in place: the size of the message stays.\<close>

lemma parse_line_loop_len: "ends_in (\<lambda>r. length (m_read_buffer (snd r)) = length (m_read_buffer h)) (parse_line_loop n h)"
proof (induction n arbitrary: h)
  case (Suc n)
  have "ends_in (\<lambda>r. length (m_read_buffer (snd r)) = length (m_read_buffer h)) (parse_line_loop n (h\<lparr>m_check_idx := m_check_idx h + 1\<rparr>))"
    using Suc.IH [of "h\<lparr>m_check_idx := m_check_idx h + 1\<rparr>"] by simp
  then show ?case
    unfolding parse_line_loop.simps Let_def
    by (intro res_intros) (auto dest!: put_nul_keeps simp: same_idx_def)
qed (simp add: ends_in_def)

lemma steady_len: "steady h r \<Longrightarrow> r = Inr (c, h') \<Longrightarrow> length (m_read_buffer h') = length (m_read_buffer h)"
  by (auto simp: ends_in_def same_idx_def)

lemma process_read_loop_len:
  "process_read_loop n env h = Inr (c, h') \<Longrightarrow> length (m_read_buffer h') = length (m_read_buffer h)"
proof (induction n arbitrary: h)
  case (Suc n)
  obtain st h1 where pl: "parse_line h = Inr (st, h1)" using Suc.prems by auto
  let ?g = "h1\<lparr>m_start_idx := m_check_idx h1\<rparr>"
  have l1: "length (m_read_buffer ?g) = length (m_read_buffer h)"
    using parse_line_loop_len [of h "m_read_idx h - m_check_idx h"] pl by (auto simp: parse_line_def ends_in_def)
  note len = steady_len [OF parse_request_steady] steady_len [OF parse_header_steady] steady_len [OF parse_content_steady]
    steady_len [OF do_request_steady]
  show ?case
    using Suc.prems pl l1
    by (cases "m_check_state h1") (auto simp: Let_def split: if_splits dest!: len Suc.IH)
qed simp

text \<open>The conditions of an object fresh from its constructor.\<close>

definition no_conditions :: conditions where
  "no_conditions =
     \<lparr>since = 0, unsince = 0, r_start = 0, r_end = 0, cookie = False, cond_cbs = [], fname = replicate FILENAME_LEN NUL,
      wbuf = replicate WRITE_BUFFER_SIZE NUL, widx = 0\<rparr>"

lemma conditions_init: "conditions_of (load_request body (init_http old)) = no_conditions"
  by (simp add: conditions_of_def no_conditions_def load_request_def init_http_def)

text \<open>A well formed request up to the call of \<open>do_request\<close>.\<close>

context header_fields
begin

lemma parsed:
  assumes g: "good_line word host path" and ok: "list_all ok hs"
  shows "\<exists>h' u. process_read env (load_request (request word host path (map render hs)) (init_http old)) = do_request env h' \<and>
     m_url h' = Some u \<and> str_at h' u = Inr path \<and> m_method h' = method_of word GET \<and>
     m_check_idx h' = length (request word host path (map render hs)) \<and> m_content_length h' = 0 \<and>
     conditions_of h' = fold (eff env) hs no_conditions"
proof -
  let ?line = "request_line word host path" and ?hb = "header_block (map render hs)"
  let ?h = "load_request (request word host path (map render hs)) (init_http old)"
  let ?k = "length ?line + 2"
  let ?h1 = "?h\<lparr>m_read_buffer := ?line @ NUL # NUL # ?hb, m_check_idx := ?k\<rparr>"
  let ?h2 = "?h1\<lparr>m_start_idx := ?k\<rparr>"
  have pl: "plain word" "plain host" "plain path" using g by (simp_all add: good_line_def)
  have lc: "CR \<notin> set ?line" "LF \<notin> set ?line" using pl by (auto simp: request_line_def plain_def)
  have "parse_line ?h = Inr (LINE_OK, ?h1)"
    using parse_line_ok [of ?h "[]" ?line ?hb] lc
    by (simp add: laid_out_def load_request_def init_http_def request_def)
  moreover obtain h3 u where h3: "parse_request 0 ?h2 = Inr (NO_REQUEST, h3)" "m_url h3 = Some u" "u = length word + 8 + length host"
    "m_read_buffer h3 = (word @ NUL # ''http://'' @ host) @ path @ NUL # ''HTTP/1.1'' @ NUL # NUL # ?hb"
    "m_method h3 = method_of word (m_method ?h2)" "m_check_state h3 = CHECK_STATE_HEADER" "idx_view h3 = idx_view ?h2"
    "m_content_length h3 = m_content_length ?h2" "conditions_of h3 = conditions_of ?h2"
    using request_line_url [OF g, of ?h2 "NUL # ?hb"] by auto
  ultimately have step: "process_read env ?h = process_read_loop (m_read_idx ?h) env h3"
    by (simp add: process_read_def load_request_def init_http_def Let_def)
  let ?pre = "(word @ NUL # ''http://'' @ host) @ path @ NUL # ''HTTP/1.1'' @ [NUL, NUL]"
  have len: "length ?pre = ?k" by (simp add: request_line_def)
  have ri: "m_read_idx ?h = ?k + length ?hb" by (simp add: load_request_def request_def)
  have c3: "conditions_of h3 = no_conditions"
    using h3(9) conditions_init [of "request word host path (map render hs)" old] by (simp add: conditions_of_def)
  have pre: "laid_out h3 (?pre @ ?hb)" "idx_view h3 = (length ?pre, length ?pre, length (?pre @ ?hb))" "m_content_length h3 \<le> 0"
    "length hs < m_read_idx ?h"
    using h3 len ri length_header_block [of "map render hs"] by (simp_all add: laid_out_def idx_view_def load_request_def init_http_def)
  obtain h4 where h4: "process_read_loop (m_read_idx ?h) env h3 = do_request env h4" "line_view h4 = line_view h3"
    "conditions_of h4 = fold (eff env) hs (conditions_of h3)"
    "take (length ?pre) (m_read_buffer h4) = ?pre" "m_check_idx h4 = length (?pre @ ?hb)"
    using parse_fields [OF pre(1,2) h3(6) pre(3) ok pre(4), of env] by blast
  obtain post where post: "m_read_buffer h4 = ?pre @ post" using h4(4) append_take_drop_id by metis
  have "str_at h4 u = Inr path"
    by (rule str_at_line [of _ "word @ NUL # ''http://'' @ host" _ "''HTTP/1.1'' @ [NUL, NUL] @ post"])
      (use post plainD [OF pl(3)] h3(3) in auto)
  moreover have "m_check_idx h4 = length (request word host path (map render hs))"
    using h4(5) len by (simp add: request_def)
  moreover have "m_url h4 = Some u" "m_method h4 = method_of word GET" "m_content_length h4 = 0"
    using h4(2) h3(2,5,8) by (simp_all add: line_view_def load_request_def init_http_def)
  ultimately show ?thesis
    using step h4(1,3) c3 by auto
qed

end

lemma request_parsed:
  assumes g: "good_request word host path hs"
  shows "\<exists>h' u. process_read env (load_request (request word host path hs) (init_http old)) = do_request env h' \<and>
     m_url h' = Some u \<and> str_at h' u = Inr path \<and> m_method h' = method_of word GET \<and>
     m_filename h' = replicate FILENAME_LEN NUL \<and> m_range_start h' = 0 \<and> m_if_modified_since_time h' = 0 \<and>
     m_if_unmodified_since_time h' = 0 \<and> m_check_idx h' = length (request word host path hs) \<and>
     m_content_length h' = 0 \<and> write_view h' = (replicate WRITE_BUFFER_SIZE NUL, 0, None, [])"
proof -
  have "fold (\<lambda>_ c. c) hs c = c" for c :: conditions by (induction hs) auto
  then obtain h' u where h: "process_read env (load_request (request word host path hs) (init_http old)) = do_request env h'"
    "m_url h' = Some u" "str_at h' u = Inr path" "m_method h' = method_of word GET"
    "m_check_idx h' = length (request word host path hs)" "m_content_length h' = 0" "conditions_of h' = no_conditions"
    using inert.parsed [of word host path hs env old] g by (auto simp: good_request_def)
  have "m_filename h' = replicate FILENAME_LEN NUL" "m_range_start h' = 0" "m_if_modified_since_time h' = 0"
    "m_if_unmodified_since_time h' = 0" "write_view h' = (replicate WRITE_BUFFER_SIZE NUL, 0, None, [])"
    using h(7) by (simp_all add: conditions_of_def no_conditions_def write_view_def)
  then show ?thesis using h by blast
qed

lemma parse_header_no_colon:
  assumes b: "m_read_buffer h = pre @ l @ NUL # post" and l: "l \<noteq> []" "NUL \<notin> set l" "CHR '':'' \<notin> set l"
  shows "parse_header env (length pre) h = Inl NullDeref"
proof -
  have c: "get_ch (m_read_buffer h) (length pre) = Inr (hd l)" "hd l \<noteq> NUL"
    using get_ch_at [of "m_read_buffer h" pre "hd l" "tl l @ NUL # post" "length pre"] b l by (cases l, auto)+
  have s: "str_at h (length pre) = Inr l" by (rule str_at_line [OF b l(2)]) simp
  have n: "strchr (m_read_buffer h) (length pre) (CHR '':'') = None"
    by (rule strchr_line_None [OF b l(2,3)]) simp
  show ?thesis using c s n by (simp add: parse_header_def)
qed

section \<open>Properties\<close>

text \<open>
  A well formed request is answered as specified. On an object fresh from its constructor, a request
  in absolute form (any method word, any host, a path of fewer than 190 characters, any number of
  \<^verbatim>\<open>Host\<close> and \<^verbatim>\<open>Connection\<close> fields) makes \<^verbatim>\<open>process_read\<close> return, with no fault, the code that \<open>serve\<close> gives
  for the file \<^verbatim>\<open>./Resource\<close> followed by the path, and the method of the request; when the file is to be
  sent, it is mapped and the content length is its size.
\<close>

theorem request_refines_serve:
  assumes g: "good_request word host path hs" and l: "length path < 190" and o: "method_of word GET \<noteq> OPTIONS"
  shows "\<exists>h'. process_read env (load_request (request word host path hs) (init_http old)) = Inr (serve env path, h') \<and>
     m_method h' = method_of word GET \<and>
     (serve env path = FILE_REQUEST \<longrightarrow> m_file_ptr h' = map_option f_content (h_stat env (LOCAL_FILE_ADDR @ path)) \<and>
        (\<forall>st. h_stat env (LOCAL_FILE_ADDR @ path) = Some st \<longrightarrow> m_content_length h' = wrap32 (int (length (f_content st)))))"
proof -
  have pn: "NUL \<notin> set path" using g by (auto simp: good_request_def good_line_def plain_def)
  obtain h' u where "process_read env (load_request (request word host path hs) (init_http old)) = do_request env h'"
    "m_url h' = Some u" "str_at h' u = Inr path" "m_method h' = method_of word GET" "m_filename h' = replicate FILENAME_LEN NUL"
    "m_range_start h' = 0" "m_if_modified_since_time h' = 0" "m_if_unmodified_since_time h' = 0"
    using request_parsed [OF g, of env old] by blast
  then show ?thesis
    using do_request_serves [of h' u path env] o l pn by auto
qed

text \<open>An environment with one file, and an object in blank memory.\<close>

definition sample_file :: file_info where
  "sample_file = \<lparr>f_dir = False, f_other_readable = True, f_mtime = 7, f_content = ''hello'', f_opens = True\<rparr>"

definition sample_http_env :: http_env where
  "sample_http_env = \<lparr>h_now = 0, h_strftime = (\<lambda>_. ''Mon''), h_strptime = (\<lambda>_. None), h_stof_ok = (\<lambda>_. True),
     h_stat = [''./Resource/a'' \<mapsto> sample_file]\<rparr>"

definition blank_http :: HttpServer where
  "blank_http = \<lparr>m_start_idx = 0, m_check_idx = 0, m_read_idx = 0, m_write_idx = 0,
     m_check_state = CHECK_STATE_REQUETLINE, m_method = GET, m_file_ptr = None, m_url = None, m_version = None,
     m_cookie_name = None, m_cookie_value = None, m_range_start = 0, m_range_end = 0, m_host = None, m_ETag = None,
     m_content_length = 0, m_if_modified_since_time = 0, m_if_unmodified_since_time = 0, m_write_buffer = [],
     m_read_buffer = [], m_filename = [], m_iov = [], m_stat = None, m_header_func_vec = [], m_keeplive = False\<rparr>"

theorem request_refines_serve_witness:
  "good_request ''GET'' ''h'' ''/a'' [(''Host'', '' h'')] \<and>
   (\<exists>h'. process_read sample_http_env (load_request (request ''GET'' ''h'' ''/a'' [(''Host'', '' h'')]) (init_http blank_http)) =
       Inr (FILE_REQUEST, h') \<and> m_file_ptr h' = Some ''hello'')"
proof -
  have g: "good_request ''GET'' ''h'' ''/a'' [(''Host'', '' h'')]"
    by (auto simp: good_request_def good_line_def plain_def inert_header_def)
  have h: "length ''/a'' < 190" "method_of ''GET'' GET \<noteq> OPTIONS"
    by (simp_all add: method_of_def strcasecmp0_def)
  have s: "serve sample_http_env ''/a'' = FILE_REQUEST" "h_stat sample_http_env (LOCAL_FILE_ADDR @ ''/a'') = Some sample_file"
    by (simp_all add: serve_def sample_http_env_def LOCAL_FILE_ADDR_def sample_file_def)
  show ?thesis
    using request_refines_serve [OF g h, of sample_http_env blank_http] g s by (auto simp: sample_file_def)
qed

text \<open>
  A connection's second request is refused. The object of a connection serves all its requests, but
  only the constructor resets the parser, so after a first request \<^verbatim>\<open>m_check_idx\<close> stands at its end: every
  further request that is not longer than the first finds no line and gets the code of a bad request,
  whatever it says.
\<close>

theorem second_request_refused:
  assumes "good_request word host path hs"
    and "process_read env (load_request (request word host path hs) (init_http old)) = Inr (c, h1)"
    and "length body \<le> length (request word host path hs)"
  shows "process_read env (load_request body h1) = Inr (BAD_REQUEST, load_request body h1)"
proof -
  obtain h' where "process_read env (load_request (request word host path hs) (init_http old)) = do_request env h'"
    "m_check_idx h' = length (request word host path hs)"
    using request_parsed [OF assms(1), of env old] by blast
  then have "m_check_idx h1 = length (request word host path hs)" using do_request_idx assms(2) by metis
  then have "parse_line (load_request body h1) = Inr (LINE_OPEN, load_request body h1)"
    using assms(3) by (simp add: parse_line_def load_request_def)
  then show ?thesis by (simp add: process_read_def)
qed

theorem second_request_refused_witness:
  "\<exists>h1. process_read sample_http_env (load_request (request ''GET'' ''h'' ''/a'' []) (init_http blank_http)) = Inr (FILE_REQUEST, h1) \<and>
     process_read sample_http_env (load_request (request ''GET'' ''h'' ''/a'' []) h1) =
       Inr (BAD_REQUEST, load_request (request ''GET'' ''h'' ''/a'' []) h1)"
proof -
  have g: "good_request ''GET'' ''h'' ''/a'' []"
    by (auto simp: good_request_def good_line_def plain_def inert_header_def)
  have h: "length ''/a'' < 190" "method_of ''GET'' GET \<noteq> OPTIONS" "serve sample_http_env ''/a'' = FILE_REQUEST"
    by (simp_all add: method_of_def strcasecmp0_def serve_def sample_http_env_def LOCAL_FILE_ADDR_def sample_file_def)
  obtain u h' where "process_read sample_http_env (load_request (request ''GET'' ''h'' ''/a'' []) (init_http blank_http)) = do_request sample_http_env h'"
    "m_url h' = Some u" "str_at h' u = Inr ''/a''" "m_method h' = GET" "m_filename h' = replicate FILENAME_LEN NUL"
    "m_range_start h' = 0" "m_if_modified_since_time h' = 0" "m_if_unmodified_since_time h' = 0"
    using request_parsed [OF g, of sample_http_env blank_http] by (auto simp: method_of_def strcasecmp0_def)
  then obtain h1 where p: "process_read sample_http_env (load_request (request ''GET'' ''h'' ''/a'' []) (init_http blank_http)) = Inr (FILE_REQUEST, h1)"
    using do_request_serves [of h' u "''/a''" sample_http_env] h(3) by auto
  show ?thesis using second_request_refused [OF g p, of "request ''GET'' ''h'' ''/a'' []"] p by simp
qed

text \<open>
  C24. Parsing always comes to an end: whatever the message, the object's state and the files are,
  \<^verbatim>\<open>process_read\<close> (with the weights of the \<^verbatim>\<open>Accept\<close> fields inside it) never runs out of the bound on its
  passes, one more than the number of bytes read.
\<close>

theorem process_read_ends: "process_read env h \<noteq> Inl Blocked"
  unfolding process_read_def by (rule process_read_loop_ends) simp

text \<open>
  A request in origin form, \<^verbatim>\<open>GET /path HTTP/1.1\<close>, as clients send it to an origin server, is refused as
  a bad request: only a target that starts with \<^verbatim>\<open>http://\<close> is accepted.
\<close>

theorem origin_form_refused:
  assumes w: "plain word" "plain path" "path \<noteq> []" "hd path = CHR ''/''"
  shows "\<exists>h'. process_read env (load_request ((word @ SP # path @ SP # ''HTTP/1.1'') @ CRLF @ post) (init_http old)) =
     Inr (BAD_REQUEST, h')"
proof -
  let ?line = "word @ SP # path @ SP # ''HTTP/1.1''"
  let ?h = "load_request (?line @ CRLF @ post) (init_http old)"
  let ?h1 = "?h\<lparr>m_read_buffer := ?line @ NUL # NUL # post, m_check_idx := length ?line + 2\<rparr>"
  have lc: "CR \<notin> set ?line" "LF \<notin> set ?line" using w by (auto simp: plain_def)
  have "parse_line ?h = Inr (LINE_OK, ?h1)"
    using parse_line_ok [of ?h "[]" ?line post] lc by (simp add: laid_out_def load_request_def init_http_def)
  moreover have "\<not> strncasecmp0 path ''http://'' 7"
    using w(3,4) by (cases path) (auto simp: strncasecmp0_def tolower_def)
  moreover have "plain ''HTTP/1.1''" by (simp add: plain_def)
  ultimately show ?thesis
    using parse_request_words [of "?h1\<lparr>m_start_idx := length ?line + 2\<rparr>" "[]" word path "''HTTP/1.1''" "NUL # post"] w
    by (simp add: process_read_def load_request_def init_http_def Let_def strcasecmp0_def)
qed

theorem origin_form_refused_witness:
  "\<exists>h'. process_read sample_http_env (load_request ((''GET'' @ SP # ''/a'' @ SP # ''HTTP/1.1'') @ CRLF @ CRLF) (init_http blank_http)) =
     Inr (BAD_REQUEST, h')"
proof -
  have h: "plain ''GET''" "plain ''/a''" "''/a'' \<noteq> []" "hd ''/a'' = CHR ''/''" by (simp_all add: plain_def)
  show ?thesis using origin_form_refused [OF h, of sample_http_env CRLF blank_http] by simp
qed

text \<open>
  A header line without a colon ends the server: \<^verbatim>\<open>parse_header\<close> writes through the null pointer that
  \<^verbatim>\<open>strchr\<close> returns, so a well formed request line followed by any such line is a fault.
\<close>

theorem header_without_colon_faults:
  assumes g: "good_request word host path []" and l: "l \<noteq> []" "set l \<inter> {NUL, CR, LF, CHR '':''} = {}"
  shows "process_read env (load_request (request_line word host path @ CRLF @ l @ CRLF @ post) (init_http old)) = Inl NullDeref"
proof -
  let ?line = "request_line word host path" and ?tl = "l @ CR # LF # post"
  let ?h = "load_request (?line @ CRLF @ l @ CRLF @ post) (init_http old)"
  let ?k = "length ?line + 2"
  let ?h1 = "?h\<lparr>m_read_buffer := ?line @ NUL # NUL # ?tl, m_check_idx := ?k\<rparr>"
  let ?h2 = "?h1\<lparr>m_start_idx := ?k\<rparr>"
  have lc: "CR \<notin> set ?line" "LF \<notin> set ?line" using g by (auto simp: request_line_def plain_def good_request_def good_line_def)
  have "parse_line ?h = Inr (LINE_OK, ?h1)"
    using parse_line_ok [of ?h "[]" ?line ?tl] lc by (simp add: laid_out_def load_request_def init_http_def)
  moreover obtain h3 where h3: "parse_request 0 ?h2 = Inr (NO_REQUEST, h3)" "m_check_state h3 = CHECK_STATE_HEADER"
    "m_read_buffer h3 = (word @ NUL # ''http://'' @ host) @ path @ NUL # ''HTTP/1.1'' @ NUL # NUL # ?tl"
    "idx_view h3 = idx_view ?h2"
    using request_line_url [OF good_request_line [OF g], of ?h2 "NUL # ?tl"] by auto
  ultimately have step: "process_read env ?h = process_read_loop (m_read_idx ?h) env h3"
    by (simp add: process_read_def load_request_def init_http_def Let_def)
  define pre where "pre = (word @ NUL # ''http://'' @ host) @ path @ NUL # ''HTTP/1.1'' @ [NUL, NUL]"
  have len: "length pre = ?k" by (simp add: pre_def request_line_def)
  have b3: "m_read_buffer h3 = pre @ ?tl" using h3(3) by (simp add: pre_def)
  let ?h4 = "h3\<lparr>m_read_buffer := pre @ l @ NUL # NUL # post, m_check_idx := length pre + length l + 2\<rparr>"
  have ix: "m_check_idx h3 = length pre" "m_start_idx h3 = length pre" "m_read_idx h3 = length pre + length ?tl"
    "m_read_idx ?h = Suc (?k + length l + 1 + length post)"
    using h3(4) len by (simp_all add: idx_view_def load_request_def)
  have pl: "parse_line h3 = Inr (LINE_OK, ?h4)"
    using parse_line_ok [of h3 pre l post] b3 ix l(2) by (simp add: laid_out_def)
  have "parse_header env (length pre) (?h4\<lparr>m_start_idx := length pre + length l + 2\<rparr>) = Inl NullDeref"
    by (rule parse_header_no_colon [of _ pre l "NUL # post"]) (use l in auto)
  then show ?thesis using step ix pl h3(2) by (simp add: Let_def)
qed

theorem header_without_colon_faults_witness:
  "process_read sample_http_env (load_request (request_line ''GET'' ''h'' ''/a'' @ CRLF @ ''x'' @ CRLF @ []) (init_http blank_http)) =
     Inl NullDeref"
proof -
  have h: "good_request ''GET'' ''h'' ''/a'' []" "''x'' \<noteq> []" "set ''x'' \<inter> {NUL, CR, LF, CHR '':''} = {}"
    by (auto simp: good_request_def good_line_def plain_def)
  show ?thesis by (rule header_without_colon_faults [OF h])
qed

text \<open>
  A content length near the largest \<^verbatim>\<open>int\<close> makes the server write far outside the message: the sum with
  \<^verbatim>\<open>m_check_idx\<close> wraps to a negative number, the test that the content has arrived succeeds, and the
  terminator goes to an address about two gigabytes behind the message.
\<close>

theorem content_length_overrun:
  assumes "m_content_length h \<le> INT_MAX" "INT_MAX < m_content_length h + int (m_check_idx h)"
    and "m_check_idx h < 2 ^ 16" "length (m_read_buffer h) < 2 ^ 16"
  shows "parse_content p h = Inl OutOfBounds"
proof -
  let ?x = "m_content_length h + int (m_check_idx h)"
  have "(?x + 2 ^ 31) mod 2 ^ 32 = (?x + 2 ^ 31 - 2 ^ 32) mod 2 ^ 32" by (simp only: minus_mod_self2)
  also have "\<dots> = ?x + 2 ^ 31 - 2 ^ 32"
    using assms(1-3) by (intro mod_pos_pos_trivial) (simp_all add: INT_MAX_def)
  finally have "wrap32 (m_content_length h + int (m_check_idx h)) < 0"
    using assms(1-3) by (simp add: wrap32_def INT_MAX_def)
  then have "int (m_read_idx h) \<ge> wrap32 (m_content_length h + int (m_check_idx h))" by simp
  moreover have "length (m_read_buffer h) \<le> nat (int p + m_content_length h)"
    using assms by (simp add: INT_MAX_def)
  ultimately show ?thesis
    using assms by (simp add: parse_content_def put_nul_def put_ch_def INT_MAX_def)
qed

theorem content_length_overrun_witness:
  "parse_content 3 (blank_http\<lparr>m_read_buffer := ''abcdef'', m_read_idx := 6, m_check_idx := 6, m_content_length := INT_MAX\<rparr>) =
     Inl OutOfBounds"
  by (rule content_length_overrun) (simp_all add: INT_MAX_def)

end
