(* ===== verification/ConnPool.thy ===== *)
theory ConnPool
  imports SockState
begin

text \<open>
  The connection pool of \<^verbatim>\<open>net/ngx_c_socket_conn.cpp\<close> and its construction in \<^verbatim>\<open>ngx_epoll_init\<close>
  (\<^verbatim>\<open>net/ngx_c_socket.cpp\<close>): a linked list of free connections threaded through \<^verbatim>\<open>next\<close> in arrays that
  grow by sixteen. The abstract view is a stack of free pointers; the operations refine it, never
  hand out a connection twice and never leave an array, as long as the room for growth is a multiple
  of sixteen. When it is not, growth writes behind the new array.
\<close>

section \<open>The code\<close>

text \<open>
  The loop \<^verbatim>\<open>for(int i = 0; i < N - 1; i++)\<close> that links the cells of array \<open>b\<close> from index \<open>i\<close> on, \<open>n\<close> passes.
\<close>

fun link_loop :: "nat \<Rightarrow> nat \<Rightarrow> nat \<Rightarrow> csocket \<Rightarrow> csocket res" where
  "link_loop b i 0 cs = Inr cs"
| "link_loop b i (Suc n) cs =
     res_bind
       (conn_upd (b, i)
         (\<lambda>t. t\<lparr>c_next := Some (b, i + 1), fd := - 1, c_instance := True, iCurrsequence := 0\<rparr>) cs)
       (link_loop b (i + 1) n)"

text \<open>The whole linking: the loop, then \<^verbatim>\<open>tptr->next = nullptr\<close> for the cell it ends at.\<close>

definition link_array :: "nat \<Rightarrow> nat \<Rightarrow> csocket \<Rightarrow> csocket res" where
  "link_array b n cs =
     res_bind (link_loop b 0 (n - 1) cs) (conn_upd (b, n - 1) (\<lambda>t. t\<lparr>c_next := None\<rparr>))"

text \<open>
  \<^verbatim>\<open>new ngx_connection_t[n]\<close>: a new array whose cells hold indeterminate values, apart from the
  members with a constructor (the mutex is unlocked).
\<close>

definition new_connections :: "nat \<Rightarrow> csocket \<Rightarrow> csocket" where
  "new_connections n cs =
     cs\<lparr>m_pconnections := m_pconnections cs @ [n],
        conns := (\<lambda>p. if fst p = length (m_pconnections cs) \<and> snd p < n
                      then (conns cs p)\<lparr>logicPorcMutex := False\<rparr> else conns cs p)\<rparr>"

text \<open>
  \<^verbatim>\<open>More_Connection_Pool(ConNum, c)\<close>: it creates \<^verbatim>\<open>CrateNum\<close> cells and links \<^verbatim>\<open>ConNum\<close> of them. A
  negative array size makes \<^verbatim>\<open>new\<close> throw.
\<close>

definition More_Connection_Pool :: "nat \<Rightarrow> conn_ptr \<Rightarrow> csocket \<Rightarrow> (bool \<times> csocket) res" where
  "More_Connection_Pool ConNum c cs =
     (let conNum = m_connection_n cs + int ConNum;
          CrateNum = (if conNum \<le> m_connection_n_max cs then int ConNum
                      else m_connection_n_max cs - m_connection_n cs);
          b = length (m_pconnections cs) in
      if CrateNum = 0 then Inr (False, cs)
      else if CrateNum < 0 then Inl UncaughtException
      else res_bind (conn_upd c (\<lambda>t. t\<lparr>c_next := Some (b, 0)\<rparr>) (new_connections (nat CrateNum) cs))
        (\<lambda>cs1. res_bind (link_array b ConNum cs1)
          (\<lambda>cs2. Inr (True, cs2\<lparr>m_connection_n := m_connection_n cs2 + CrateNum\<rparr>))))"

definition ngx_get_connection :: "int \<Rightarrow> csocket \<Rightarrow> (conn_ptr option \<times> csocket) res" where
  "ngx_get_connection isock cs =
     (case m_pfree_connections cs of
        None \<Rightarrow> Inr (None, cs)
      | Some c \<Rightarrow>
          if \<not> valid_conn cs c then Inl OutOfBounds
          else res_bind
            (if c_next (conns cs c) = None then More_Connection_Pool CREATECONNUM c cs else Inr (False, cs))
            (\<lambda>(_, cs1).
              let cs2 = cs1\<lparr>m_pfree_connections := c_next (conns cs1 c),
                            m_free_connection_n := m_free_connection_n cs1 - 1\<rparr>;
                  old = conns cs2 c
              in Inr (Some c,
                   conn_put c (zero_connection\<lparr>fd := isock, c_instance := \<not> c_instance old,
                                 iCurrsequence := iCurrsequence old + 1\<rparr>) cs2)))"

text \<open>\<^verbatim>\<open>delete c->logicObj\<close>: deleting null does nothing, deleting a dead object is a fault.\<close>

definition delete_obj :: "nat option \<Rightarrow> csocket \<Rightarrow> csocket res" where
  "delete_obj ob cs =
     (case ob of
        None \<Rightarrow> Inr cs
      | Some i \<Rightarrow> if obj_live cs i then Inr (cs\<lparr>obj_live := (obj_live cs)(i := False)\<rparr>) else Inl DeadMemory)"

definition ngx_free_connection :: "conn_ptr \<Rightarrow> csocket \<Rightarrow> csocket res" where
  "ngx_free_connection c cs =
     res_bind (conn_upd c (\<lambda>t. t\<lparr>c_next := m_pfree_connections cs, iCurrsequence := iCurrsequence t + 1\<rparr>) cs)
       (\<lambda>cs1. delete_obj (logicObj (conns cs1 c))
          (cs1\<lparr>m_pfree_connections := Some c, m_free_connection_n := m_free_connection_n cs1 + 1\<rparr>))"

definition ngx_close_connection :: "conn_ptr \<Rightarrow> csocket \<Rightarrow> csocket res" where
  "ngx_close_connection c cs =
     res_bind (conn_upd c (\<lambda>t. t\<lparr>FloodAttackCount := 0, fd := - 1\<rparr>)
         (if fd (conns cs c) \<noteq> - 1 then cs\<lparr>closed_fds := fd (conns cs c) # closed_fds cs\<rparr> else cs))
       (ngx_free_connection c)"

text \<open>
  The pool as \<^verbatim>\<open>ngx_epoll_init\<close> builds it: one zeroed array of \<^verbatim>\<open>m_worker_connections\<close> cells.
\<close>

definition init_pool :: "csocket \<Rightarrow> csocket res" where
  "init_pool cs =
     (let n = nat (m_worker_connections cs);
          b = length (m_pconnections cs) in
      if m_worker_connections cs < 0 then Inl UncaughtException
      else res_bind
        (link_array b n
          (cs\<lparr>m_connection_n := m_worker_connections cs,
              m_pconnections := m_pconnections cs @ [n],
              conns := (\<lambda>p. if fst p = b \<and> snd p < n then zero_connection else conns cs p),
              m_pfree_connections := Some (b, 0),
              m_free_connection_n := m_worker_connections cs\<rparr>))
        Inr)"

section \<open>The free list\<close>

text \<open>\<open>free_path h x ps\<close>: following \<^verbatim>\<open>next\<close> from \<open>x\<close> visits exactly \<open>ps\<close> and ends in a null pointer.\<close>

fun free_path :: "(conn_ptr \<Rightarrow> ngx_connection) \<Rightarrow> conn_ptr option \<Rightarrow> conn_ptr list \<Rightarrow> bool" where
  "free_path h x [] \<longleftrightarrow> x = None"
| "free_path h x (p # ps) \<longleftrightarrow> x = Some p \<and> free_path h (c_next (h p)) ps"

text \<open>
  The invariant of the pool, with the list \<open>ps\<close> of free connections as its abstract value. The last
  conjunct is what the counter \<^verbatim>\<open>m_free_connection_n\<close> really counts: growth never adds to it.
\<close>

definition pool_inv :: "csocket \<Rightarrow> conn_ptr list \<Rightarrow> bool" where
  "pool_inv cs ps \<longleftrightarrow>
     free_path (conns cs) (m_pfree_connections cs) ps \<and> distinct ps \<and> (\<forall>p \<in> set ps. valid_conn cs p)
     \<and> m_connection_n cs = int (sum_list (m_pconnections cs))
     \<and> m_connection_n cs \<le> m_connection_n_max cs
     \<and> (m_connection_n_max cs - m_connection_n cs) mod 16 = 0
     \<and> (ps = [] \<longrightarrow> m_connection_n cs = m_connection_n_max cs)
     \<and> m_free_connection_n cs = int (length ps) - (m_connection_n cs - m_worker_connections cs)"

lemma free_path_unique: "free_path h x ps \<Longrightarrow> free_path h x qs \<Longrightarrow> ps = qs"
proof (induction ps arbitrary: x qs)
  case Nil
  then show ?case by (cases qs) auto
next
  case (Cons p ps)
  then show ?case by (cases qs) auto
qed

lemma free_path_cong:
  "free_path h x ps \<Longrightarrow> (\<And>p. p \<in> set ps \<Longrightarrow> c_next (h' p) = c_next (h p)) \<Longrightarrow> free_path h' x ps"
  by (induction ps arbitrary: x) auto

lemma free_path_upd: "p \<notin> set ps \<Longrightarrow> free_path (h(p := c)) x ps = free_path h x ps"
  by (induction ps arbitrary: x) auto

section \<open>Linking an array\<close>

lemma link_loop_frame:
  "link_loop b i n cs = Inr cs' \<Longrightarrow>
   m_pconnections cs' = m_pconnections cs \<and> m_connection_n cs' = m_connection_n cs
   \<and> m_connection_n_max cs' = m_connection_n_max cs \<and> m_free_connection_n cs' = m_free_connection_n cs
   \<and> m_worker_connections cs' = m_worker_connections cs
   \<and> m_pfree_connections cs' = m_pfree_connections cs \<and> obj_live cs' = obj_live cs
   \<and> (\<forall>p. fst p \<noteq> b \<longrightarrow> conns cs' p = conns cs p)"
  by (induction b i n cs rule: link_loop.induct) (auto simp: conn_upd_Inr_iff sock_simps conn_put_def)

lemma link_loop_result:
  assumes "b < length (m_pconnections cs)" and "i + n \<le> m_pconnections cs ! b"
  shows "\<exists>cs'. link_loop b i n cs = Inr cs' \<and>
    (\<forall>j. i \<le> j \<and> j < i + n \<longrightarrow> c_next (conns cs' (b, j)) = Some (b, j + 1)) \<and>
    (\<forall>j. j < i \<longrightarrow> conns cs' (b, j) = conns cs (b, j))"
  using assms
proof (induction b i n cs rule: link_loop.induct)
  case (2 b i n cs)
  let ?f = "\<lambda>t. t\<lparr>c_next := Some (b, i + 1), fd := - 1, c_instance := True, iCurrsequence := 0\<rparr>"
  have v: "valid_conn cs (b, i)" using "2.prems" by (simp add: valid_conn_def)
  let ?cs = "conn_put (b, i) (?f (conns cs (b, i))) cs"
  have "conn_upd (b, i) ?f cs = Inr ?cs" using v by (rule conn_upd_valid)
  then obtain cs' where cs': "link_loop b (i + 1) n ?cs = Inr cs'"
    "\<forall>j. i + 1 \<le> j \<and> j < i + 1 + n \<longrightarrow> c_next (conns cs' (b, j)) = Some (b, j + 1)"
    "\<forall>j. j < i + 1 \<longrightarrow> conns cs' (b, j) = conns ?cs (b, j)"
    using "2.IH" [of ?cs] "2.prems" by (auto simp: sock_simps)
  have "c_next (conns cs' (b, i)) = Some (b, i + 1)"
    using cs'(3) by (simp add: sock_simps)
  then have "\<forall>j. i \<le> j \<and> j < i + Suc n \<longrightarrow> c_next (conns cs' (b, j)) = Some (b, j + 1)"
    using cs'(2) by (metis Suc_eq_plus1 add_Suc_shift le_antisym not_less_eq_eq)
  moreover have "\<forall>j. j < i \<longrightarrow> conns cs' (b, j) = conns cs (b, j)"
    using cs'(3) by (auto simp: sock_simps)
  ultimately show ?case
    using cs'(1) \<open>conn_upd (b, i) ?f cs = Inr ?cs\<close> by auto
qed auto

lemma free_path_block:
  "(\<And>j. i \<le> j \<Longrightarrow> j < i + n \<Longrightarrow> c_next (h (b, j)) = (if j + 1 = i + n then None else Some (b, j + 1))) \<Longrightarrow>
   0 < n \<Longrightarrow> free_path h (Some (b, i)) (map (\<lambda>j. (b, j)) [i..<i + n])"
proof (induction n arbitrary: i)
  case (Suc n)
  show ?case
  proof (cases "n = 0")
    case True
    with Suc.prems(1) [of i] show ?thesis by (simp add: upt_rec)
  next
    case False
    have "free_path h (Some (b, Suc i)) (map (\<lambda>j. (b, j)) [Suc i..<Suc i + n])"
      using Suc.prems(1) False by (intro Suc.IH) auto
    moreover have "c_next (h (b, i)) = Some (b, Suc i)" using Suc.prems(1) [of i] False by simp
    ultimately show ?thesis by (simp add: upt_conv_Cons del: upt_Suc)
  qed
qed simp

text \<open>Linking all cells of an array makes them one free path and touches nothing else.\<close>

lemma link_array_result:
  assumes "b < length (m_pconnections cs)" and "m_pconnections cs ! b = n" and "0 < n"
  shows "\<exists>cs'. link_array b n cs = Inr cs' \<and>
    free_path (conns cs') (Some (b, 0)) (map (\<lambda>j. (b, j)) [0..<n]) \<and>
    m_pconnections cs' = m_pconnections cs \<and> m_connection_n cs' = m_connection_n cs
    \<and> m_connection_n_max cs' = m_connection_n_max cs \<and> m_free_connection_n cs' = m_free_connection_n cs
    \<and> m_worker_connections cs' = m_worker_connections cs
    \<and> m_pfree_connections cs' = m_pfree_connections cs \<and> obj_live cs' = obj_live cs
    \<and> (\<forall>p. fst p \<noteq> b \<longrightarrow> conns cs' p = conns cs p)"
proof -
  obtain cs1 where l: "link_loop b 0 (n - 1) cs = Inr cs1"
    "\<forall>j. j < n - 1 \<longrightarrow> c_next (conns cs1 (b, j)) = Some (b, j + 1)"
    using link_loop_result [of b cs 0 "n - 1"] assms by auto
  note fr = link_loop_frame [OF l(1)]
  have v: "valid_conn cs1 (b, n - 1)" using assms fr by (simp add: valid_conn_def)
  let ?cs = "conn_put (b, n - 1) ((conns cs1 (b, n - 1))\<lparr>c_next := None\<rparr>) cs1"
  have "link_array b n cs = Inr ?cs"
    using l(1) v by (simp add: link_array_def conn_upd_valid)
  moreover have "free_path (conns ?cs) (Some (b, 0)) (map (\<lambda>j. (b, j)) [0..<0 + n])"
  proof (rule free_path_block)
    fix j assume "j < 0 + n"
    then show "c_next (conns ?cs (b, j)) = (if j + 1 = 0 + n then None else Some (b, j + 1))"
      using l(2) by (cases "j = n - 1") (auto simp: sock_simps)
  qed (use assms in simp)
  moreover have "\<forall>p. fst p \<noteq> b \<longrightarrow> conns ?cs p = conns cs p"
    using fr by (auto simp: conn_put_def)
  ultimately show ?thesis using fr by (auto simp: sock_simps)
qed

section \<open>All connections of the pool\<close>

definition all_ptrs :: "nat list \<Rightarrow> conn_ptr list" where
  "all_ptrs bs = concat (map (\<lambda>b. map (\<lambda>j. (b, j)) [0..<bs ! b]) [0..<length bs])"

lemma set_all_ptrs: "p \<in> set (all_ptrs (m_pconnections cs)) \<longleftrightarrow> valid_conn cs p"
  by (cases p) (force simp: all_ptrs_def valid_conn_def)

lemma all_ptrs_snoc: "all_ptrs (bs @ [n]) = all_ptrs bs @ map (\<lambda>j. (length bs, j)) [0..<n]"
proof -
  let ?f = "\<lambda>b. map (\<lambda>j. (b, j)) [0..<(bs @ [n]) ! b]"
  have "map ?f [0..<length bs] = map (\<lambda>b. map (\<lambda>j. (b, j)) [0..<bs ! b]) [0..<length bs]"
    by (rule map_cong) (auto simp: nth_append)
  moreover have "all_ptrs (bs @ [n]) = concat (map ?f [0..<length bs]) @ ?f (length bs)"
    by (simp add: all_ptrs_def)
  ultimately show ?thesis by (simp only: all_ptrs_def nth_append_length)
qed

lemma distinct_all_ptrs: "distinct (all_ptrs bs)"
proof (induction bs rule: rev_induct)
  case (snoc n bs)
  then show ?case
    by (auto simp: all_ptrs_snoc distinct_map inj_on_def) (auto simp: all_ptrs_def)
qed (simp add: all_ptrs_def)

lemma length_all_ptrs: "length (all_ptrs bs) = sum_list bs"
  by (induction bs rule: rev_induct) (simp_all add: all_ptrs_snoc, simp add: all_ptrs_def)

section \<open>The interface: a pool of resources\<close>

text \<open>
  What the users of the pool rely on: \<open>rep s ps\<close> says that \<open>ps\<close> are the free resources, next one first,
  among all resources \<open>all_of s\<close>; \<open>get\<close> hands out the first one and may add new ones, \<open>put\<close> takes one back.
  \<open>idle\<close> resources are the ones that may be given back.
\<close>

locale resource_pool =
  fixes rep :: "'s \<Rightarrow> 'r list \<Rightarrow> bool"
    and all_of :: "'s \<Rightarrow> 'r list"
    and get :: "'x \<Rightarrow> 's \<Rightarrow> ('r option \<times> 's) res"
    and put :: "'r \<Rightarrow> 's \<Rightarrow> 's res"
    and idle :: "'s \<Rightarrow> 'r \<Rightarrow> bool"
  assumes all_distinct: "distinct (all_of s)"
    and get_None: "rep s [] \<Longrightarrow> get x s = Inr (None, s)"
    and get_Some: "rep s (p # ps) \<Longrightarrow>
      \<exists>s' new. get x s = Inr (Some p, s') \<and> rep s' (ps @ new) \<and> all_of s' = all_of s @ new
        \<and> idle s' p \<and> (\<forall>q \<in> set (all_of s). q \<noteq> p \<longrightarrow> idle s q \<longrightarrow> idle s' q)"
    and put_ok: "rep s ps \<Longrightarrow> r \<in> set (all_of s) \<Longrightarrow> r \<notin> set ps \<Longrightarrow> idle s r \<Longrightarrow>
      \<exists>s'. put r s = Inr s' \<and> rep s' (r # ps) \<and> all_of s' = all_of s
        \<and> (\<forall>q. q \<noteq> r \<longrightarrow> idle s q \<longrightarrow> idle s' q)"
begin

text \<open>
  Between calls every resource is either free or handed out once, and what is handed out may be given
  back.
\<close>

definition session :: "'s \<Rightarrow> 'r list \<Rightarrow> 'r list \<Rightarrow> bool" where
  "session s used ps \<longleftrightarrow>
     rep s ps \<and> mset used + mset ps = mset (all_of s) \<and> (\<forall>p \<in> set used. idle s p)"

lemma session_sets:
  assumes "session s used ps"
  shows "distinct used" and "set used \<inter> set ps = {}" and "set used \<subseteq> set (all_of s)"
    and "length used + length ps = length (all_of s)"
proof -
  have eq: "mset (used @ ps) = mset (all_of s)" using assms by (simp add: session_def)
  then have d: "distinct (used @ ps)" using all_distinct [of s] mset_eq_imp_distinct_iff by blast
  then show "distinct used" and "set used \<inter> set ps = {}" by auto
  show "set used \<subseteq> set (all_of s)" using mset_eq_setD [OF eq] by auto
  show "length used + length ps = length (all_of s)" using mset_eq_length [OF eq] by simp
qed

lemma session_get_None: "session s used [] \<Longrightarrow> get x s = Inr (None, s)"
  by (simp add: session_def get_None)

lemma session_get:
  assumes "session s used (p # ps)"
  shows "\<exists>s' new. get x s = Inr (Some p, s') \<and> session s' (p # used) (ps @ new) \<and> p \<notin> set used"
proof -
  obtain s' new where g: "get x s = Inr (Some p, s')" "rep s' (ps @ new)" "all_of s' = all_of s @ new"
    "idle s' p" "\<forall>q \<in> set (all_of s). q \<noteq> p \<longrightarrow> idle s q \<longrightarrow> idle s' q"
    using get_Some [of s p ps x] assms by (auto simp: session_def)
  have "p \<notin> set used" and "set used \<subseteq> set (all_of s)" using session_sets [OF assms] by auto
  then have "session s' (p # used) (ps @ new)"
    using g assms by (fastforce simp: session_def)
  with g \<open>p \<notin> set used\<close> show ?thesis by blast
qed

lemma session_put:
  assumes "session s used ps" and "r \<in> set used"
  shows "\<exists>s'. put r s = Inr s' \<and> session s' (remove1 r used) (r # ps)"
proof -
  have r: "r \<in> set (all_of s)" "r \<notin> set ps" "idle s r" "distinct used"
    using assms session_sets [OF assms(1)] by (auto simp: session_def)
  then obtain s' where s': "put r s = Inr s'" "rep s' (r # ps)" "all_of s' = all_of s"
    "\<forall>q. q \<noteq> r \<longrightarrow> idle s q \<longrightarrow> idle s' q"
    using put_ok [of s ps r] assms(1) by (auto simp: session_def)
  have "mset (remove1 r used) + mset (r # ps) = mset (all_of s')"
    using assms s'(3) r(1) by (simp add: session_def)
  moreover have "\<forall>p \<in> set (remove1 r used). idle s' p"
    using s'(4) assms(1) r(4) by (auto simp: session_def)
  ultimately show ?thesis using s' by (auto simp: session_def)
qed

end

section \<open>The pool refines the interface\<close>

lemma room16: "0 < (d :: int) \<Longrightarrow> d mod 16 = 0 \<Longrightarrow> 16 \<le> d"
  by presburger

lemma pool_inv_room:
  assumes "pool_inv cs ps" and "m_connection_n cs < m_connection_n_max cs"
  shows "m_connection_n cs + 16 \<le> m_connection_n_max cs"
    and "(m_connection_n_max cs - (m_connection_n cs + 16)) mod 16 = 0"
proof -
  have m: "(m_connection_n_max cs - m_connection_n cs) mod 16 = 0"
    using assms(1) by (auto simp: pool_inv_def)
  then show "m_connection_n cs + 16 \<le> m_connection_n_max cs"
    using assms(2) room16 [of "m_connection_n_max cs - m_connection_n cs"] by linarith
  show "(m_connection_n_max cs - (m_connection_n cs + 16)) mod 16 = 0"
    using m by presburger
qed

text \<open>A growth step, when the last free connection \<open>c\<close> is about to be handed out.\<close>

lemma grow_result:
  assumes inv: "pool_inv cs [c]" and room: "m_connection_n cs < m_connection_n_max cs"
  shows "\<exists>cs'. More_Connection_Pool CREATECONNUM c cs = Inr (True, cs') \<and>
    free_path (conns cs') (c_next (conns cs' c)) (map (\<lambda>j. (length (m_pconnections cs), j)) [0..<16])
    \<and> m_pconnections cs' = m_pconnections cs @ [16] \<and> m_connection_n cs' = m_connection_n cs + 16
    \<and> m_connection_n_max cs' = m_connection_n_max cs \<and> m_free_connection_n cs' = m_free_connection_n cs
    \<and> m_worker_connections cs' = m_worker_connections cs \<and> obj_live cs' = obj_live cs
    \<and> (\<forall>p. valid_conn cs p \<longrightarrow> p \<noteq> c \<longrightarrow> conns cs' p = conns cs p)
    \<and> (conns cs' c)\<lparr>c_next := None\<rparr> = (conns cs c)\<lparr>c_next := None\<rparr>"
proof -
  let ?b = "length (m_pconnections cs)"
  have fits: "m_connection_n cs + 16 \<le> m_connection_n_max cs"
    using inv room by (rule pool_inv_room)
  have vc: "valid_conn cs c" and c: "fst c < ?b" using inv by (auto simp: pool_inv_def valid_conn_def)
  let ?n = "new_connections 16 cs"
  have vn: "valid_conn ?n c" using vc by (simp add: valid_conn_def new_connections_def nth_append)
  let ?u = "conn_put c ((conns ?n c)\<lparr>c_next := Some (?b, 0)\<rparr>) ?n"
  have pc: "m_pconnections ?u = m_pconnections cs @ [16]" by (simp add: sock_simps new_connections_def)
  obtain cs2 where l: "link_array ?b 16 ?u = Inr cs2"
    "free_path (conns cs2) (Some (?b, 0)) (map (\<lambda>j. (?b, j)) [0..<16])"
    "m_pconnections cs2 = m_pconnections ?u" "m_connection_n cs2 = m_connection_n ?u"
    "m_connection_n_max cs2 = m_connection_n_max ?u" "m_free_connection_n cs2 = m_free_connection_n ?u"
    "m_worker_connections cs2 = m_worker_connections ?u" "obj_live cs2 = obj_live ?u"
    "\<forall>p. fst p \<noteq> ?b \<longrightarrow> conns cs2 p = conns ?u p"
    using link_array_result [of ?b ?u 16] pc by auto
  have cc: "conns cs2 c = (conns cs c)\<lparr>c_next := Some (?b, 0)\<rparr>"
    using l(9) [rule_format, of c] c by (simp add: sock_simps new_connections_def)
  have rest: "\<forall>p. valid_conn cs p \<longrightarrow> p \<noteq> c \<longrightarrow> conns cs2 p = conns cs p"
    using l(9) by (auto simp: sock_simps new_connections_def valid_conn_def)
  show ?thesis
    using fits vn l cc rest
    by (simp add: More_Connection_Pool_def CREATECONNUM_def conn_upd_valid sock_simps new_connections_def)
qed

lemma grow_none:
  "m_connection_n cs = m_connection_n_max cs \<Longrightarrow> More_Connection_Pool CREATECONNUM c cs = Inr (False, cs)"
  by (simp add: More_Connection_Pool_def CREATECONNUM_def)

definition handed_out :: "int \<Rightarrow> ngx_connection \<Rightarrow> ngx_connection" where
  "handed_out isock old =
     zero_connection\<lparr>fd := isock, c_instance := \<not> c_instance old, iCurrsequence := iCurrsequence old + 1\<rparr>"

lemma get_connection_tail:
  assumes inv: "pool_inv cs (c # q # ps)"
  shows "\<exists>cs'. ngx_get_connection isock cs = Inr (Some c, cs') \<and> pool_inv cs' (q # ps)
    \<and> m_pconnections cs' = m_pconnections cs \<and> obj_live cs' = obj_live cs
    \<and> conns cs' = (conns cs)(c := handed_out isock (conns cs c))"
proof -
  have c: "m_pfree_connections cs = Some c" "valid_conn cs c" "c_next (conns cs c) = Some q"
    using inv by (auto simp: pool_inv_def)
  let ?cs = "conn_put c (handed_out isock (conns cs c))
    (cs\<lparr>m_pfree_connections := c_next (conns cs c), m_free_connection_n := m_free_connection_n cs - 1\<rparr>)"
  have g: "ngx_get_connection isock cs = Inr (Some c, ?cs)"
    using c by (simp add: ngx_get_connection_def handed_out_def Let_def)
  have nm: "c \<notin> set (q # ps)" using inv by (auto simp: pool_inv_def)
  have "pool_inv ?cs (q # ps)"
    using inv nm by (auto simp: pool_inv_def conn_put_def valid_conn_def free_path_upd)
  with g show ?thesis by (simp add: conn_put_def)
qed

lemma get_connection_last:
  assumes inv: "pool_inv cs [c]"
  shows "\<exists>cs' new. ngx_get_connection isock cs = Inr (Some c, cs') \<and> pool_inv cs' new
    \<and> all_ptrs (m_pconnections cs') = all_ptrs (m_pconnections cs) @ new
    \<and> obj_live cs' = obj_live cs
    \<and> (\<forall>p. valid_conn cs p \<longrightarrow> p \<noteq> c \<longrightarrow> conns cs' p = conns cs p)
    \<and> conns cs' c = handed_out isock (conns cs c)"
proof -
  have c: "m_pfree_connections cs = Some c" "valid_conn cs c" "c_next (conns cs c) = None"
    using inv by (auto simp: pool_inv_def)
  let ?take = "\<lambda>s. conn_put c (handed_out isock (conns s c))
    (s\<lparr>m_pfree_connections := c_next (conns s c), m_free_connection_n := m_free_connection_n s - 1\<rparr>)"
  show ?thesis
  proof (cases "m_connection_n cs < m_connection_n_max cs")
    case True
    let ?new = "map (\<lambda>j. (length (m_pconnections cs), j)) [0..<16]"
    obtain s where s: "More_Connection_Pool CREATECONNUM c cs = Inr (True, s)"
      "free_path (conns s) (c_next (conns s c)) ?new"
      "m_pconnections s = m_pconnections cs @ [16]" "m_connection_n s = m_connection_n cs + 16"
      "m_connection_n_max s = m_connection_n_max cs" "m_free_connection_n s = m_free_connection_n cs"
      "m_worker_connections s = m_worker_connections cs" "obj_live s = obj_live cs"
      "\<forall>p. valid_conn cs p \<longrightarrow> p \<noteq> c \<longrightarrow> conns s p = conns cs p"
      "(conns s c)\<lparr>c_next := None\<rparr> = (conns cs c)\<lparr>c_next := None\<rparr>"
      using grow_result [OF inv True] by blast
    have keep: "c_instance (conns s c) = c_instance (conns cs c)"
      "iCurrsequence (conns s c) = iCurrsequence (conns cs c)"
      using arg_cong [OF s(10), of c_instance] arg_cong [OF s(10), of iCurrsequence] by simp_all
    have g: "ngx_get_connection isock cs = Inr (Some c, ?take s)"
      using c s(1) by (simp add: ngx_get_connection_def handed_out_def Let_def)
    have nm: "c \<notin> set ?new" using c(2) by (auto simp: valid_conn_def)
    have "free_path (conns (?take s)) (m_pfree_connections (?take s)) ?new"
      using s(2) nm by (simp add: conn_put_def free_path_upd)
    moreover have "\<forall>p \<in> set ?new. valid_conn (?take s) p"
      using s(3) by (auto simp: valid_conn_def sock_simps)
    moreover have "distinct ?new" by (simp add: distinct_map inj_on_def)
    ultimately have "pool_inv (?take s) ?new"
      using inv s(3-7) pool_inv_room [OF inv True]
      unfolding pool_inv_def by (simp add: sock_simps)
    then show ?thesis
      using g s keep
      by (intro exI [of _ "?take s"] exI [of _ ?new])
        (auto simp: sock_simps all_ptrs_snoc handed_out_def)
  next
    case False
    then have full: "m_connection_n cs = m_connection_n_max cs" using inv by (simp add: pool_inv_def)
    have g: "ngx_get_connection isock cs = Inr (Some c, ?take cs)"
      using c grow_none [OF full] by (simp add: ngx_get_connection_def handed_out_def Let_def)
    have "pool_inv (?take cs) []"
      using inv c(3) full by (simp add: pool_inv_def sock_simps)
    then show ?thesis
      using g by (intro exI [of _ "?take cs"] exI [of _ "[]"]) (auto simp: sock_simps)
  qed
qed

lemma free_connection_result:
  assumes inv: "pool_inv cs ps" and v: "valid_conn cs r" and nm: "r \<notin> set ps"
    and ob: "logicObj (conns cs r) = None"
  shows "\<exists>cs'. ngx_free_connection r cs = Inr cs' \<and> pool_inv cs' (r # ps)
    \<and> m_pconnections cs' = m_pconnections cs
    \<and> conns cs' = (conns cs)(r := (conns cs r)\<lparr>c_next := m_pfree_connections cs,
                                    iCurrsequence := iCurrsequence (conns cs r) + 1\<rparr>)"
proof -
  let ?r = "(conns cs r)\<lparr>c_next := m_pfree_connections cs, iCurrsequence := iCurrsequence (conns cs r) + 1\<rparr>"
  let ?cs = "(conn_put r ?r cs)\<lparr>m_pfree_connections := Some r, m_free_connection_n := m_free_connection_n cs + 1\<rparr>"
  have "ngx_free_connection r cs = Inr ?cs"
    using v ob by (simp add: ngx_free_connection_def sock_simps delete_obj_def)
  moreover have "pool_inv ?cs (r # ps)"
    using inv v nm by (auto simp: pool_inv_def conn_put_def valid_conn_def free_path_upd)
  ultimately show ?thesis by (simp add: conn_put_def)
qed

interpretation cp: resource_pool
  pool_inv "\<lambda>cs. all_ptrs (m_pconnections cs)" ngx_get_connection ngx_free_connection
  "\<lambda>cs p. logicObj (conns cs p) = None"
proof (unfold_locales, goal_cases)
  case (1 s)
  show ?case by (rule distinct_all_ptrs)
next
  case (2 s x)
  then show ?case by (simp add: pool_inv_def ngx_get_connection_def)
next
  case (3 s p ps x)
  show ?case
  proof (cases ps)
    case Nil
    then show ?thesis
      using 3 get_connection_last [of s p x]
      by (auto simp: set_all_ptrs handed_out_def zero_connection_def)
  next
    case (Cons q qs)
    then show ?thesis
      using 3 get_connection_tail [of s p q qs x]
      by (auto simp: handed_out_def zero_connection_def)
  qed
next
  case (4 s ps r)
  then show ?case
    using free_connection_result [of s ps r] by (auto simp: set_all_ptrs)
qed

section \<open>Sessions on the pool\<close>

text \<open>
  Any sequence of \<^verbatim>\<open>ngx_get_connection\<close> and \<^verbatim>\<open>ngx_free_connection\<close> calls, where what is freed is one of the
  connections handed out and not freed yet (\<open>PFree k\<close>: the k-th of them).
\<close>

datatype pool_op = PGet int | PFree nat

fun pool_run :: "pool_op list \<Rightarrow> csocket \<times> conn_ptr list \<Rightarrow> (csocket \<times> conn_ptr list) res" where
  "pool_run [] (cs, used) = Inr (cs, used)"
| "pool_run (PGet isock # ops) (cs, used) =
     res_bind (ngx_get_connection isock cs)
       (\<lambda>(r, cs'). pool_run ops (cs', case r of None \<Rightarrow> used | Some p \<Rightarrow> p # used))"
| "pool_run (PFree k # ops) (cs, used) =
     (if k < length used
      then res_bind (ngx_free_connection (used ! k) cs) (\<lambda>cs'. pool_run ops (cs', remove1 (used ! k) used))
      else pool_run ops (cs, used))"

lemma new_max [simp]: "m_connection_n_max (new_connections n cs) = m_connection_n_max cs"
  by (simp add: new_connections_def)

lemma conn_upd_max: "conn_upd p f cs = Inr cs' \<Longrightarrow> m_connection_n_max cs' = m_connection_n_max cs"
  by (auto simp: conn_upd_Inr_iff sock_simps)

lemma link_array_max: "link_array b n cs = Inr cs' \<Longrightarrow> m_connection_n_max cs' = m_connection_n_max cs"
  by (auto simp: link_array_def dest!: link_loop_frame conn_upd_max)

lemma grow_max: "More_Connection_Pool k c cs = Inr (r, cs') \<Longrightarrow> m_connection_n_max cs' = m_connection_n_max cs"
  by (auto simp: More_Connection_Pool_def Let_def split: if_splits dest!: link_array_max conn_upd_max)

lemma get_max: "ngx_get_connection isock cs = Inr (r, cs') \<Longrightarrow> m_connection_n_max cs' = m_connection_n_max cs"
  by (auto simp: ngx_get_connection_def Let_def sock_simps split: option.splits if_splits dest!: grow_max)

lemma delete_obj_max: "delete_obj ob cs = Inr cs' \<Longrightarrow> m_connection_n_max cs' = m_connection_n_max cs"
  by (auto simp: delete_obj_def split: option.splits if_splits)

lemma free_max: "ngx_free_connection c cs = Inr cs' \<Longrightarrow> m_connection_n_max cs' = m_connection_n_max cs"
  by (auto simp: ngx_free_connection_def dest!: delete_obj_max conn_upd_max)

lemma init_pool_result:
  assumes "m_pconnections cs = []" and "1 \<le> m_worker_connections cs"
    and "m_connection_n_max cs = m_worker_connections cs + m_worker_connections cs div 2"
    and "(m_worker_connections cs div 2) mod 16 = 0"
  shows "\<exists>cs'. init_pool cs = Inr cs' \<and> cp.session cs' [] (all_ptrs (m_pconnections cs'))
    \<and> m_connection_n_max cs' = m_connection_n_max cs"
proof -
  let ?n = "nat (m_worker_connections cs)"
  let ?c = "cs\<lparr>m_connection_n := m_worker_connections cs, m_pconnections := m_pconnections cs @ [?n],
    conns := (\<lambda>p. if fst p = length (m_pconnections cs) \<and> snd p < ?n then zero_connection else conns cs p),
    m_pfree_connections := Some (length (m_pconnections cs), 0),
    m_free_connection_n := m_worker_connections cs\<rparr>"
  obtain cs' where l: "link_array 0 ?n ?c = Inr cs'"
    "free_path (conns cs') (Some (0, 0)) (map (\<lambda>j. (0, j)) [0..<?n])"
    "m_pconnections cs' = [?n]" "m_connection_n cs' = m_worker_connections cs"
    "m_connection_n_max cs' = m_connection_n_max cs" "m_free_connection_n cs' = m_worker_connections cs"
    "m_worker_connections cs' = m_worker_connections cs" "m_pfree_connections cs' = Some (0, 0)"
    using link_array_result [of 0 ?c ?n] assms(1,2) by auto
  have ap: "all_ptrs (m_pconnections cs') = map (\<lambda>j. (0, j)) [0..<?n]"
    by (simp add: l(3) all_ptrs_def)
  have "pool_inv cs' (map (\<lambda>j. (0, j)) [0..<?n])"
    using l assms by (auto simp: pool_inv_def valid_conn_def distinct_map inj_on_def)
  then have "cp.session cs' [] (all_ptrs (m_pconnections cs'))"
    by (simp add: cp.session_def ap)
  moreover have "init_pool cs = Inr cs'"
    using l(1) assms(1,2) by (simp add: init_pool_def Let_def)
  ultimately show ?thesis using l(5) by blast
qed

lemma pool_run_session:
  "cp.session cs used ps \<Longrightarrow>
   \<exists>cs' used' ps'. pool_run ops (cs, used) = Inr (cs', used') \<and> cp.session cs' used' ps'
     \<and> m_connection_n_max cs' = m_connection_n_max cs"
proof (induction ops arbitrary: cs used ps)
  case (Cons op ops)
  show ?case
  proof (cases op)
    case (PGet isock)
    show ?thesis
    proof (cases ps)
      case Nil
      then show ?thesis using Cons PGet cp.session_get_None [of cs used isock] by simp
    next
      case (Cons p qs)
      then obtain cs1 new where "ngx_get_connection isock cs = Inr (Some p, cs1)"
        "cp.session cs1 (p # used) (qs @ new)"
        using Cons.prems cp.session_get [of cs used p qs isock] by blast
      then show ?thesis
        using Cons.IH [of cs1 "p # used" "qs @ new"] PGet get_max [of isock cs "Some p" cs1] by auto
    qed
  next
    case (PFree k)
    show ?thesis
    proof (cases "k < length used")
      case True
      then obtain cs1 where "ngx_free_connection (used ! k) cs = Inr cs1"
        "cp.session cs1 (remove1 (used ! k) used) (used ! k # ps)"
        using Cons.prems cp.session_put [of cs used ps "used ! k"] by auto
      then show ?thesis
        using Cons.IH [of cs1] PFree True free_max [of "used ! k" cs cs1] by auto
    next
      case False
      then show ?thesis using Cons PFree by auto
    qed
  qed
qed auto

lemma session_bounds:
  assumes "cp.session cs used ps"
  shows "int (length used) + int (length ps) = m_connection_n cs"
    and "m_connection_n cs \<le> m_connection_n_max cs"
    and "\<forall>p \<in> set used. valid_conn cs p" and "distinct used"
    and "ps = [] \<longleftrightarrow> int (length used) = m_connection_n_max cs"
proof -
  have inv: "pool_inv cs ps" using assms by (simp add: cp.session_def)
  show eq: "int (length used) + int (length ps) = m_connection_n cs"
    using cp.session_sets(4) [OF assms] inv by (simp add: length_all_ptrs pool_inv_def)
  show le: "m_connection_n cs \<le> m_connection_n_max cs" using inv by (auto simp: pool_inv_def)
  show "\<forall>p \<in> set used. valid_conn cs p"
    using cp.session_sets(3) [OF assms] by (auto simp flip: set_all_ptrs)
  show "distinct used" by (rule cp.session_sets(1) [OF assms])
  show "ps = [] \<longleftrightarrow> int (length used) = m_connection_n_max cs"
  proof
    assume "ps = []"
    then show "int (length used) = m_connection_n_max cs" using inv eq by (simp add: pool_inv_def)
  next
    assume "int (length used) = m_connection_n_max cs"
    then show "ps = []" using eq le by (cases ps) auto
  qed
qed

section \<open>Sequence numbers\<close>

text \<open>Every hand-out and every release of a connection adds one to its \<^verbatim>\<open>iCurrsequence\<close>; nothing else changes it.\<close>

lemma get_sequence:
  assumes "cp.session cs used ps" and "ngx_get_connection isock cs = Inr (r, cs')" and "valid_conn cs p"
  shows "iCurrsequence (conns cs' p) = iCurrsequence (conns cs p) + (if r = Some p then 1 else 0)
    \<and> valid_conn cs' p"
proof -
  have inv: "pool_inv cs ps" using assms(1) by (simp add: cp.session_def)
  show ?thesis
  proof (cases ps)
    case Nil
    then show ?thesis using assms cp.session_get_None [of cs used isock] by simp
  next
    case (Cons c qs)
    have keep: "conns cs' c = handed_out isock (conns cs c) \<Longrightarrow>
        (\<forall>p. valid_conn cs p \<longrightarrow> p \<noteq> c \<longrightarrow> conns cs' p = conns cs p) \<Longrightarrow> r = Some c \<Longrightarrow>
        iCurrsequence (conns cs' p) = iCurrsequence (conns cs p) + (if r = Some p then 1 else 0)"
      using assms(3) by (cases "p = c") (auto simp: handed_out_def simp del: split_paired_All)
    show ?thesis
    proof (cases qs)
      case Nil
      then obtain new where "r = Some c" "all_ptrs (m_pconnections cs') = all_ptrs (m_pconnections cs) @ new"
        "\<forall>p. valid_conn cs p \<longrightarrow> p \<noteq> c \<longrightarrow> conns cs' p = conns cs p" "conns cs' c = handed_out isock (conns cs c)"
        using get_connection_last [of cs c isock] inv Cons assms(2) by auto
      then show ?thesis using keep assms(3) by (simp flip: set_all_ptrs)
    next
      case (Cons q qs')
      then have "r = Some c" "m_pconnections cs' = m_pconnections cs"
        "conns cs' = (conns cs)(c := handed_out isock (conns cs c))"
        using get_connection_tail [of cs c q qs' isock] inv \<open>ps = c # qs\<close> assms(2) by auto
      then show ?thesis using keep assms(3) by (auto simp: valid_conn_def)
    qed
  qed
qed

lemma free_sequence:
  assumes "cp.session cs used ps" and "r \<in> set used" and "ngx_free_connection r cs = Inr cs'"
    and "valid_conn cs p"
  shows "iCurrsequence (conns cs' p) = iCurrsequence (conns cs p) + (if r = p then 1 else 0)
    \<and> valid_conn cs' p"
proof -
  have "valid_conn cs r" "r \<notin> set ps" "logicObj (conns cs r) = None" "pool_inv cs ps"
    using assms(1,2) session_bounds(3) [OF assms(1)] cp.session_sets(2) [OF assms(1)]
    by (auto simp: cp.session_def)
  then obtain "m_pconnections cs' = m_pconnections cs"
    "conns cs' = (conns cs)(r := (conns cs r)\<lparr>c_next := m_pfree_connections cs,
       iCurrsequence := iCurrsequence (conns cs r) + 1\<rparr>)"
    using free_connection_result [of cs ps r] assms(3) by auto
  then show ?thesis using assms(4) by (auto simp: valid_conn_def)
qed

lemma pool_run_sequence:
  "cp.session cs used ps \<Longrightarrow> pool_run ops (cs, used) = Inr (cs', used') \<Longrightarrow> valid_conn cs p \<Longrightarrow>
   \<exists>m \<le> length ops. iCurrsequence (conns cs' p) = iCurrsequence (conns cs p) + word_of_nat m"
proof (induction ops arbitrary: cs used ps)
  case Nil
  then show ?case by (intro exI [of _ 0]) auto
next
  case (Cons op ops)
  have next_step: "\<exists>m \<le> length (op # ops). iCurrsequence (conns cs' p) = iCurrsequence (conns cs p) + word_of_nat m"
    if "cp.session cs1 used1 ps1" "pool_run ops (cs1, used1) = Inr (cs', used')" "valid_conn cs1 p"
      "iCurrsequence (conns cs1 p) = iCurrsequence (conns cs p) + (if b then 1 else 0)" for cs1 used1 ps1 b
  proof -
    note IH = Cons.IH [OF that(1-3)] and inc = that(4)
    obtain m where "m \<le> length ops" "iCurrsequence (conns cs' p) = iCurrsequence (conns cs1 p) + word_of_nat m"
      using IH by blast
    then show ?thesis
      using inc by (intro exI [of _ "m + (if b then 1 else 0)"]) (auto simp: add_ac)
  qed
  show ?case
  proof (cases op)
    case (PGet isock)
    then obtain r cs1 where g: "ngx_get_connection isock cs = Inr (r, cs1)"
      "pool_run ops (cs1, case r of None \<Rightarrow> used | Some p \<Rightarrow> p # used) = Inr (cs', used')"
      using Cons.prems by auto
    have "\<exists>ps1. cp.session cs1 (case r of None \<Rightarrow> used | Some p \<Rightarrow> p # used) ps1"
      using Cons.prems(1) g(1) cp.session_get_None [of cs used isock] cp.session_get [of cs used _ _ isock]
      by (cases ps) fastforce+
    then show ?thesis
      using g get_sequence [OF Cons.prems(1) g(1) Cons.prems(3)] next_step by blast
  next
    case (PFree k)
    show ?thesis
    proof (cases "k < length used")
      case True
      then obtain cs1 where f: "ngx_free_connection (used ! k) cs = Inr cs1"
        "pool_run ops (cs1, remove1 (used ! k) used) = Inr (cs', used')"
        using Cons.prems PFree by auto
      moreover have "cp.session cs1 (remove1 (used ! k) used) (used ! k # ps)"
        using cp.session_put [OF Cons.prems(1), of "used ! k"] True f(1) by auto
      ultimately show ?thesis
        using free_sequence [OF Cons.prems(1) _ f(1) Cons.prems(3)] True next_step by simp
    next
      case False
      then show ?thesis using next_step [of cs used ps False] Cons.prems PFree by simp
    qed
  qed
qed

section \<open>Growth that does not fit\<close>

lemma link_loop_over:
  "b < length (m_pconnections cs) \<Longrightarrow> i \<le> m_pconnections cs ! b \<Longrightarrow> m_pconnections cs ! b < i + n \<Longrightarrow>
   link_loop b i n cs = Inl OutOfBounds"
proof (induction b i n cs rule: link_loop.induct)
  case (2 b i n cs)
  show ?case
  proof (cases "i < m_pconnections cs ! b")
    case True
    then have "valid_conn cs (b, i)" using "2.prems" by (simp add: valid_conn_def)
    then show ?thesis using 2 True by (simp add: sock_simps)
  next
    case False
    then have "\<not> valid_conn cs (b, i)" using "2.prems" by (simp add: valid_conn_def)
    then show ?thesis by (simp add: conn_upd_def)
  qed
qed simp

lemma link_array_over:
  assumes "b < length (m_pconnections cs)" and "m_pconnections cs ! b < n"
  shows "link_array b n cs = Inl OutOfBounds"
proof (cases "m_pconnections cs ! b < n - 1")
  case True
  then show ?thesis using assms link_loop_over [of b cs 0 "n - 1"] by (simp add: link_array_def)
next
  case False
  then have sz: "m_pconnections cs ! b = n - 1" using assms by simp
  then obtain cs' where "link_loop b 0 (n - 1) cs = Inr cs'"
    using link_loop_result [of b cs 0 "n - 1"] assms by auto
  moreover have "\<not> valid_conn cs' (b, n - 1)"
    using link_loop_frame [OF calculation] sz by (simp add: valid_conn_def)
  ultimately show ?thesis by (simp add: link_array_def conn_upd_def)
qed

section \<open>Properties\<close>

text \<open>
  C4. Start from the pool \<^verbatim>\<open>ngx_epoll_init\<close> builds for \<^verbatim>\<open>worker_connections\<close> connections, with half of
  that number a multiple of sixteen (as 1024 is). Then every sequence of \<^verbatim>\<open>ngx_get_connection\<close> and
  \<^verbatim>\<open>ngx_free_connection\<close> calls runs without a fault, growth included; no connection is handed out
  again before it is freed; all of them are cells of allocated arrays; and the pool never holds more
  than \<^verbatim>\<open>m_connection_n_max\<close> connections.
\<close>

theorem pool_hands_out_once:
  assumes "m_pconnections cs = []" and "1 \<le> m_worker_connections cs"
    and "m_connection_n_max cs = m_worker_connections cs + m_worker_connections cs div 2"
    and "(m_worker_connections cs div 2) mod 16 = 0"
  shows "\<exists>cs1. init_pool cs = Inr cs1 \<and>
    (\<forall>ops. \<exists>cs' used. pool_run ops (cs1, []) = Inr (cs', used) \<and> distinct used
       \<and> (\<forall>p \<in> set used. valid_conn cs' p)
       \<and> int (length used) \<le> m_connection_n cs' \<and> m_connection_n cs' \<le> m_connection_n_max cs)"
proof -
  obtain cs1 where init: "init_pool cs = Inr cs1"
    and ses: "cp.session cs1 [] (all_ptrs (m_pconnections cs1))"
    and mx: "m_connection_n_max cs1 = m_connection_n_max cs"
    using init_pool_result [OF assms] by blast
  have "\<exists>cs' used. pool_run ops (cs1, []) = Inr (cs', used) \<and> distinct used
       \<and> (\<forall>p \<in> set used. valid_conn cs' p)
       \<and> int (length used) \<le> m_connection_n cs' \<and> m_connection_n cs' \<le> m_connection_n_max cs" for ops
  proof -
    obtain cs' used ps where run: "pool_run ops (cs1, []) = Inr (cs', used)"
      and s: "cp.session cs' used ps" and mx': "m_connection_n_max cs' = m_connection_n_max cs1"
      using pool_run_session [OF ses] by blast
    have "int (length used) \<le> m_connection_n cs'" using session_bounds(1) [OF s] by linarith
    then show ?thesis
      using run session_bounds(2-4) [OF s] mx mx' by auto
  qed
  with init show ?thesis by blast
qed

definition sample_socket :: csocket where
  "sample_socket =
     \<lparr>m_worker_connections = 32, m_ListenPortCount = 1, m_ListenSocketList = [], m_ETflag = 1,
      m_floodAkEnable = 1, m_floodTimeInterval = 100, m_floodKickCount = 10, m_pconnections = [],
      conns = (\<lambda>_. zero_connection), m_pfree_connections = None, m_connection_n = 0,
      m_free_connection_n = 0, m_connection_n_max = 48, m_recyconnectionList = [],
      m_timerQueuemap = [], m_PingMutex = False, m_shutdown = False, m_onlineUserCount = 0,
      mem = (\<lambda>_. None), mem_next = 0, obj_live = (\<lambda>_. False), obj_next = 0,
      timers = empty_Timer, tasks = [], epoll_set = (\<lambda>_. None), closed_fds = []\<rparr>"

theorem pool_hands_out_once_witness:
  "m_worker_connections sample_socket = 32 \<and>
   (\<exists>cs1. init_pool sample_socket = Inr cs1 \<and>
     (\<exists>cs' used. pool_run (replicate 40 (PGet 7)) (cs1, []) = Inr (cs', used) \<and> distinct used))"
proof -
  have h: "m_pconnections sample_socket = []" "1 \<le> m_worker_connections sample_socket"
    "m_connection_n_max sample_socket =
      m_worker_connections sample_socket + m_worker_connections sample_socket div 2"
    "(m_worker_connections sample_socket div 2) mod 16 = 0" "m_worker_connections sample_socket = 32"
    by (simp_all add: sample_socket_def)
  show ?thesis using pool_hands_out_once [OF h(1-4)] h(5) by metis
qed

text \<open>
  C27. In such a session \<^verbatim>\<open>ngx_get_connection\<close> returns null exactly when all \<^verbatim>\<open>m_connection_n_max\<close>
  connections are in use: as long as one is free or the pool may still grow, it returns a connection.
\<close>

theorem get_connection_null_iff_exhausted:
  assumes "m_pconnections cs = []" and "1 \<le> m_worker_connections cs"
    and "m_connection_n_max cs = m_worker_connections cs + m_worker_connections cs div 2"
    and "(m_worker_connections cs div 2) mod 16 = 0"
    and "init_pool cs = Inr cs1" and "pool_run ops (cs1, []) = Inr (cs', used)"
  shows "((\<exists>cs2. ngx_get_connection isock cs' = Inr (None, cs2)) \<longleftrightarrow>
      int (length used) = m_connection_n_max cs) \<and>
    (\<exists>r cs2. ngx_get_connection isock cs' = Inr (r, cs2))"
proof -
  have ses: "cp.session cs1 [] (all_ptrs (m_pconnections cs1))"
    and mx: "m_connection_n_max cs1 = m_connection_n_max cs"
    using init_pool_result [OF assms(1-4)] assms(5) by auto
  obtain ps where s: "cp.session cs' used ps" and mx': "m_connection_n_max cs' = m_connection_n_max cs1"
    using pool_run_session [OF ses, of ops] assms(6) by auto
  have "(\<exists>cs2. ngx_get_connection isock cs' = Inr (None, cs2)) \<longleftrightarrow> ps = []"
    and defd: "\<exists>r cs2. ngx_get_connection isock cs' = Inr (r, cs2)"
    using s cp.session_get_None [of cs' used isock] cp.session_get [of cs' used _ _ isock]
    by (cases ps; fastforce)+
  then show ?thesis using defd session_bounds(5) [OF s] mx mx' by simp
qed

theorem get_connection_null_iff_exhausted_witness:
  "\<exists>cs1. init_pool sample_socket = Inr cs1 \<and>
     ((\<exists>cs2. ngx_get_connection 7 cs1 = Inr (None, cs2)) \<longleftrightarrow> int (length ([] :: conn_ptr list)) = 48)"
proof -
  have h: "m_pconnections sample_socket = []" "1 \<le> m_worker_connections sample_socket"
    "m_connection_n_max sample_socket =
      m_worker_connections sample_socket + m_worker_connections sample_socket div 2"
    "(m_worker_connections sample_socket div 2) mod 16 = 0" and mx: "m_connection_n_max sample_socket = 48"
    by (simp_all add: sample_socket_def)
  obtain cs1 where i: "init_pool sample_socket = Inr cs1" using init_pool_result [OF h] by blast
  have r: "pool_run [] (cs1, []) = Inr (cs1, [])" by simp
  show ?thesis using i get_connection_null_iff_exhausted [OF h i r, of 7] mx by metis
qed

text \<open>
  C39. When the last free connection is taken and the pool may grow by fewer than sixteen,
  \<^verbatim>\<open>More_Connection_Pool\<close> allocates the smaller array but links sixteen cells: the call writes behind
  the array.
\<close>

theorem growth_overruns_small_array:
  assumes "m_pfree_connections cs = Some c" and "valid_conn cs c" and "c_next (conns cs c) = None"
    and "m_connection_n cs < m_connection_n_max cs" and "m_connection_n_max cs < m_connection_n cs + 16"
  shows "ngx_get_connection isock cs = Inl OutOfBounds"
proof -
  let ?b = "length (m_pconnections cs)"
  let ?k = "nat (m_connection_n_max cs - m_connection_n cs)"
  have v: "valid_conn (new_connections ?k cs) c"
    using assms(2) by (simp add: valid_conn_def new_connections_def nth_append)
  let ?u = "conn_put c ((conns (new_connections ?k cs) c)\<lparr>c_next := Some (?b, 0)\<rparr>) (new_connections ?k cs)"
  have "link_array ?b 16 ?u = Inl OutOfBounds"
    using assms(4,5) by (intro link_array_over) (simp_all add: sock_simps new_connections_def)
  then have "More_Connection_Pool CREATECONNUM c cs = Inl OutOfBounds"
    using assms(4,5) v by (simp add: More_Connection_Pool_def CREATECONNUM_def conn_upd_valid)
  then show ?thesis using assms(1-3) by (simp add: ngx_get_connection_def)
qed

theorem growth_overruns_small_array_witness:
  "ngx_get_connection 7 (sample_socket\<lparr>m_worker_connections := 1, m_pconnections := [1],
     m_pfree_connections := Some (0, 0), m_connection_n := 1, m_connection_n_max := 6\<rparr>) = Inl OutOfBounds"
  by (rule growth_overruns_small_array [of _ "(0, 0)"])
    (simp_all add: sample_socket_def valid_conn_def zero_connection_def)

text \<open>
  C28. Stale messages are recognisable: once a connection has been freed, its sequence number differs
  from the one it had while it was handed out, whatever calls follow, for fewer than \<open>2 ^ 64\<close> of them.
\<close>

theorem freed_connection_is_stale:
  assumes "m_pconnections cs = []" and "1 \<le> m_worker_connections cs"
    and "m_connection_n_max cs = m_worker_connections cs + m_worker_connections cs div 2"
    and "(m_worker_connections cs div 2) mod 16 = 0"
    and "init_pool cs = Inr cs1" and "pool_run ops (cs1, []) = Inr (cs2, used)"
    and "k < length used" and "pool_run (PFree k # ops') (cs2, used) = Inr (cs3, used3)"
    and "length ops' + 1 < 2 ^ 64"
  shows "iCurrsequence (conns cs3 (used ! k)) \<noteq> iCurrsequence (conns cs2 (used ! k))"
proof -
  have ses: "cp.session cs1 [] (all_ptrs (m_pconnections cs1))"
    using init_pool_result [OF assms(1-4)] assms(5) by auto
  obtain ps where s: "cp.session cs2 used ps"
    using pool_run_session [OF ses, of ops] assms(6) by auto
  let ?p = "used ! k"
  have v: "valid_conn cs2 ?p" using session_bounds(3) [OF s] assms(7) by simp
  obtain cs' where f: "ngx_free_connection ?p cs2 = Inr cs'"
    and run: "pool_run ops' (cs', remove1 ?p used) = Inr (cs3, used3)"
    using assms(7,8) by auto
  have s': "cp.session cs' (remove1 ?p used) (?p # ps)"
    using cp.session_put [OF s, of ?p] assms(7) f by auto
  have seq': "iCurrsequence (conns cs' ?p) = iCurrsequence (conns cs2 ?p) + 1" "valid_conn cs' ?p"
    using free_sequence [OF s _ f v] assms(7) by auto
  obtain m where m: "m \<le> length ops'"
    "iCurrsequence (conns cs3 ?p) = iCurrsequence (conns cs' ?p) + word_of_nat m"
    using pool_run_sequence [OF s' run seq'(2)] by blast
  have "word_of_nat (m + 1) \<noteq> (0 :: u64)"
    using m(1) assms(9) by (simp only: word_of_nat_eq_0_iff) (auto dest: dvd_imp_le)
  then show ?thesis using m(2) seq'(1) by (simp add: add_ac)
qed

theorem freed_connection_is_stale_witness:
  "\<exists>cs1 cs2 cs3 p used3. init_pool sample_socket = Inr cs1 \<and> pool_run [PGet 7] (cs1, []) = Inr (cs2, [p])
     \<and> pool_run [PFree 0, PGet 8] (cs2, [p]) = Inr (cs3, used3)
     \<and> iCurrsequence (conns cs3 p) \<noteq> iCurrsequence (conns cs2 p)"
proof -
  have h: "m_pconnections sample_socket = []" "1 \<le> m_worker_connections sample_socket"
    "m_connection_n_max sample_socket =
      m_worker_connections sample_socket + m_worker_connections sample_socket div 2"
    "(m_worker_connections sample_socket div 2) mod 16 = 0"
    by (simp_all add: sample_socket_def)
  obtain cs1 where i: "init_pool sample_socket = Inr cs1"
    and ses: "cp.session cs1 [] (all_ptrs (m_pconnections cs1))"
    and mx: "m_connection_n_max cs1 = m_connection_n_max sample_socket"
    using init_pool_result [OF h] by blast
  have "all_ptrs (m_pconnections cs1) \<noteq> []"
    using session_bounds(5) [OF ses] mx by (simp add: sample_socket_def)
  then obtain p ps where ps: "all_ptrs (m_pconnections cs1) = p # ps" by (cases "all_ptrs (m_pconnections cs1)") auto
  then obtain cs2 new where g: "ngx_get_connection 7 cs1 = Inr (Some p, cs2)" "cp.session cs2 [p] (ps @ new)"
    using cp.session_get [of cs1 "[]" p ps 7] ses by auto
  have r: "pool_run [PGet 7] (cs1, []) = Inr (cs2, [p])" using g(1) by simp
  obtain cs3 used3 where r3: "pool_run [PFree 0, PGet 8] (cs2, [p]) = Inr (cs3, used3)"
    using pool_run_session [OF g(2), of "[PFree 0, PGet 8]"] by blast
  have "iCurrsequence (conns cs3 ([p] ! 0)) \<noteq> iCurrsequence (conns cs2 ([p] ! 0))"
    by (rule freed_connection_is_stale [OF h i r _ r3]) simp_all
  then have "iCurrsequence (conns cs3 p) \<noteq> iCurrsequence (conns cs2 p)" by simp
  with i r r3 show ?thesis by blast
qed

end
