(* ===== verification/SockOps.thy ===== *)
theory SockOps
  imports ConnPool
begin

text \<open>
  Operations of \<^verbatim>\<open>CSocket\<close> that several handlers share: the epoll registrations
  (\<^verbatim>\<open>net/ngx_c_socket.cpp\<close>), the ping queue \<^verbatim>\<open>m_timerQueuemap\<close> with its mutex, the release of a connection
  by a timer, and the flood test. What the operating system answers during a call (clocks, the
  success of \<^verbatim>\<open>epoll_ctl\<close>) is an argument.
\<close>

section \<open>The environment of a call\<close>

text \<open>
  \<open>e_steady\<close> is \<^verbatim>\<open>Timer::GetTime()\<close> in milliseconds, \<open>e_tod\<close> is \<^verbatim>\<open>gettimeofday\<close> in milliseconds,
  \<open>e_time\<close> is \<^verbatim>\<open>time(NULL)\<close>, \<open>e_epoll_ok\<close> tells whether \<^verbatim>\<open>epoll_ctl\<close> succeeds.
\<close>

record env =
  e_steady :: int
  e_tod :: u64
  e_time :: int
  e_epoll_ok :: bool

datatype errno = EAGAIN | EINTR | ECONNRESET | ENOTCONN | EPIPE | EOTHER

section \<open>Epoll registrations\<close>

definition ngx_epoll_del_event :: "env \<Rightarrow> conn_ptr \<Rightarrow> csocket \<Rightarrow> int \<times> csocket" where
  "ngx_epoll_del_event env c cs =
     (if e_epoll_ok env then (1, cs\<lparr>epoll_set := (epoll_set cs)(fd (conns cs c) := None)\<rparr>) else (- 1, cs))"

text \<open>
  \<^verbatim>\<open>ngx_epoll_opr_event(c, event, 0, eventtype)\<close> with \<open>rd\<close> for \<^verbatim>\<open>READEVENT\<close>: it chooses the read handler
  by the mode and registers the connection. The \<^verbatim>\<open>otherflag\<close> is zero in every call.
\<close>

definition ngx_epoll_opr_event :: "env \<Rightarrow> conn_ptr \<Rightarrow> bool \<Rightarrow> epoll_op \<Rightarrow> csocket \<Rightarrow> (bool \<times> csocket) res" where
  "ngx_epoll_opr_event env c rd op cs =
     (let et = (m_ETflag cs = ETOPEN);
          reg = \<lparr>ev_in = rd, ev_out = \<not> rd, ev_et = (\<not> rd \<or> et), ev_ptr = c\<rparr> in
      res_bind
        (conn_upd c (\<lambda>t. t\<lparr>rhandler := Some (if et then H_ngx_read_request_handler_ET
                                            else H_ngx_read_request_handler)\<rparr>) cs)
        (\<lambda>cs1. if e_epoll_ok env
               then Inr (True, cs1\<lparr>epoll_set := (epoll_set cs1)
                      (fd (conns cs1 c) := (if op = EPOLL_CTL_DEL then None else Some reg))\<rparr>)
               else Inr (False, cs1)))"

section \<open>The ping queue\<close>

text \<open>
  The \<^verbatim>\<open>std::multimap\<close> from times to message headers in iteration order. \<^verbatim>\<open>emplace\<close> puts an entry behind
  those with the same key, \<^verbatim>\<open>find\<close> yields the first entry with the key, and erasing \<^verbatim>\<open>end()\<close> is a fault.
\<close>

fun mm_insert :: "int \<Rightarrow> 'v \<Rightarrow> (int \<times> 'v) list \<Rightarrow> (int \<times> 'v) list" where
  "mm_insert k v [] = [(k, v)]"
| "mm_insert k v ((k', v') # xs) = (if k < k' then (k, v) # (k', v') # xs else (k', v') # mm_insert k v xs)"

fun mm_erase_find :: "int \<Rightarrow> (int \<times> 'v) list \<Rightarrow> (int \<times> 'v) list res" where
  "mm_erase_find k [] = Inl BadIterator"
| "mm_erase_find k ((k', v') # xs) =
     (if k' = k then Inr xs else res_bind (mm_erase_find k xs) (\<lambda>ys. Inr ((k', v') # ys)))"

text \<open>
  \<^verbatim>\<open>unique_lock PingLock(m_PingMutex); m_timerQueuemap.erase(m_timerQueuemap.find(t));\<close> by a thread that may
  already hold the mutex.
\<close>

definition ping_erase :: "int \<Rightarrow> csocket \<Rightarrow> csocket res" where
  "ping_erase t cs =
     (if m_PingMutex cs then Inl SelfDeadlock
      else res_bind (mm_erase_find t (m_timerQueuemap cs)) (\<lambda>q. Inr (cs\<lparr>m_timerQueuemap := q\<rparr>)))"

section \<open>Releasing a connection later\<close>

text \<open>\<^verbatim>\<open>timer->AddTimer(msec, 1, bind(ngx_time_tofree_connection), c)\<close>.\<close>

definition add_free_timer :: "env \<Rightarrow> int \<Rightarrow> conn_ptr \<Rightarrow> csocket \<Rightarrow> csocket" where
  "add_free_timer env msec c cs =
     cs\<lparr>timers := AddTimer (e_steady env) msec 1 CB_ngx_time_tofree_connection (Some c) (timers cs)\<rparr>"

text \<open>The callback \<^verbatim>\<open>ngx_time_tofree_connection\<close>, and one round of \<^verbatim>\<open>ngx_timer_free_connection\<close>.\<close>

definition ngx_time_tofree_connection :: "conn_ptr \<Rightarrow> csocket \<Rightarrow> csocket" where
  "ngx_time_tofree_connection c cs = cs\<lparr>m_recyconnectionList := m_recyconnectionList cs @ [c]\<rparr>"

definition ngx_timer_free_connection_round :: "csocket \<Rightarrow> csocket res" where
  "ngx_timer_free_connection_round cs =
     (if m_shutdown cs then Inr cs
      else case m_recyconnectionList cs of
        [] \<Rightarrow> Inl Blocked
      | con # more_cons \<Rightarrow> ngx_close_connection con (cs\<lparr>m_recyconnectionList := more_cons\<rparr>))"

text \<open>\<^verbatim>\<open>ngx_free_con_self\<close> (\<^verbatim>\<open>net/ngx_c_socket_ping.cpp\<close>) and \<^verbatim>\<open>ngx_evhup_handler\<close>.\<close>

definition ngx_free_con_self :: "env \<Rightarrow> conn_ptr \<Rightarrow> csocket \<Rightarrow> csocket res" where
  "ngx_free_con_self env c cs =
     (let cs1 = snd (ngx_epoll_del_event env c cs) in
      res_bind
        (if fd (conns cs1 c) \<noteq> - 1
         then conn_upd c (\<lambda>t. t\<lparr>fd := - 1\<rparr>) (cs1\<lparr>closed_fds := fd (conns cs1 c) # closed_fds cs1\<rparr>)
         else Inr cs1)
        (\<lambda>cs2.
          let cs3 = add_free_timer env 30000 c (cs2\<lparr>m_onlineUserCount := m_onlineUserCount cs2 - 1\<rparr>)
          in ping_erase (storePingTime (conns cs3 c)) cs3))"

definition ngx_evhup_handler :: "env \<Rightarrow> conn_ptr \<Rightarrow> csocket \<Rightarrow> csocket res" where
  "ngx_evhup_handler env c cs =
     (let cs1 = snd (ngx_epoll_del_event env c cs);
          cs2 = add_free_timer env 10000 c (cs1\<lparr>m_onlineUserCount := m_onlineUserCount cs1 - 1\<rparr>)
      in ping_erase (storePingTime (conns cs2 c)) cs2)"

section \<open>The flood test\<close>

text \<open>
  \<^verbatim>\<open>TestFlood\<close>: the difference of the times is computed in 64 unsigned bits and compared with the
  interval converted to that type. In LT mode the connection's mutex is taken around it; waiting for
  another thread is \<open>Blocked\<close>.
\<close>

definition flood_count :: "csocket \<Rightarrow> u64 \<Rightarrow> ngx_connection \<Rightarrow> ngx_connection" where
  "flood_count cs TimeNow c =
     (if TimeNow - FloodkickLastTime c < word_of_int (m_floodTimeInterval cs)
      then c\<lparr>FloodAttackCount := FloodAttackCount c + 1, FloodkickLastTime := TimeNow\<rparr>
      else c\<lparr>FloodAttackCount := 0, FloodkickLastTime := TimeNow\<rparr>)"

definition TestFlood :: "env \<Rightarrow> conn_ptr \<Rightarrow> csocket \<Rightarrow> (bool \<times> csocket) res" where
  "TestFlood env p cs =
     (if m_ETflag cs = ETCLOSE \<and> logicPorcMutex (conns cs p) then Inl Blocked
      else res_bind (conn_upd p (flood_count cs (e_tod env)) cs)
        (\<lambda>cs1. Inr (FloodAttackCount (conns cs1 p) = m_floodKickCount cs1, cs1)))"

section \<open>Lemmas\<close>

lemma mm_erase_find_Inl: "mm_erase_find k xs = Inl e \<longleftrightarrow> k \<notin> fst ` set xs \<and> e = BadIterator"
  by (induction k xs rule: mm_erase_find.induct) (auto simp: res_bind_Inl_iff)

lemma mm_erase_find_append:
  "k \<notin> fst ` set pre \<Longrightarrow> mm_erase_find k (pre @ (k, v) # post) = Inr (pre @ post)"
  by (induction pre) (auto simp: image_iff)

lemma mm_erase_find_Inr_iff:
  "mm_erase_find k xs = Inr ys \<longleftrightarrow>
     (\<exists>pre v post. xs = pre @ (k, v) # post \<and> k \<notin> fst ` set pre \<and> ys = pre @ post)"
proof
  assume "mm_erase_find k xs = Inr ys"
  then show "\<exists>pre v post. xs = pre @ (k, v) # post \<and> k \<notin> fst ` set pre \<and> ys = pre @ post"
  proof (induction k xs arbitrary: ys rule: mm_erase_find.induct)
    case (2 k k' v' xs)
    show ?case
    proof (cases "k' = k")
      case True
      then have "(k', v') # xs = [] @ (k, v') # ys" using 2 by simp
      then show ?thesis by fastforce
    next
      case False
      then obtain zs where "mm_erase_find k xs = Inr zs" "ys = (k', v') # zs" using 2 by auto
      with 2(1) [OF False] obtain pre v post where
        "xs = pre @ (k, v) # post" "k \<notin> fst ` set pre" "zs = pre @ post" by blast
      with False \<open>ys = _\<close> have "(k', v') # xs = ((k', v') # pre) @ (k, v) # post"
        "k \<notin> fst ` set ((k', v') # pre)" "ys = ((k', v') # pre) @ post" by auto
      then show ?thesis by blast
    qed
  qed simp
qed (auto simp: mm_erase_find_append)

lemma set_mm_insert: "set (mm_insert k v xs) = insert (k, v) (set xs)"
  by (induction k v xs rule: mm_insert.induct) auto

lemma sorted_mm_insert: "sorted (map fst xs) \<Longrightarrow> sorted (map fst (mm_insert k v xs))"
  by (induction k v xs rule: mm_insert.induct) (auto simp: set_mm_insert)

lemma flood_count_simps [simp]:
  "iCurrsequence (flood_count cs t c) = iCurrsequence c"
  "curStat (flood_count cs t c) = curStat c"
  "dataHeadInfo (flood_count cs t c) = dataHeadInfo c"
  "precvbuf (flood_count cs t c) = precvbuf c"
  "irecvlen (flood_count cs t c) = irecvlen c"
  "precvMemPointer (flood_count cs t c) = precvMemPointer c"
  "logicObj (flood_count cs t c) = logicObj c"
  "logicPorcMutex (flood_count cs t c) = logicPorcMutex c"
  "c_next (flood_count cs t c) = c_next c"
  by (simp_all add: flood_count_def)

lemma TestFlood_eq:
  "valid_conn cs c \<Longrightarrow> (m_ETflag cs = ETCLOSE \<Longrightarrow> \<not> logicPorcMutex (conns cs c)) \<Longrightarrow>
     TestFlood env c cs =
       Inr (FloodAttackCount (flood_count cs (e_tod env) (conns cs c)) = m_floodKickCount cs,
            conn_put c (flood_count cs (e_tod env) (conns cs c)) cs)"
  by (auto simp: TestFlood_def sock_simps)

definition no_flood :: "csocket \<Rightarrow> conn_ptr \<Rightarrow> bool" where
  "no_flood cs c \<longleftrightarrow>
     m_floodKickCount cs \<noteq> 0 \<and> FloodAttackCount (conns cs c) + 1 \<noteq> m_floodKickCount cs \<and>
     (m_ETflag cs = ETCLOSE \<longrightarrow> \<not> logicPorcMutex (conns cs c))"

lemma TestFlood_no_flood:
  "valid_conn cs c \<Longrightarrow> no_flood cs c \<Longrightarrow>
     TestFlood env c cs = Inr (False, conn_put c (flood_count cs (e_tod env) (conns cs c)) cs)"
  by (auto simp: TestFlood_eq no_flood_def) (auto simp: flood_count_def split: if_splits)

section \<open>Property of the flood test\<close>

text \<open>The verdicts of the flood test for requests at the times \<open>ts\<close> (in milliseconds).\<close>

fun flood_verdicts :: "env \<Rightarrow> conn_ptr \<Rightarrow> nat list \<Rightarrow> csocket \<Rightarrow> (bool list \<times> csocket) res" where
  "flood_verdicts env c [] cs = Inr ([], cs)"
| "flood_verdicts env c (t # ts) cs =
     res_bind (TestFlood (env\<lparr>e_tod := of_nat t\<rparr>) c cs) (\<lambda>(b, cs).
     res_bind (flood_verdicts env c ts cs) (\<lambda>(bs, cs). Inr (b # bs, cs)))"

text \<open>The specification: how many of the latest gaps between requests in a row are short.\<close>

fun gaps :: "nat \<Rightarrow> nat list \<Rightarrow> nat list" where
  "gaps t0 [] = []"
| "gaps t0 (t # ts) = (t - t0) # gaps t ts"

definition fast_run :: "nat \<Rightarrow> nat list \<Rightarrow> nat" where
  "fast_run interval gs = length (takeWhile (\<lambda>g. g < interval) (rev gs))"

lemma fast_run_snoc: "fast_run i (gs @ [g]) = (if g < i then fast_run i gs + 1 else 0)"
  by (simp add: fast_run_def)

lemma word_gap_less_iff:
  assumes "t0 \<le> t" "t < 2 ^ 63" "i < 2 ^ 63"
  shows "((of_nat t :: u64) - of_nat t0 < of_nat i) \<longleftrightarrow> t - t0 < i"
proof -
  have "(of_nat t :: u64) - of_nat t0 = of_nat (t - t0)" using assms(1) by simp
  moreover have "unat (of_nat (t - t0) :: u64) = t - t0" "unat (of_nat i :: u64) = i"
    using assms by (simp_all add: unat_of_nat del: of_nat_diff)
  ultimately show ?thesis by (simp add: word_less_nat_alt del: of_nat_diff)
qed

lemma flood_verdicts_run:
  assumes "valid_conn cs c" "m_ETflag cs = ETCLOSE \<longrightarrow> \<not> logicPorcMutex (conns cs c)"
    and "m_floodTimeInterval cs = int i" "i < 2 ^ 63"
    and "sorted (t0 # ts)" "\<forall>t \<in> set ts. t < 2 ^ 63"
    and "FloodkickLastTime (conns cs c) = of_nat t0" "FloodAttackCount (conns cs c) = int (fast_run i gs)"
  shows "\<exists>bs cs'. flood_verdicts env c ts cs = Inr (bs, cs') \<and> length bs = length ts \<and>
     (\<forall>k < length ts. bs ! k \<longleftrightarrow> int (fast_run i (gs @ take (k + 1) (gaps t0 ts))) = m_floodKickCount cs)"
  using assms
proof (induction ts arbitrary: t0 gs cs)
  case (Cons t ts)
  let ?env = "env\<lparr>e_tod := of_nat t\<rparr>"
  let ?t = "flood_count cs (of_nat t) (conns cs c)"
  let ?cs = "conn_put c ?t cs"
  have gap: "((of_nat t :: u64) - of_nat t0 < word_of_int (int i)) \<longleftrightarrow> t - t0 < i"
    using word_gap_less_iff [of t0 t i] Cons.prems(4-6) by simp
  have last: "FloodkickLastTime ?t = of_nat t"
    by (simp add: flood_count_def)
  have cnt: "FloodAttackCount ?t = int (fast_run i (gs @ [t - t0]))"
    using gap Cons.prems(3,7,8) by (simp add: flood_count_def fast_run_snoc)
  have "\<exists>bs cs'. flood_verdicts env c ts ?cs = Inr (bs, cs') \<and> length bs = length ts \<and>
     (\<forall>k < length ts. bs ! k \<longleftrightarrow>
        int (fast_run i ((gs @ [t - t0]) @ take (k + 1) (gaps t ts))) = m_floodKickCount ?cs)"
    by (rule Cons.IH) (use Cons.prems last cnt in \<open>simp_all add: sock_simps\<close>)
  then obtain bs cs' where r: "flood_verdicts env c ts ?cs = Inr (bs, cs')" "length bs = length ts"
    and v: "\<And>k. k < length ts \<Longrightarrow> bs ! k \<longleftrightarrow>
        int (fast_run i (gs @ take (k + 2) (gaps t0 (t # ts)))) = m_floodKickCount cs"
    by (auto simp: sock_simps)
  let ?b = "int (fast_run i (gs @ [t - t0])) = m_floodKickCount cs"
  have "TestFlood ?env c cs = Inr (?b, ?cs)"
    using TestFlood_eq [OF Cons.prems(1), of ?env] Cons.prems(2) cnt by simp
  then have "flood_verdicts env c (t # ts) cs = Inr (?b # bs, cs')" using r(1) by simp
  moreover have "(?b # bs) ! k \<longleftrightarrow>
      int (fast_run i (gs @ take (k + 1) (gaps t0 (t # ts)))) = m_floodKickCount cs" if "k < length (t # ts)" for k
    using v [of "k - 1"] that by (cases k) auto
  ultimately show ?case using r(2) by auto
qed simp

text \<open>
  C25. The flood test counts what it says. For a fresh connection and requests at any (non-decreasing)
  times, the verdict on each request is positive exactly when the number of gaps in a row, up to this
  request, that are shorter than \<^verbatim>\<open>Flood_TimeInterval\<close> equals \<^verbatim>\<open>Flood_KickCounter\<close>; a longer gap starts the count
  anew. The 64 bit difference of the times never distorts the comparison.
\<close>

theorem TestFlood_counts_fast_requests:
  assumes "valid_conn cs c" "m_ETflag cs = ETCLOSE \<longrightarrow> \<not> logicPorcMutex (conns cs c)"
    and "m_floodTimeInterval cs = int i" "i < 2 ^ 63" "sorted ts" "\<forall>t \<in> set ts. t < 2 ^ 63"
    and "FloodkickLastTime (conns cs c) = 0" "FloodAttackCount (conns cs c) = 0"
  shows "\<exists>bs cs'. flood_verdicts env c ts cs = Inr (bs, cs') \<and> length bs = length ts \<and>
     (\<forall>k < length ts. bs ! k \<longleftrightarrow> int (fast_run i (take (k + 1) (gaps 0 ts))) = m_floodKickCount cs)"
  using flood_verdicts_run [OF assms(1-4), of 0 ts "[]" env] assms(5-8) by (simp add: fast_run_def)

theorem TestFlood_counts_fast_requests_witness:
  "\<exists>bs cs'. flood_verdicts \<lparr>e_steady = 0, e_tod = 0, e_time = 0, e_epoll_ok = True\<rparr> (0, 0) [5000, 5050, 5060, 5400]
       (sample_socket\<lparr>m_pconnections := [1], m_floodKickCount := 2\<rparr>) = Inr (bs, cs') \<and> bs ! 2 \<and> \<not> bs ! 3"
proof -
  let ?cs = "sample_socket\<lparr>m_pconnections := [1], m_floodKickCount := 2\<rparr>"
  let ?env = "\<lparr>e_steady = 0, e_tod = 0, e_time = 0, e_epoll_ok = True\<rparr>"
  let ?ts = "[5000, 5050, 5060, 5400 :: nat]"
  have h: "valid_conn ?cs (0, 0)" "m_ETflag ?cs = ETCLOSE \<longrightarrow> \<not> logicPorcMutex (conns ?cs (0, 0))"
    "m_floodTimeInterval ?cs = int 100" "(100 :: nat) < 2 ^ 63" "sorted ?ts" "\<forall>t \<in> set ?ts. t < 2 ^ 63"
    "FloodkickLastTime (conns ?cs (0, 0)) = 0" "FloodAttackCount (conns ?cs (0, 0)) = 0"
    by (simp_all add: valid_conn_def sample_socket_def zero_connection_def)
  have r: "fast_run 100 (take (2 + 1) (gaps 0 ?ts)) = 2" "fast_run 100 (take (3 + 1) (gaps 0 ?ts)) = 0"
    by (simp_all add: fast_run_def)
  have k: "m_floodKickCount ?cs = 2" by simp
  obtain bs cs' where v: "flood_verdicts ?env (0, 0) ?ts ?cs = Inr (bs, cs')"
    "\<And>k. k < length ?ts \<Longrightarrow> bs ! k \<longleftrightarrow> int (fast_run 100 (take (k + 1) (gaps 0 ?ts))) = m_floodKickCount ?cs"
    using TestFlood_counts_fast_requests [OF h, of ?env] by blast
  have "bs ! 2" "\<not> bs ! 3" using v(2) [of 2] v(2) [of 3] by (simp_all only: r k) simp_all
  then show ?thesis using v(1) by blast
qed

end
