(* ===== verification/SendMsg.thy ===== *)
theory SendMsg
  imports SockOps
begin

text \<open>
  Sending of replies (\<^verbatim>\<open>net/ngx_c_socket_request.cpp\<close>): \<^verbatim>\<open>sendMsg\<close>, which a worker thread calls when a reply
  is ready, and \<^verbatim>\<open>sendRemainMsg\<close>, the task queued by the write event. The virtual \<^verbatim>\<open>WriteFunc\<close> is called on
  state of its own and looks at nothing the senders change (\<^verbatim>\<open>WriteData\<close> in \<^verbatim>\<open>HttpWrite\<close> ignores the buffer it is
  given), so it is an argument, the list of the answers its successive calls give; \<open>http_writes\<close> of \<^verbatim>\<open>HttpWrite\<close> is
  this list for a protocol object and the answers of the kernel. A loop that has used up the list without ending is
  \<open>Blocked\<close>; one that never ends is \<open>Blocked\<close> with every list.
\<close>

section \<open>Operations\<close>

datatype write_ret = W_sent nat | W_fail errno

text \<open>
  The block that releases the send buffer, which the source repeats in every branch that ends a
  transmission, and the unlocking of the connection's mutex.
\<close>

definition send_release :: "conn_ptr \<Rightarrow> csocket \<Rightarrow> csocket res" where
  "send_release c cs =
     res_bind (if deleteFlag (conns cs c) then FreeMemory (psendMemPointer (conns cs c)) cs else Inr cs)
       (conn_upd c (\<lambda>t. t\<lparr>psendMemPointer := None, psendbuf := None, isendlen := 0\<rparr>))"

definition unlock_conn :: "conn_ptr \<Rightarrow> csocket \<Rightarrow> csocket res" where
  "unlock_conn c = conn_upd c (\<lambda>t. t\<lparr>logicPorcMutex := False\<rparr>)"

text \<open>\<^verbatim>\<open>logicPorcMutex.lock()\<close>: a thread that finds the mutex taken waits for another one.\<close>

definition lock_conn :: "conn_ptr \<Rightarrow> csocket \<Rightarrow> csocket res" where
  "lock_conn c cs =
     (if logicPorcMutex (conns cs c) then Inl Blocked
      else conn_upd c (\<lambda>t. t\<lparr>logicPorcMutex := True\<rparr>) cs)"

text \<open>\<^verbatim>\<open>psendbuf += ret; isendlen -= ret;\<close>\<close>

definition send_advance :: "nat \<Rightarrow> ngx_connection \<Rightarrow> ngx_connection" where
  "send_advance n t =
     t\<lparr>psendbuf := map_option (\<lambda>(q, off). (q, off + n)) (psendbuf t), isendlen := isendlen t - of_nat n\<rparr>"

text \<open>
  The loop of \<^verbatim>\<open>sendMsg\<close>. \<^verbatim>\<open>ret\<close> is compared with the unsigned \<^verbatim>\<open>isendlen\<close>; errors other than the listed ones,
  and a result above \<^verbatim>\<open>isendlen\<close>, fall through to the next round.
\<close>

fun sendMsg_loop :: "env \<Rightarrow> conn_ptr \<Rightarrow> write_ret list \<Rightarrow> csocket \<Rightarrow> csocket res" where
  "sendMsg_loop env c [] cs = Inl Blocked"
| "sendMsg_loop env c (W_sent n # ws) cs =
     (if n < unat (isendlen (conns cs c)) then
        res_bind (conn_upd c (send_advance n) cs)
          (\<lambda>cs. res_bind (ngx_epoll_opr_event env c False EPOLL_CTL_MOD cs) (\<lambda>r. Inr (snd r)))
      else if n = unat (isendlen (conns cs c)) then
        res_bind (send_release c cs) (unlock_conn c)
      else sendMsg_loop env c ws cs)"
| "sendMsg_loop env c (W_fail e # ws) cs =
     (if e = EAGAIN then
        res_bind (ngx_epoll_opr_event env c False EPOLL_CTL_MOD cs) (\<lambda>r. Inr (snd r))
      else if e = EINTR then sendMsg_loop env c ws cs
      else if e = EPIPE \<or> e = ECONNRESET then send_release c cs
      else sendMsg_loop env c ws cs)"

definition sendMsg :: "env \<Rightarrow> write_ret list \<Rightarrow> mem_ptr \<Rightarrow> csocket \<Rightarrow> csocket res" where
  "sendMsg env ws arg cs =
     res_bind (msg_header_of arg cs)
       (\<lambda>h. let c = pConn h in
         if hdr_sequence h \<noteq> iCurrsequence (conns cs c)
         then res_bind (send_release c cs) (unlock_conn c)
         else sendMsg_loop env c ws cs)"

text \<open>
  The loop of \<^verbatim>\<open>sendRemainMsg\<close>, \<^verbatim>\<open>while(pConn->isendlen != 0)\<close>, and the task itself: it reads the message header
  through \<^verbatim>\<open>psendMemPointer\<close>.
\<close>

fun sendRemainMsg_loop :: "env \<Rightarrow> conn_ptr \<Rightarrow> write_ret list \<Rightarrow> csocket \<Rightarrow> csocket res" where
  "sendRemainMsg_loop env c ws cs =
     (if isendlen (conns cs c) = 0 then Inr cs
      else case ws of
        [] \<Rightarrow> Inl Blocked
      | W_sent n # ws' \<Rightarrow>
          (if n < unat (isendlen (conns cs c)) then
             res_bind (conn_upd c (send_advance n) cs) (sendRemainMsg_loop env c ws')
           else if n = unat (isendlen (conns cs c)) then
             res_bind (ngx_epoll_opr_event env c True EPOLL_CTL_MOD cs)
               (\<lambda>r. res_bind (send_release c (snd r))
                 (\<lambda>cs. res_bind (unlock_conn c cs) (sendRemainMsg_loop env c ws')))
           else sendRemainMsg_loop env c ws' cs)
      | W_fail e # ws' \<Rightarrow>
          (if e = EPIPE \<or> e = ECONNRESET then res_bind (send_release c cs) (unlock_conn c)
           else sendRemainMsg_loop env c ws' cs))"

declare sendRemainMsg_loop.simps [simp del]

definition sendRemainMsg :: "env \<Rightarrow> write_ret list \<Rightarrow> conn_ptr \<Rightarrow> csocket \<Rightarrow> csocket res" where
  "sendRemainMsg env ws c cs =
     (case psendMemPointer (conns cs c) of
        None \<Rightarrow> Inl NullDeref
      | Some q \<Rightarrow>
          res_bind (msg_header_of q cs)
            (\<lambda>h. if hdr_sequence h \<noteq> iCurrsequence (conns cs c)
                 then res_bind (send_release c cs) (unlock_conn c)
                 else sendRemainMsg_loop env c ws cs))"

text \<open>\<^verbatim>\<open>ngx_write_request_handler\<close> queues it.\<close>

definition ngx_write_request_handler :: "conn_ptr \<Rightarrow> csocket \<Rightarrow> csocket" where
  "ngx_write_request_handler c cs = cs\<lparr>tasks := tasks cs @ [T_sendRemainMsg c]\<rparr>"

section \<open>Lemmas\<close>

text \<open>The answers after which \<open>sendMsg\<close> merely tries again.\<close>

fun retried :: "u32 \<Rightarrow> write_ret \<Rightarrow> bool" where
  "retried len (W_sent n) \<longleftrightarrow> unat len < n"
| "retried len (W_fail e) \<longleftrightarrow> e \<notin> {EAGAIN, EPIPE, ECONNRESET}"

lemma sendMsg_loop_retries:
  "list_all (retried (isendlen (conns cs c))) rs \<Longrightarrow>
     sendMsg_loop env c (rs @ ws) cs = sendMsg_loop env c ws cs"
proof (induction rs)
  case (Cons r rs)
  then show ?case by (cases r) auto
qed simp

text \<open>A send buffer that the release block can give back: nothing to free, or a live block.\<close>

definition releasable :: "csocket \<Rightarrow> conn_ptr \<Rightarrow> bool" where
  "releasable cs c \<longleftrightarrow>
     valid_conn cs c \<and>
     (deleteFlag (conns cs c) \<longrightarrow> (\<forall>q. psendMemPointer (conns cs c) = Some q \<longrightarrow> mem cs q \<noteq> None))"

definition released :: "conn_ptr \<Rightarrow> csocket \<Rightarrow> csocket" where
  "released c cs =
     conn_put c ((conns cs c)\<lparr>psendMemPointer := None, psendbuf := None, isendlen := 0\<rparr>)
       (case (deleteFlag (conns cs c), psendMemPointer (conns cs c)) of
          (True, Some q) \<Rightarrow> cs\<lparr>mem := (mem cs)(q := None)\<rparr>
        | _ \<Rightarrow> cs)"

lemma valid_conn_mem_update [simp]: "valid_conn (cs\<lparr>mem := m\<rparr>) p = valid_conn cs p"
  by (simp add: valid_conn_def)

lemma valid_conn_epoll_update [simp]: "valid_conn (cs\<lparr>epoll_set := m\<rparr>) p = valid_conn cs p"
  by (simp add: valid_conn_def)

lemma send_release_eq: "releasable cs c \<Longrightarrow> send_release c cs = Inr (released c cs)"
  by (auto simp: send_release_def releasable_def released_def FreeMemory_def conn_upd_def
      split: option.splits bool.splits)

lemma released_conn [simp]:
  "conns (released c cs) c = (conns cs c)\<lparr>psendMemPointer := None, psendbuf := None, isendlen := 0\<rparr>"
  by (simp add: released_def sock_simps)

lemma valid_conn_released [simp]: "valid_conn (released c cs) p = valid_conn cs p"
  by (auto simp: released_def valid_conn_def sock_simps split: option.splits bool.splits)

lemma released_other:
  "epoll_set (released c cs) = epoll_set cs"
  "p \<noteq> c \<Longrightarrow> conns (released c cs) p = conns cs p"
  "mem (released c cs) =
     (case (deleteFlag (conns cs c), psendMemPointer (conns cs c)) of
        (True, Some q) \<Rightarrow> (mem cs)(q := None) | _ \<Rightarrow> mem cs)"
  by (auto simp: released_def sock_simps split: option.splits bool.splits)

definition unlocked :: "conn_ptr \<Rightarrow> csocket \<Rightarrow> csocket" where
  "unlocked c cs = conn_put c ((conns cs c)\<lparr>logicPorcMutex := False\<rparr>) cs"

lemma unlock_conn_eq: "valid_conn cs c \<Longrightarrow> unlock_conn c cs = Inr (unlocked c cs)"
  by (simp add: unlock_conn_def unlocked_def sock_simps)

lemma sendMsg_loop_done:
  assumes "releasable cs c" "n = unat (isendlen (conns cs c))"
  shows "sendMsg_loop env c (W_sent n # ws) cs = Inr (unlocked c (released c cs))"
  using assms by (simp add: send_release_eq unlock_conn_eq) (simp add: releasable_def unlock_conn_eq)

lemma opr_event_ok:
  assumes "valid_conn cs c"
  shows "\<exists>cs'. ngx_epoll_opr_event env c rd op cs = Inr (e_epoll_ok env, cs') \<and> mem cs' = mem cs \<and>
     m_pconnections cs' = m_pconnections cs \<and> m_ETflag cs' = m_ETflag cs \<and>
     conns cs' c = (conns cs c)\<lparr>rhandler := Some (if m_ETflag cs = ETOPEN then H_ngx_read_request_handler_ET
                                  else H_ngx_read_request_handler)\<rparr> \<and>
     (\<forall>p. p \<noteq> c \<longrightarrow> conns cs' p = conns cs p) \<and>
     (e_epoll_ok env \<longrightarrow> op \<noteq> EPOLL_CTL_DEL \<longrightarrow>
        epoll_set cs' (fd (conns cs c)) =
          Some \<lparr>ev_in = rd, ev_out = \<not> rd, ev_et = (\<not> rd \<or> m_ETflag cs = ETOPEN), ev_ptr = c\<rparr>)"
  using assms by (auto simp: ngx_epoll_opr_event_def Let_def sock_simps conn_put_def)

lemma send_advance_fields [simp]:
  "deleteFlag (send_advance n t) = deleteFlag t"
  "psendMemPointer (send_advance n t) = psendMemPointer t"
  "iCurrsequence (send_advance n t) = iCurrsequence t"
  "logicPorcMutex (send_advance n t) = logicPorcMutex t"
  "fd (send_advance n t) = fd t"
  "isendlen (send_advance n t) = isendlen t - of_nat n"
  by (simp_all add: send_advance_def)

text \<open>What a transmission needs to go on: the message header of the reply and a connection of its age.\<close>

definition sending :: "csocket \<Rightarrow> conn_ptr \<Rightarrow> mem_ptr \<Rightarrow> bool" where
  "sending cs c q \<longleftrightarrow>
     valid_conn cs c \<and> deleteFlag (conns cs c) \<and> psendMemPointer (conns cs c) = Some q \<and>
     (\<exists>b. mem cs q = Some b \<and> mb_header b = Some \<lparr>pConn = c, hdr_sequence = iCurrsequence (conns cs c)\<rparr>)"

lemma sending_releasable: "sending cs c q \<Longrightarrow> releasable cs c"
  by (auto simp: sending_def releasable_def)

lemma sending_header:
  "sending cs c q \<Longrightarrow> msg_header_of q cs = Inr \<lparr>pConn = c, hdr_sequence = iCurrsequence (conns cs c)\<rparr>"
  by (auto simp: sending_def msg_header_of_def mem_get_def)

lemma sending_transfer:
  assumes "sending cs c q" "mem cs' = mem cs" "m_pconnections cs' = m_pconnections cs"
    "deleteFlag (conns cs' c) = deleteFlag (conns cs c)"
    "psendMemPointer (conns cs' c) = psendMemPointer (conns cs c)"
    "iCurrsequence (conns cs' c) = iCurrsequence (conns cs c)"
  shows "sending cs' c q"
  using assms by (simp add: sending_def valid_conn_def)

lemma sending_advance: "sending cs c q \<Longrightarrow> sending (conn_put c (send_advance n (conns cs c)) cs) c q"
  by (erule sending_transfer) (simp_all add: sock_simps)

lemma unlocked_fields [simp]:
  "conns (unlocked c cs) c = (conns cs c)\<lparr>logicPorcMutex := False\<rparr>"
  "mem (unlocked c cs) = mem cs"
  "epoll_set (unlocked c cs) = epoll_set cs"
  by (simp_all add: unlocked_def sock_simps)

lemma sendMsg_partial:
  assumes h: "msg_header_of q cs = Inr \<lparr>pConn = c, hdr_sequence = iCurrsequence (conns cs c)\<rparr>"
    and v: "valid_conn cs c" and k: "k < unat (isendlen (conns cs c))"
  shows "\<exists>cs1. sendMsg env (W_sent k # ws) q cs = Inr cs1 \<and> mem cs1 = mem cs \<and> m_pconnections cs1 = m_pconnections cs \<and>
     conns cs1 c = (send_advance k (conns cs c))\<lparr>rhandler := Some (if m_ETflag cs = ETOPEN then H_ngx_read_request_handler_ET
                                  else H_ngx_read_request_handler)\<rparr> \<and> m_ETflag cs1 = m_ETflag cs \<and>
     (e_epoll_ok env \<longrightarrow> epoll_set cs1 (fd (conns cs c)) = Some \<lparr>ev_in = False, ev_out = True, ev_et = True, ev_ptr = c\<rparr>)"
proof -
  let ?cs = "conn_put c (send_advance k (conns cs c)) cs"
  have "sendMsg env (W_sent k # ws) q cs =
      res_bind (ngx_epoll_opr_event env c False EPOLL_CTL_MOD ?cs) (\<lambda>r. Inr (snd r))"
    using assms by (simp add: sendMsg_def sock_simps)
  then show ?thesis
    using opr_event_ok [of ?cs c env False EPOLL_CTL_MOD] v by (auto simp: sock_simps)
qed

section \<open>Properties\<close>

text \<open>
  A worker with one array of two connections; the first one is sending the ping reply in block 5.
\<close>

definition sample_env :: env where
  "sample_env = \<lparr>e_steady = 1000, e_tod = 5000, e_time = 100, e_epoll_ok = True\<rparr>"

definition sample_reply :: msg_block where
  "sample_reply =
     \<lparr>mb_header = Some \<lparr>pConn = (0, 0), hdr_sequence = 1\<rparr>,
      mb_bytes = map Some [8, 0, 0, 0, 0, 0, 0, 0]\<rparr>"

definition sample_sender :: csocket where
  "sample_sender =
     sample_socket\<lparr>m_pconnections := [2],
       conns := (\<lambda>_. zero_connection)((0, 0) :=
         zero_connection\<lparr>fd := 9, iCurrsequence := 1, logicPorcMutex := True, deleteFlag := True,
           psendMemPointer := Some 5, psendbuf := Some (5, 16), isendlen := 8\<rparr>),
       mem := [5 \<mapsto> sample_reply]\<rparr>"

lemma sample_sender_sending: "sending sample_sender (0, 0) 5"
  by (simp add: sending_def sample_sender_def sample_reply_def valid_conn_def)

lemma sample_sender_conn:
  "conns sample_sender (0, 0) = zero_connection\<lparr>fd := 9, iCurrsequence := 1, logicPorcMutex := True,
     deleteFlag := True, psendMemPointer := Some 5, psendbuf := Some (5, 16), isendlen := 8\<rparr>"
  by (simp add: sample_sender_def)

text \<open>
  C36. When the peer has gone (\<^verbatim>\<open>EPIPE\<close> or \<^verbatim>\<open>ECONNRESET\<close>) \<^verbatim>\<open>sendMsg\<close>, after any number of retried attempts, gives
  the reply's memory back and returns, but with the connection's mutex as it was: the mutex the request
  handler has taken is never released, unlike in \<^verbatim>\<open>sendRemainMsg\<close>, which releases it on the same error.
\<close>

theorem broken_pipe_keeps_mutex:
  assumes "sending cs c q" "list_all (retried (isendlen (conns cs c))) rs" "e = EPIPE \<or> e = ECONNRESET"
    and "isendlen (conns cs c) \<noteq> 0"
  shows "\<exists>cs1 cs2. sendMsg env (rs @ W_fail e # ws) q cs = Inr cs1 \<and> mem cs1 = (mem cs)(q := None) \<and>
      isendlen (conns cs1 c) = 0 \<and> logicPorcMutex (conns cs1 c) = logicPorcMutex (conns cs c) \<and>
      sendRemainMsg env (W_fail e # ws) c cs = Inr cs2 \<and> mem cs2 = mem cs1 \<and> \<not> logicPorcMutex (conns cs2 c)"
proof -
  note h = sending_header [OF assms(1)] send_release_eq [OF sending_releasable [OF assms(1)]]
  have v: "valid_conn cs c" "deleteFlag (conns cs c)" "psendMemPointer (conns cs c) = Some q"
    using assms(1) by (simp_all add: sending_def)
  have "sendMsg env (rs @ W_fail e # ws) q cs = Inr (released c cs)"
    using assms(2,3) by (auto simp: sendMsg_def h sendMsg_loop_retries)
  moreover have "sendRemainMsg env (W_fail e # ws) c cs = Inr (unlocked c (released c cs))"
    using assms(3,4) v by (auto simp: sendRemainMsg_def h sendRemainMsg_loop.simps [of env c "W_fail e # ws"] unlock_conn_eq)
  ultimately show ?thesis using v by (auto simp: released_other)
qed

theorem broken_pipe_keeps_mutex_witness:
  "sending sample_sender (0, 0) 5 \<and>
   (\<exists>cs1. sendMsg sample_env [W_fail EINTR, W_fail EPIPE] 5 sample_sender = Inr cs1 \<and>
      mem cs1 5 = None \<and> logicPorcMutex (conns cs1 (0, 0)))"
proof -
  have l: "logicPorcMutex (conns sample_sender (0, 0))" "isendlen (conns sample_sender (0, 0)) \<noteq> 0"
    by (simp_all add: sample_sender_conn)
  have r: "list_all (retried (isendlen (conns sample_sender (0, 0)))) [W_fail EINTR]" by simp
  show ?thesis
    using broken_pipe_keeps_mutex [OF sample_sender_sending r disjI1 [OF refl] l(2), of sample_env "[]"]
      sample_sender_sending l(1) by auto
qed

text \<open>
  A reply without a send buffer of its own, as every HTTP reply is, cannot be continued: after a
  partial write, or one refused with \<^verbatim>\<open>EAGAIN\<close>, the connection waits for the write event, and the
  \<^verbatim>\<open>sendRemainMsg\<close> that the event queues dereferences the null \<^verbatim>\<open>psendMemPointer\<close> whatever the socket would
  answer.
\<close>

theorem bufferless_reply_cannot_continue:
  assumes "msg_header_of q cs = Inr \<lparr>pConn = c, hdr_sequence = iCurrsequence (conns cs c)\<rparr>" "valid_conn cs c"
    and "psendMemPointer (conns cs c) = None"
    and "w = W_fail EAGAIN \<or> (\<exists>k < unat (isendlen (conns cs c)). w = W_sent k)"
  shows "\<exists>cs1. sendMsg env (w # ws) q cs = Inr cs1 \<and> (\<forall>env' ws'. sendRemainMsg env' ws' c cs1 = Inl NullDeref)"
proof -
  have "\<exists>cs1. sendMsg env (w # ws) q cs = Inr cs1 \<and> psendMemPointer (conns cs1 c) = None"
  proof (cases "w = W_fail EAGAIN")
    case True
    then show ?thesis
      using assms(1,3) opr_event_ok [OF assms(2), of env False EPOLL_CTL_MOD] by (auto simp: sendMsg_def)
  next
    case False
    then obtain k where "k < unat (isendlen (conns cs c))" "w = W_sent k" using assms(4) by auto
    then show ?thesis using sendMsg_partial [OF assms(1,2), of k env ws] assms(3) by auto
  qed
  then show ?thesis by (auto simp: sendRemainMsg_def)
qed

definition sample_http_sender :: csocket where
  "sample_http_sender =
     sample_socket\<lparr>m_pconnections := [2],
       conns := (\<lambda>_. zero_connection)((0, 0) :=
         zero_connection\<lparr>fd := 9, iCurrsequence := 1, logicPorcMutex := True, isendlen := 300\<rparr>),
       mem := [5 \<mapsto> sample_reply]\<rparr>"

theorem bufferless_reply_cannot_continue_witness:
  "\<exists>cs1. sendMsg sample_env [W_sent 100] 5 sample_http_sender = Inr cs1 \<and>
     sendRemainMsg sample_env [W_sent 200] (0, 0) cs1 = Inl NullDeref"
proof -
  have h: "msg_header_of 5 sample_http_sender =
      Inr \<lparr>pConn = (0, 0), hdr_sequence = iCurrsequence (conns sample_http_sender (0, 0))\<rparr>"
    "valid_conn sample_http_sender (0, 0)" "psendMemPointer (conns sample_http_sender (0, 0)) = None"
    "unat (isendlen (conns sample_http_sender (0, 0))) = 300"
    by (simp_all add: msg_header_of_def mem_get_def sample_http_sender_def sample_reply_def valid_conn_def
        zero_connection_def)
  have "\<exists>k < unat (isendlen (conns sample_http_sender (0, 0))). W_sent 100 = W_sent k"
    using h(4) by simp
  then show ?thesis
    using bufferless_reply_cannot_continue [OF h(1-3) disjI2, of "W_sent 100" sample_env "[]"] by blast
qed

end
