(* ===== verification/SLogic.thy ===== *)
theory SLogic
  imports SendMsg
begin

text \<open>
  The message dispatcher \<^verbatim>\<open>CLogicSocket\<close> (\<^verbatim>\<open>logic/ngx_c_slogic.cpp\<close>): \<^verbatim>\<open>threadRecvProcFunc\<close>, which a pool thread
  (or, in edge triggered mode, the reading task) runs on a complete message, and the two handlers it
  knows. \<^verbatim>\<open>Business\<close> is a virtual method of the protocol object: it is the argument \<open>business\<close> of the
  definitions, which takes the object, the connection, the message block and the body length.
\<close>

section \<open>Operations\<close>

type_synonym business_fun = "nat option \<Rightarrow> conn_ptr \<Rightarrow> mem_ptr \<Rightarrow> u16 \<Rightarrow> csocket \<Rightarrow> csocket res"

definition CMD_PING :: u16 where "CMD_PING = 0"
definition CMD_BUSINESS :: u16 where "CMD_BUSINESS = 1"

text \<open>A 16 bit field of the packed \<^verbatim>\<open>COMM_PKG_HEADER\<close>, and the three fields of a package header as bytes.\<close>

definition u16_at :: "nat \<Rightarrow> msg_block \<Rightarrow> u16 res" where
  "u16_at i b =
     (if i + 1 < length (mb_bytes b)
      then case (mb_bytes b ! i, mb_bytes b ! (i + 1)) of
          (Some lo, Some hi) \<Rightarrow> Inr (un_le16 lo hi)
        | _ \<Rightarrow> Inl DeadMemory
      else Inl OutOfBounds)"

definition pkg_header :: "u16 \<Rightarrow> u16 \<Rightarrow> u32 \<Rightarrow> u8 list" where
  "pkg_header pkgLen msgCode crc32 =
     le16 pkgLen @ le16 msgCode @ le16 (ucast crc32) @ le16 (ucast (drop_bit 16 crc32))"

text \<open>The mutex is taken by the handler in level triggered mode only.\<close>

definition lock_if_LT :: "conn_ptr \<Rightarrow> csocket \<Rightarrow> csocket res" where
  "lock_if_LT c cs = (if m_ETflag cs = ETCLOSE then lock_conn c cs else Inr cs)"

text \<open>\<^verbatim>\<open>_HandlePing\<close>: the reply is a copy of the 24 bytes of the request with the package header filled in anew.\<close>

definition HandlePing :: "env \<Rightarrow> write_ret list \<Rightarrow> conn_ptr \<Rightarrow> mem_ptr \<Rightarrow> u16 \<Rightarrow> csocket \<Rightarrow> (bool \<times> csocket) res" where
  "HandlePing env ws pC pMsgHeader iBodyLength cs =
     (if iBodyLength \<noteq> 0 then Inr (False, cs)
      else
        res_bind (lock_if_LT pC cs) (\<lambda>cs.
        res_bind (conn_upd pC (\<lambda>t. t\<lparr>lastPingTime := e_time env\<rparr>) cs) (\<lambda>cs.
        let (tptr, cs) = AllocMemory (MSGHEADERLEN + PKGHEADERLEN) cs in
        res_bind (mem_get pMsgHeader cs) (\<lambda>src.
        if length (mb_bytes src) < PKGHEADERLEN then Inl OutOfBounds else
        res_bind (of_option DeadMemory (mb_header src)) (\<lambda>h.
        let cs = mem_put tptr \<lparr>mb_header = Some h, mb_bytes = take PKGHEADERLEN (mb_bytes src)\<rparr> cs in
        res_bind (conn_upd (pConn h) (\<lambda>t. t\<lparr>psendMemPointer := Some tptr,
                                           psendbuf := Some (tptr, MSGHEADERLEN)\<rparr>) cs) (\<lambda>cs.
        let cs = mem_put tptr \<lparr>mb_header = Some h,
                   mb_bytes = map Some (pkg_header (of_nat PKGHEADERLEN) CMD_PING 0)\<rparr> cs in
        res_bind (conn_upd (pConn h) (\<lambda>t. t\<lparr>isendlen := of_nat PKGHEADERLEN\<rparr>) cs) (\<lambda>cs.
        res_bind (conn_upd pC (\<lambda>t. t\<lparr>deleteFlag := True\<rparr>) cs) (\<lambda>cs.
        res_bind (sendMsg env ws tptr cs) (\<lambda>cs. Inr (True, cs))))))))))"

definition HandleBusiness ::
  "business_fun \<Rightarrow> env \<Rightarrow> write_ret list \<Rightarrow> nat option \<Rightarrow> conn_ptr \<Rightarrow> mem_ptr \<Rightarrow> u16 \<Rightarrow> csocket \<Rightarrow> (bool \<times> csocket) res" where
  "HandleBusiness business env ws obj pC pMsgHeader iBodyLength cs =
     res_bind (lock_if_LT pC cs) (\<lambda>cs.
     res_bind (business obj pC pMsgHeader iBodyLength cs) (\<lambda>cs.
     res_bind (sendMsg env ws pMsgHeader cs) (\<lambda>cs. Inr (True, cs))))"

text \<open>\<^verbatim>\<open>HandleNum\<close> is the size of \<^verbatim>\<open>FuncBuf\<close>, which the constructor fills with the two handlers.\<close>

definition HandleNum :: u16 where "HandleNum = 2"

definition threadRecvProcFunc ::
  "business_fun \<Rightarrow> env \<Rightarrow> write_ret list \<Rightarrow> nat option \<Rightarrow> mem_ptr option \<Rightarrow> csocket \<Rightarrow> csocket res" where
  "threadRecvProcFunc business env ws obj pMsgBuf cs =
     (case pMsgBuf of
        None \<Rightarrow> Inl NullDeref
      | Some q \<Rightarrow>
          res_bind (mem_get q cs) (\<lambda>b.
          res_bind (u16_at 0 b) (\<lambda>pkgLen.
          res_bind (u16_at 2 b) (\<lambda>msgCode.
          if pkgLen = of_nat PKGHEADERLEN \<and> msgCode \<noteq> CMD_PING then Inr cs
          else
            res_bind (msg_header_of q cs) (\<lambda>h.
            let c = pConn h in
            if hdr_sequence h \<noteq> iCurrsequence (conns cs c) then Inr cs
            else if msgCode \<ge> HandleNum then Inr cs
            else
              res_bind (if msgCode = CMD_PING
                        then HandlePing env ws c q (pkgLen - of_nat PKGHEADERLEN) cs
                        else HandleBusiness business env ws obj c q (pkgLen - of_nat PKGHEADERLEN) cs)
                (\<lambda>r. FreeMemory (Some q) (snd r)))))))"

section \<open>Lemmas\<close>

lemma length_pkg_header [simp]: "length (pkg_header a b c) = 8"
  by (simp add: pkg_header_def)

lemma pkg_header_fields:
  "u16_at 0 \<lparr>mb_header = h, mb_bytes = map Some (pkg_header a b c) @ rest\<rparr> = Inr a"
  "u16_at 2 \<lparr>mb_header = h, mb_bytes = map Some (pkg_header a b c) @ rest\<rparr> = Inr b"
  using un_le16_le16 [of a] un_le16_le16 [of b]
  by (simp_all add: u16_at_def pkg_header_def nth_append le16_def)

text \<open>A queued message is dropped without being handled in three cases.\<close>

definition dropped :: "csocket \<Rightarrow> mem_ptr \<Rightarrow> bool" where
  "dropped cs q \<longleftrightarrow>
     (\<exists>b h pkgLen msgCode. mem cs q = Some b \<and> mb_header b = Some h \<and>
        u16_at 0 b = Inr pkgLen \<and> u16_at 2 b = Inr msgCode \<and>
        (pkgLen = 8 \<and> msgCode \<noteq> CMD_PING \<or> hdr_sequence h \<noteq> iCurrsequence (conns cs (pConn h)) \<or>
         HandleNum \<le> msgCode))"

text \<open>The state in which \<open>HandlePing\<close> calls \<open>sendMsg\<close>, the reply being in the new block.\<close>

definition ping_state :: "env \<Rightarrow> conn_ptr \<Rightarrow> csocket \<Rightarrow> csocket" where
  "ping_state env c cs =
     cs\<lparr>mem_next := mem_next cs + 1,
        mem := (mem cs)(mem_next cs \<mapsto>
          \<lparr>mb_header = Some \<lparr>pConn = c, hdr_sequence = iCurrsequence (conns cs c)\<rparr>,
           mb_bytes = map Some (pkg_header 8 CMD_PING 0)\<rparr>),
        conns := (conns cs)(c := (conns cs c)
          \<lparr>logicPorcMutex := logicPorcMutex (conns cs c) \<or> m_ETflag cs = ETCLOSE,
           lastPingTime := e_time env, psendMemPointer := Some (mem_next cs),
           psendbuf := Some (mem_next cs, MSGHEADERLEN), isendlen := 8, deleteFlag := True\<rparr>)\<rparr>"

lemma lock_if_LT_eq:
  "valid_conn cs c \<Longrightarrow> (m_ETflag cs = ETCLOSE \<Longrightarrow> \<not> logicPorcMutex (conns cs c)) \<Longrightarrow>
     lock_if_LT c cs =
       Inr (conn_put c ((conns cs c)\<lparr>logicPorcMutex := logicPorcMutex (conns cs c) \<or> m_ETflag cs = ETCLOSE\<rparr>) cs)"
  by (auto simp: lock_if_LT_def lock_conn_def sock_simps conn_put_def)

lemma mem_put_fields [sock_simps]:
  "conns (mem_put q b cs) = conns cs"
  "mem (mem_put q b cs) = (mem cs)(q \<mapsto> b)"
  "mem_next (mem_put q b cs) = mem_next cs"
  "valid_conn (mem_put q b cs) p = valid_conn cs p"
  by (simp_all add: mem_put_def valid_conn_def)

lemma HandlePing_eq:
  assumes "valid_conn cs c" "m_ETflag cs = ETCLOSE \<Longrightarrow> \<not> logicPorcMutex (conns cs c)"
    and m: "mem cs q = Some \<lparr>mb_header = Some \<lparr>pConn = c, hdr_sequence = iCurrsequence (conns cs c)\<rparr>,
                             mb_bytes = bytes\<rparr>"
    and l: "8 \<le> length bytes" and n: "mem cs (mem_next cs) = None"
  shows "HandlePing env ws c q 0 cs =
     res_bind (sendMsg env ws (mem_next cs) (ping_state env c cs)) (\<lambda>cs. Inr (True, cs))"
proof -
  have q: "q \<noteq> mem_next cs" using m n by auto
  show ?thesis
    unfolding HandlePing_def ping_state_def
    using assms q
    by (simp add: lock_if_LT_eq [OF assms(1,2)] Let_def AllocMemory_def PKGHEADERLEN_def MSGHEADERLEN_def
        mem_get_def conn_upd_def valid_conn_def mem_put_def conn_put_def)
qed

lemma ping_state_sending:
  assumes "valid_conn cs c"
  shows "sending (ping_state env c cs) c (mem_next cs)"
  using assms by (auto simp: sending_def ping_state_def mem_put_def conn_put_def valid_conn_def)

section \<open>Properties\<close>

text \<open>
  What becomes of a message. When \<^verbatim>\<open>threadRecvProcFunc\<close> returns, either the message was handled and its
  memory is released, or it was dropped: a header without a body that is no ping, a message of an
  earlier use of the connection, or an unknown message code. A dropped message leaves the state exactly
  as it was, so its memory is never released and, in edge triggered mode, the mutex that the reading
  task has taken stays taken.
\<close>

theorem message_freed_or_dropped:
  assumes "threadRecvProcFunc business env ws obj (Some q) cs = Inr cs'" "mem cs q = Some b" "mb_header b = Some h"
  shows "if dropped cs q then cs' = cs \<and> mem cs' q \<noteq> None else mem cs' q = None"
proof -
  from assms obtain pkgLen msgCode where u: "u16_at 0 b = Inr pkgLen" "u16_at 2 b = Inr msgCode"
    by (auto simp: threadRecvProcFunc_def mem_get_def)
  note d = threadRecvProcFunc_def mem_get_def msg_header_of_def PKGHEADERLEN_def
  show ?thesis
  proof (cases "dropped cs q")
    case True
    then show ?thesis using assms u by (auto simp: d dropped_def Let_def split: if_splits)
  next
    case False
    then have "\<exists>cs1. FreeMemory (Some q) cs1 = Inr cs'"
      using assms u by (auto simp: d dropped_def Let_def split: if_splits)
    then show ?thesis using False by (auto simp: FreeMemory_def split: option.splits)
  qed
qed

text \<open>A message with the unknown code 2 in block 3, the reading task holding the mutex.\<close>

definition sample_unknown :: csocket where
  "sample_unknown =
     sample_socket\<lparr>m_pconnections := [2],
       conns := (\<lambda>_. zero_connection)((0, 1) := zero_connection\<lparr>fd := 9, iCurrsequence := 4, logicPorcMutex := True\<rparr>),
       mem := [3 \<mapsto> \<lparr>mb_header = Some \<lparr>pConn = (0, 1), hdr_sequence = 4\<rparr>,
                       mb_bytes = map Some (pkg_header 9 2 0) @ [Some 65]\<rparr>],
       mem_next := 4\<rparr>"

theorem message_freed_or_dropped_witness:
  "dropped sample_unknown 3 \<and>
   (\<exists>cs'. threadRecvProcFunc (\<lambda>_ _ _ _. Inr) sample_env [] (Some 0) (Some 3) sample_unknown = Inr cs' \<and>
      mem cs' 3 \<noteq> None \<and> logicPorcMutex (conns cs' (0, 1)))"
proof -
  let ?b = "\<lparr>mb_header = Some \<lparr>pConn = (0, 1), hdr_sequence = 4\<rparr>,
             mb_bytes = map Some (pkg_header 9 2 0) @ [Some 65]\<rparr>"
  have m: "mem sample_unknown 3 = Some ?b" and s: "iCurrsequence (conns sample_unknown (0, 1)) = 4"
    "logicPorcMutex (conns sample_unknown (0, 1))"
    by (simp_all add: sample_unknown_def)
  have d: "dropped sample_unknown 3"
    unfolding dropped_def using m pkg_header_fields [of _ 9 2 0] by (auto simp: HandleNum_def)
  have t: "threadRecvProcFunc (\<lambda>_ _ _ _. Inr) sample_env [] (Some 0) (Some 3) sample_unknown = Inr sample_unknown"
    using m s pkg_header_fields [of _ 9 2 0]
    by (simp add: threadRecvProcFunc_def mem_get_def msg_header_of_def PKGHEADERLEN_def HandleNum_def)
  have h: "mb_header ?b = Some \<lparr>pConn = (0, 1), hdr_sequence = 4\<rparr>" by simp
  show ?thesis using message_freed_or_dropped [OF t m h] d t s(2) by simp
qed

end
