(* ===== verification/HttpReply.thy ===== *)
theory HttpReply
  imports HttpParse SLogic
begin

text \<open>
  Replies of \<^verbatim>\<open>HttpServer\<close> (\<^verbatim>\<open>logic/ngx_c_http.cpp\<close>, \<^verbatim>\<open>logic/ngx_c_http_mothodfunc.cpp\<close>,
  \<^verbatim>\<open>logic/ngx_c_http_callback.cpp\<close>, \<^verbatim>\<open>_include/ngx_c_http.h\<close>): text is appended to the fixed write buffer,
  the parts of the reply are listed in \<^verbatim>\<open>m_iov\<close>, and \<^verbatim>\<open>Business\<close> computes the length the sender is told.
  The last section connects \<^verbatim>\<open>Business\<close> to the message dispatcher.
\<close>

section \<open>Writing\<close>

text \<open>
  The instances of \<^verbatim>\<open>write_senddata\<close>: C strings are copied; every other type, \<^verbatim>\<open>char\<close> included, goes
  through \<^verbatim>\<open>std::to_string\<close>.
\<close>

datatype send_arg = S_str string | S_num int

fun arg_text :: "send_arg \<Rightarrow> string" where
  "arg_text (S_str s) = s"
| "arg_text (S_num i) = to_string i"

definition write_senddata :: "send_arg \<Rightarrow> HttpServer \<Rightarrow> HttpServer res" where
  "write_senddata a h =
     res_bind (poke (m_write_idx h) (arg_text a) (m_write_buffer h))
       (\<lambda>b. Inr (h\<lparr>m_write_buffer := b, m_write_idx := m_write_idx h + length (arg_text a)\<rparr>))"

fun add_senddata :: "send_arg list \<Rightarrow> HttpServer \<Rightarrow> HttpServer res" where
  "add_senddata [] h = Inr h"
| "add_senddata (a # args) h = res_bind (write_senddata a h) (add_senddata args)"

definition add_status_line :: "int \<Rightarrow> string \<Rightarrow> HttpServer \<Rightarrow> HttpServer res" where
  "add_status_line status title = add_senddata [S_str ''HTTP/1.1 '', S_num status, S_str '' '', S_str title, S_str CRLF]"

definition add_blank_line :: "HttpServer \<Rightarrow> HttpServer res" where
  "add_blank_line = add_senddata [S_str CRLF]"

definition add_date :: "http_env \<Rightarrow> HttpServer \<Rightarrow> HttpServer res" where
  "add_date env = add_senddata [S_str ''Date: '', S_str (h_strftime env (h_now env)), S_str CRLF]"

definition add_content :: "string \<Rightarrow> HttpServer \<Rightarrow> HttpServer res" where
  "add_content msg = add_senddata [S_str msg]"

definition add_headers :: "string \<Rightarrow> HttpServer \<Rightarrow> HttpServer res" where
  "add_headers msg h =
     res_bind (add_senddata [S_str ''Connect-Length: '', S_num (int (length msg)), S_str CRLF] h) add_blank_line"

text \<open>\<^verbatim>\<open>add_cookie\<close> passes the character \<^verbatim>\<open>'='\<close>, which is written as its code, 61.\<close>

definition get_cookie_value :: "http_env \<Rightarrow> string \<Rightarrow> string" where
  "get_cookie_value env s = to_string (h_now env) @ s"

definition add_cookie :: "http_env \<Rightarrow> string \<Rightarrow> int \<Rightarrow> string \<Rightarrow> string \<Rightarrow> HttpServer \<Rightarrow> HttpServer res" where
  "add_cookie env cookieName expirse path domain h =
     res_bind (add_senddata [S_str ''Set-Cookie: ''] h) (\<lambda>h.
     res_bind (add_senddata [S_str cookieName, S_num 61, S_str (get_cookie_value env ''zyf''), S_str ''; ''] h) (\<lambda>h.
     res_bind (add_senddata [S_str ''expirse='', S_str (h_strftime env (h_now env + expirse)), S_str ''; ''] h) (\<lambda>h.
     res_bind (add_senddata [S_str ''path='', S_str path, S_str ''; ''] h)
       (add_senddata [S_str ''domain='', S_str domain, S_str CRLF]))))"

section \<open>Callbacks\<close>

definition if_modified_since_func :: "http_env \<Rightarrow> HttpServer \<Rightarrow> HttpServer res" where
  "if_modified_since_func env h =
     (case m_stat h of
        None \<Rightarrow> Inl DeadMemory
      | Some st \<Rightarrow> add_senddata [S_str ''Last-Modified: '', S_str (h_strftime env (f_mtime st)), S_str CRLF] h)"

definition range_cb :: "HttpServer \<Rightarrow> HttpServer res" where
  "range_cb h =
     (case m_stat h of
        None \<Rightarrow> Inl DeadMemory
      | Some st \<Rightarrow>
          if \<not> (m_range_start h < 0 \<or> m_range_end h > int (length (f_content st))) then
            add_senddata [S_str ''Accept: bytes '', S_num (m_range_start h), S_str ''-'', S_num (m_range_end h),
              S_str [CHR 0x5C], S_num (wrap32 (m_range_end h - m_range_start h + 1)), S_str CRLF] h
          else
            add_senddata [S_str (''Accept: none'' @ CRLF)]
              (h\<lparr>m_range_start := 0, m_range_end := wrap32 (int (length (f_content st)))\<rparr>))"

fun run_header_cb :: "http_env \<Rightarrow> header_cb \<Rightarrow> HttpServer \<Rightarrow> HttpServer res" where
  "run_header_cb env CB_if_modified_since_func h = if_modified_since_func env h"
| "run_header_cb env CB_range h = range_cb h"

fun run_header_cbs :: "http_env \<Rightarrow> header_cb list \<Rightarrow> HttpServer \<Rightarrow> HttpServer res" where
  "run_header_cbs env [] h = Inr h"
| "run_header_cbs env (cb # cbs) h = res_bind (run_header_cb env cb h) (run_header_cbs env cbs)"

section \<open>Methods\<close>

definition error_400_form :: string where
  "error_400_form = ''Your request has bab syntax or is inherently impossible to satisfy.'' @ [LF]"
definition error_403_form :: string where
  "error_403_form = ''You do not have permission to get file from this server.'' @ [LF]"
definition error_404_form :: string where
  "error_404_form = ''The request file was not fount on this server.'' @ [LF]"
definition error_412_form :: string where
  "error_412_form = ''One or more preconditions specified in the request header(s) could not be satisfied''"
definition error_500_form :: string where
  "error_500_form = ''There was an unusual problem serving ths requested file.'' @ [LF]"

text \<open>The reply of an error code: status line, length, blank line, text.\<close>

definition error_reply :: "int \<Rightarrow> string \<Rightarrow> string \<Rightarrow> HttpServer \<Rightarrow> HttpServer res" where
  "error_reply status title form h =
     res_bind (add_status_line status title h) (\<lambda>h. res_bind (add_headers form h) (add_content form))"

definition two_iov :: "HttpServer \<Rightarrow> HttpServer" where
  "two_iov h = h\<lparr>m_iov := [I_pkg_header, I_write (m_write_idx h)]\<rparr>"

definition three_iov :: "int \<Rightarrow> int \<Rightarrow> HttpServer \<Rightarrow> HttpServer" where
  "three_iov start len h = h\<lparr>m_iov := [I_pkg_header, I_write (m_write_idx h), I_file start len]\<rparr>"

definition GET_func :: "http_env \<Rightarrow> http_code \<Rightarrow> HttpServer \<Rightarrow> HttpServer res" where
  "GET_func env code h =
     (case code of
        BAD_REQUEST \<Rightarrow> res_bind (error_reply 400 ''Bad Request'' error_400_form h) (\<lambda>h. Inr (two_iov h))
      | INTERNAL_ERROR \<Rightarrow> res_bind (error_reply 500 ''Internal Error'' error_500_form h) (\<lambda>h. Inr (two_iov h))
      | NO_RESOURCE \<Rightarrow> res_bind (error_reply 404 ''Not Found'' error_404_form h) (\<lambda>h. Inr (two_iov h))
      | FORBIDDEN_REQUEST \<Rightarrow> res_bind (error_reply 403 ''Forbidden'' error_403_form h) (\<lambda>h. Inr (two_iov h))
      | FILE_REQUEST \<Rightarrow>
          res_bind (add_status_line 200 ''OK'' h) (\<lambda>h.
          res_bind (add_date env h) (\<lambda>h.
          res_bind (add_senddata [S_str ''Connect-Length: '', S_num (m_content_length h), S_str CRLF] h) (\<lambda>h.
          res_bind (if m_cookie_value h = None then add_cookie env ''sid'' 300 ''/'' ''192.168.138.135'' h else Inr h) (\<lambda>h.
          res_bind (run_header_cbs env (m_header_func_vec h) h) (\<lambda>h.
          res_bind (add_blank_line h) (\<lambda>h. Inr (three_iov 0 (m_content_length h) h)))))))
      | NOT_MODIFIED \<Rightarrow> res_bind (add_status_line 304 ''Not Modified'' h) (\<lambda>h. Inr (two_iov h))
      | PRECONDITION_FAILED \<Rightarrow>
          res_bind (add_status_line 412 ''Precondition Failed'' h) (\<lambda>h.
          res_bind (add_content error_412_form h) (\<lambda>h. Inr (two_iov h)))
      | PARTIAL_CONTENT \<Rightarrow>
          res_bind (add_status_line 206 ''Partial Content'' h) (\<lambda>h.
          res_bind (add_date env h) (\<lambda>h.
          res_bind (add_senddata [S_str ''Connect-Length: '',
              S_num (wrap32 (m_range_end h - m_range_start h + 1)), S_str CRLF] h) (\<lambda>h.
          res_bind (run_header_cbs env (m_header_func_vec h) h) (\<lambda>h.
          res_bind (add_blank_line h) (\<lambda>h.
          Inr (three_iov (m_range_start h) (wrap32 (m_range_end h - m_range_start h + 1)) h))))))
      | _ \<Rightarrow> Inr (two_iov h))"

definition POST_func :: "http_env \<Rightarrow> http_code \<Rightarrow> HttpServer \<Rightarrow> HttpServer res" where
  "POST_func env code h = Inr h"

definition HEAD_func :: "http_env \<Rightarrow> http_code \<Rightarrow> HttpServer \<Rightarrow> HttpServer res" where
  "HEAD_func env code h =
     (case m_stat h of
        None \<Rightarrow> Inl DeadMemory
      | Some st \<Rightarrow>
          res_bind (add_status_line 200 ''OK'' h) (\<lambda>h.
          res_bind (add_date env h) (\<lambda>h.
          res_bind (add_senddata [S_str ''Allow: '', S_str ''GET, POST, HEAD, OPTIONS'', S_str CRLF] h) (\<lambda>h.
          res_bind (add_senddata [S_str ''Content-Length: '', S_num (m_content_length h), S_str CRLF] h) (\<lambda>h.
          res_bind (add_senddata [S_str ''Last-Modified: '', S_str (h_strftime env (f_mtime st)), S_str CRLF] h) (\<lambda>h.
          res_bind (add_senddata [S_str ''Server: '', S_str ''Test1.0'', S_str CRLF] h) (\<lambda>h.
          res_bind (add_senddata [S_str (''Accept: bytes'' @ CRLF)] h) (\<lambda>h.
          res_bind (add_blank_line h) (\<lambda>h. Inr (two_iov h))))))))))"

definition OPTIONS_func :: "http_env \<Rightarrow> http_code \<Rightarrow> HttpServer \<Rightarrow> HttpServer res" where
  "OPTIONS_func env code h =
     res_bind (add_status_line 200 ''OK'' h) (\<lambda>h.
     res_bind (add_date env h) (\<lambda>h.
     res_bind (add_senddata [S_str ''Allow: '', S_str ''GET, POST, HEAD, OPTIONS'', S_str CRLF] h) (\<lambda>h.
     res_bind (add_blank_line h) (\<lambda>h. Inr (two_iov h)))))"

definition process_write :: "http_env \<Rightarrow> http_code \<Rightarrow> HttpServer \<Rightarrow> HttpServer res" where
  "process_write env code h =
     (case m_method h of
        GET \<Rightarrow> GET_func env code h
      | POST \<Rightarrow> POST_func env code h
      | HEAD \<Rightarrow> HEAD_func env code h
      | OPTIONS \<Rightarrow> OPTIONS_func env code h
      | _ \<Rightarrow> Inl BadIterator)"

section \<open>Business\<close>

text \<open>The parsing and writing part of \<^verbatim>\<open>HttpServer::Business\<close>, and the 16 bit length it stores in the package header.\<close>

definition Business :: "http_env \<Rightarrow> string \<Rightarrow> HttpServer \<Rightarrow> (u16 \<times> HttpServer) res" where
  "Business env body h =
     res_bind (process_read env (load_request body h)) (\<lambda>(ret, h).
     res_bind (process_write env ret h) (\<lambda>h.
     if NUL \<notin> set (m_write_buffer h) then Inl OutOfBounds
     else Inr (word_of_int (int (length (cstr (m_write_buffer h))) + m_content_length h + int PKGHEADERLEN), h)))"

text \<open>What \<^verbatim>\<open>writev\<close> sends for the list \<^verbatim>\<open>m_iov\<close>.\<close>

fun iov_len :: "iov \<Rightarrow> int" where
  "iov_len I_pkg_header = 8"
| "iov_len (I_write n) = int n"
| "iov_len (I_file start len) = len"

definition iov_total :: "HttpServer \<Rightarrow> int" where
  "iov_total h = sum_list (map iov_len (m_iov h))"

section \<open>The virtual method of the dispatcher\<close>

definition char_of_u8 :: "u8 \<Rightarrow> char" where
  "char_of_u8 b = char_of (unat b)"

definition u8_of_char :: "char \<Rightarrow> u8" where
  "u8_of_char c = of_nat (of_char c)"

fun read_bytes :: "u8 option list \<Rightarrow> u8 list res" where
  "read_bytes [] = Inr []"
| "read_bytes (None # bs) = Inl DeadMemory"
| "read_bytes (Some b # bs) = res_bind (read_bytes bs) (\<lambda>xs. Inr (b # xs))"

text \<open>
  \<^verbatim>\<open>HttpServer::Business\<close> as the dispatcher calls it, for the protocol objects \<open>objs\<close>: the body is parsed in
  the message block, the length goes into the package header and into \<^verbatim>\<open>isendlen\<close>.
\<close>

definition http_business :: "http_env \<Rightarrow> (nat \<Rightarrow> HttpServer) \<Rightarrow> business_fun" where
  "http_business env objs obj c q iBodyLength cs =
     (case obj of None \<Rightarrow> Inl NullDeref | Some ob \<Rightarrow>
        res_bind (conn_upd c (\<lambda>t. t\<lparr>deleteFlag := False\<rparr>) cs) (\<lambda>cs.
        res_bind (mem_get q cs) (\<lambda>b.
        res_bind (read_bytes (take (unat iBodyLength) (drop PKGHEADERLEN (mb_bytes b)))) (\<lambda>body.
        res_bind (Business env (map char_of_u8 body) (objs ob)) (\<lambda>(pkgLen, h).
        res_bind (poke 0 (map Some (le16 pkgLen)) (mb_bytes b)) (\<lambda>d.
        res_bind (poke PKGHEADERLEN (map (Some \<circ> u8_of_char) (m_read_buffer h)) d) (\<lambda>d.
        conn_upd c (\<lambda>t. t\<lparr>isendlen := ucast pkgLen\<rparr>) (mem_put q (b\<lparr>mb_bytes := d\<rparr>) cs))))))))"

text \<open>
  The protocol objects after the call: the object of the connection is the one \<^verbatim>\<open>Business\<close> has worked on, with all
  that parsing and writing have left in it.
\<close>

definition objs_after :: "http_env \<Rightarrow> nat \<Rightarrow> string \<Rightarrow> (nat \<Rightarrow> HttpServer) \<Rightarrow> nat \<Rightarrow> HttpServer" where
  "objs_after env ob body objs =
     (case Business env body (objs ob) of Inl _ \<Rightarrow> objs | Inr (_, h) \<Rightarrow> objs(ob := h))"

section \<open>Lemmas: the write buffer\<close>

text \<open>The object with \<open>t\<close> written so far; writing either appends or leaves the buffer.\<close>

definition put_text :: "string \<Rightarrow> HttpServer \<Rightarrow> HttpServer" where
  "put_text t h = h\<lparr>m_write_buffer := t @ replicate (WRITE_BUFFER_SIZE - length t) NUL, m_write_idx := length t\<rparr>"

definition put_res :: "string \<Rightarrow> HttpServer \<Rightarrow> HttpServer res" where
  "put_res t h = (if length t \<le> WRITE_BUFFER_SIZE then Inr (put_text t h) else Inl OutOfBounds)"

lemma put_text_fields [simp]:
  "m_stat (put_text t h) = m_stat h" "m_cookie_value (put_text t h) = m_cookie_value h"
  "m_header_func_vec (put_text t h) = m_header_func_vec h" "m_content_length (put_text t h) = m_content_length h"
  "m_range_start (put_text t h) = m_range_start h" "m_range_end (put_text t h) = m_range_end h"
  "m_write_idx (put_text t h) = length t" "m_method (put_text t h) = m_method h" "m_file_ptr (put_text t h) = m_file_ptr h"
  by (simp_all add: put_text_def)

lemma put_text_fixed:
  "put_text t h = h \<longleftrightarrow> m_write_buffer h = t @ replicate (WRITE_BUFFER_SIZE - length t) NUL \<and> m_write_idx h = length t"
  by (cases h) (auto simp: put_text_def)

lemma put_text_empty:
  "m_write_buffer h = replicate WRITE_BUFFER_SIZE NUL \<Longrightarrow> m_write_idx h = 0 \<Longrightarrow> put_text [] h = h"
  by (simp add: put_text_fixed)

lemma bind_put_res [simp]:
  "res_bind (put_res t h) f = (if length t \<le> WRITE_BUFFER_SIZE then f (put_text t h) else Inl OutOfBounds)"
  by (simp add: put_res_def)

lemma write_senddata_put [simp]:
  "length t \<le> WRITE_BUFFER_SIZE \<Longrightarrow> write_senddata a (put_text t h) = put_res (t @ arg_text a) h"
  by (auto simp: write_senddata_def put_res_def put_text_def poke_def)

lemma add_senddata_put [simp]:
  "length t \<le> WRITE_BUFFER_SIZE \<Longrightarrow>
   add_senddata args (put_text t h) = put_res (t @ concat (map arg_text args)) h"
  by (induction args arbitrary: t) (auto simp: put_res_def)

lemma put_res_step:
  "length t \<le> WRITE_BUFFER_SIZE \<Longrightarrow> f (put_text t h) = put_res (t @ u) h \<Longrightarrow>
   res_bind (put_res t h) f = put_res (t @ u) h"
  by simp

section \<open>Replies as text\<close>

text \<open>The specification of the replies, as the text a client is to see.\<close>

definition error_text :: "int \<Rightarrow> string \<Rightarrow> string \<Rightarrow> string" where
  "error_text status title form =
     ''HTTP/1.1 '' @ to_string status @ '' '' @ title @ CRLF @ ''Connect-Length: '' @ to_string (int (length form)) @
     CRLF @ CRLF @ form"

definition ok_text :: "http_env \<Rightarrow> int \<Rightarrow> string" where
  "ok_text env len =
     ''HTTP/1.1 200 OK'' @ CRLF @ ''Date: '' @ h_strftime env (h_now env) @ CRLF @
     ''Connect-Length: '' @ to_string len @ CRLF @
     ''Set-Cookie: sid61'' @ to_string (h_now env) @ ''zyf; expirse='' @ h_strftime env (h_now env + 300) @
     ''; path=/; domain=192.168.138.135'' @ CRLF @ CRLF"

definition head_text :: "http_env \<Rightarrow> file_info \<Rightarrow> int \<Rightarrow> string" where
  "head_text env st len =
     ''HTTP/1.1 200 OK'' @ CRLF @ ''Date: '' @ h_strftime env (h_now env) @ CRLF @
     ''Allow: GET, POST, HEAD, OPTIONS'' @ CRLF @ ''Content-Length: '' @ to_string len @ CRLF @
     ''Last-Modified: '' @ h_strftime env (f_mtime st) @ CRLF @ ''Server: Test1.0'' @ CRLF @ ''Accept: bytes'' @ CRLF @ CRLF"

definition file_part :: "http_env \<Rightarrow> string \<Rightarrow> string" where
  "file_part env path =
     (if serve env path = FILE_REQUEST
      then case h_stat env (LOCAL_FILE_ADDR @ path) of None \<Rightarrow> [] | Some st \<Rightarrow> f_content st else [])"

definition get_text :: "http_env \<Rightarrow> string \<Rightarrow> string" where
  "get_text env path =
     (case serve env path of
        NO_RESOURCE \<Rightarrow> error_text 404 ''Not Found'' error_404_form
      | BAD_REQUEST \<Rightarrow> error_text 400 ''Bad Request'' error_400_form
      | FORBIDDEN_REQUEST \<Rightarrow> error_text 403 ''Forbidden'' error_403_form
      | INTERNAL_ERROR \<Rightarrow> error_text 500 ''Internal Error'' error_500_form
      | _ \<Rightarrow> ok_text env (int (length (file_part env path))))"

lemma get_text_nonempty: "get_text env path \<noteq> []"
  by (simp add: get_text_def error_text_def ok_text_def split: http_code.split)

text \<open>What \<^verbatim>\<open>writev\<close> puts on the wire behind the package header.\<close>

fun iov_text :: "HttpServer \<Rightarrow> iov \<Rightarrow> string" where
  "iov_text h I_pkg_header = []"
| "iov_text h (I_write n) = take n (m_write_buffer h)"
| "iov_text h (I_file start len) = (case m_file_ptr h of None \<Rightarrow> [] | Some f \<Rightarrow> take (nat len) (drop (nat start) f))"

definition wire_text :: "HttpServer \<Rightarrow> string" where
  "wire_text h = concat (map (iov_text h) (m_iov h))"

text \<open>
  What the C library promises of dates and the clock: the formatted date has at most 29 characters, as many as
  the buffer of \<^verbatim>\<open>TIME_BUFFER_SIZE\<close> holds, none of them the terminator, and the time fits \<^verbatim>\<open>time_t\<close>.
\<close>

definition clock_ok :: "http_env \<Rightarrow> bool" where
  "clock_ok env \<longleftrightarrow> (\<forall>t. length (h_strftime env t) \<le> 29 \<and> NUL \<notin> set (h_strftime env t)) \<and> \<bar>h_now env\<bar> < 2 ^ 63"

lemma length_to_string: "\<bar>i\<bar> < 10 ^ 19 \<Longrightarrow> length (to_string i) \<le> 20"
proof -
  assume "\<bar>i\<bar> < 10 ^ 19"
  then have "nat \<bar>i\<bar> < 10 ^ 19" by (simp add: nat_less_iff)
  then have "length (nat_to_string (nat \<bar>i\<bar>)) \<le> 19" by (intro length_nat_to_string_bound) simp_all
  then show ?thesis by (auto simp: to_string_def abs_if split: if_splits)
qed

lemma NUL_to_string [simp]: "NUL \<notin> set (to_string i)"
proof -
  have "NUL \<notin> set (nat_to_string n)" for n
    using nat_to_string_digits [of n] isdigit_not_special by (auto simp: isdigit_def)
  then show ?thesis by (auto simp: to_string_def)
qed

lemma ok_text_fits:
  assumes "clock_ok env" "0 \<le> len" "len < 2 ^ 31"
  shows "length (ok_text env len) < 1000" "NUL \<notin> set (ok_text env len)"
proof -
  have "length (to_string len) \<le> 20" "length (to_string (h_now env)) \<le> 20"
    by (rule length_to_string, use assms in \<open>auto simp: clock_ok_def\<close>)+
  moreover have "length (h_strftime env t) \<le> 29" for t using assms(1) by (simp add: clock_ok_def)
  from this [of "h_now env"] this [of "h_now env + 300"]
  show "length (ok_text env len) < 1000" using calculation by (simp add: ok_text_def)
  show "NUL \<notin> set (ok_text env len)" using assms(1) by (simp add: ok_text_def clock_ok_def)
qed

lemma error_text_fits:
  "length form < 200 \<Longrightarrow> length title < 200 \<Longrightarrow> NUL \<notin> set form \<Longrightarrow> NUL \<notin> set title \<Longrightarrow> \<bar>status\<bar> < 1000 \<Longrightarrow>
   length (error_text status title form) < 1000 \<and> NUL \<notin> set (error_text status title form)"
  using length_to_string [of status] length_to_string [of "int (length form)"] by (auto simp: error_text_def)

lemma error_reply_put:
  "length t \<le> WRITE_BUFFER_SIZE \<Longrightarrow>
   error_reply status title form (put_text t h) = put_res (t @ error_text status title form) h"
  by (auto simp: error_reply_def error_text_def add_status_line_def add_headers_def add_content_def add_blank_line_def put_res_def)

lemma add_cookie_put:
  "length t \<le> WRITE_BUFFER_SIZE \<Longrightarrow>
   add_cookie env cookieName expirse path domain (put_text t h) =
   put_res (t @ ''Set-Cookie: '' @ cookieName @ to_string 61 @ get_cookie_value env ''zyf'' @ ''; '' @
     ''expirse='' @ h_strftime env (h_now env + expirse) @ ''; '' @ ''path='' @ path @ ''; '' @
     ''domain='' @ domain @ CRLF) h"
  by (auto simp: add_cookie_def put_res_def)

lemma to_string_numerals [simp]:
  "to_string 61 = ''61''" "to_string 200 = ''200''" "to_string 206 = ''206''" "to_string 304 = ''304''"
  by code_simp+

lemma get_file_put:
  assumes "m_cookie_value h = None" "m_header_func_vec h = []"
  shows "GET_func env FILE_REQUEST (put_text [] h) =
    res_bind (put_res (ok_text env (m_content_length h)) h) (\<lambda>h. Inr (three_iov 0 (m_content_length h) h))"
  using assms
  by (auto simp: GET_func_def add_status_line_def add_date_def add_blank_line_def add_cookie_put get_cookie_value_def
    ok_text_def put_res_def)

lemma head_put:
  assumes "m_stat h = Some st"
  shows "HEAD_func env c (put_text [] h) =
    res_bind (put_res (head_text env st (m_content_length h)) h) (\<lambda>h. Inr (two_iov h))"
  using assms
  by (auto simp: HEAD_func_def add_status_line_def add_date_def add_blank_line_def head_text_def put_res_def)

lemma head_text_fits:
  assumes "clock_ok env" "0 \<le> len" "len < 2 ^ 31"
  shows "length (head_text env st len) < 4096" "NUL \<notin> set (head_text env st len)"
proof -
  have "length (to_string len) \<le> 20" by (rule length_to_string) (use assms in auto)
  moreover have "length (h_strftime env t) \<le> 29" for t using assms(1) by (simp add: clock_ok_def)
  from this [of "h_now env"] this [of "f_mtime st"]
  show "length (head_text env st len) < 4096" using calculation by (simp add: head_text_def)
  show "NUL \<notin> set (head_text env st len)" using assms(1) by (simp add: head_text_def clock_ok_def)
qed

text \<open>A text that fits with its terminator is read back by \<^verbatim>\<open>strlen\<close> and sent in full.\<close>

lemma put_text_cstr:
  assumes "length t < WRITE_BUFFER_SIZE" "NUL \<notin> set t"
  shows "NUL \<in> set (m_write_buffer (put_text t h))" "cstr (m_write_buffer (put_text t h)) = t"
    "take (length t) (m_write_buffer (put_text t h)) = t"
proof -
  obtain k where "WRITE_BUFFER_SIZE - length t = Suc k" using assms(1) by (cases "WRITE_BUFFER_SIZE - length t") auto
  then have "m_write_buffer (put_text t h) = t @ NUL # replicate k NUL" by (simp add: put_text_def)
  then show "NUL \<in> set (m_write_buffer (put_text t h))" "cstr (m_write_buffer (put_text t h)) = t"
    "take (length t) (m_write_buffer (put_text t h)) = t" using assms(2) by simp_all
qed

lemma Business_put:
  assumes "process_read env (load_request body h) = Inr (c, h1)" "process_write env c h1 = Inr h2"
    and "m_write_buffer h2 = m_write_buffer (put_text t h1)" "length t < WRITE_BUFFER_SIZE" "NUL \<notin> set t"
  shows "\<exists>pkgLen. Business env body h = Inr (pkgLen, h2) \<and>
     uint pkgLen = (int (length t) + m_content_length h2 + 8) mod 65536"
proof (intro exI conjI)
  let ?len = "word_of_int (int (length t) + m_content_length h2 + 8) :: u16"
  show "Business env body h = Inr (?len, h2)"
    using assms put_text_cstr [OF assms(4,5), of h1] by (simp add: Business_def PKGHEADERLEN_def)
  show "uint ?len = (int (length t) + m_content_length h2 + 8) mod 65536"
    by (simp only: uint_word_of_int) simp
qed

lemma request_read:
  assumes g: "good_request word host path hs" and l: "length path < 190" and o: "method_of word GET \<noteq> OPTIONS"
  shows "\<exists>h1. process_read env (load_request (request word host path hs) (init_http old)) = Inr (serve env path, h1) \<and>
     m_method h1 = method_of word GET \<and> m_check_idx h1 = length (request word host path hs) \<and> put_text [] h1 = h1 \<and> m_cookie_value h1 = None \<and> m_header_func_vec h1 = [] \<and>
     (\<forall>st. h_stat env (LOCAL_FILE_ADDR @ path) = Some st \<longrightarrow> m_stat h1 = Some st) \<and>
     m_content_length h1 = wrap32 (int (length (file_part env path))) \<and>
     (serve env path = FILE_REQUEST \<longrightarrow> m_file_ptr h1 = Some (file_part env path))"
proof -
  have pn: "NUL \<notin> set path" using g by (auto simp: good_request_def good_line_def plain_def)
  obtain h' u where h': "process_read env (load_request (request word host path hs) (init_http old)) = do_request env h'"
    "m_url h' = Some u" "str_at h' u = Inr path" "m_method h' = method_of word GET" "m_filename h' = replicate FILENAME_LEN NUL"
    "m_range_start h' = 0" "m_if_modified_since_time h' = 0" "m_if_unmodified_since_time h' = 0" "m_content_length h' = 0"
    "write_view h' = (replicate WRITE_BUFFER_SIZE NUL, 0, None, [])" "m_check_idx h' = length (request word host path hs)"
    using request_parsed [OF g, of env old] by blast
  obtain h1 where h1: "do_request env h' = Inr (serve env path, h1)" "m_method h1 = m_method h'" "write_view h1 = write_view h'"
    "m_stat h1 = (case h_stat env (LOCAL_FILE_ADDR @ path) of None \<Rightarrow> m_stat h' | Some st \<Rightarrow> Some st)"
    "serve env path \<noteq> FILE_REQUEST \<longrightarrow> m_content_length h1 = m_content_length h'"
    "serve env path = FILE_REQUEST \<longrightarrow> m_file_ptr h1 = map_option f_content (h_stat env (LOCAL_FILE_ADDR @ path)) \<and>
        (\<forall>st. h_stat env (LOCAL_FILE_ADDR @ path) = Some st \<longrightarrow> m_content_length h1 = wrap32 (int (length (f_content st))))"
    using do_request_serves [of h' u path env] h' o l pn by auto
  have "\<exists>st. h_stat env (LOCAL_FILE_ADDR @ path) = Some st" if "serve env path = FILE_REQUEST"
    using that by (auto simp: serve_def split: option.splits)
  moreover have "wrap32 0 = 0" by (simp add: wrap32_def)
  moreover have "put_text [] h1 = h1" using h1(3) h'(10) by (intro put_text_empty) (simp_all add: write_view_def)
  ultimately show ?thesis
    using h' h1 do_request_idx [OF h1(1)] by (auto simp: file_part_def write_view_def)
qed

lemma serve_range:
  "serve env path = NO_RESOURCE \<or> serve env path = BAD_REQUEST \<or> serve env path = FORBIDDEN_REQUEST \<or>
   serve env path = INTERNAL_ERROR \<or> serve env path = FILE_REQUEST"
  by (simp add: serve_def split: option.split)

lemma serve_cases:
  obtains "serve env path = NO_RESOURCE" | "serve env path = BAD_REQUEST" | "serve env path = FORBIDDEN_REQUEST"
    | "serve env path = INTERNAL_ERROR" | "serve env path = FILE_REQUEST"
  using serve_range [of env path] by blast

lemma get_text_short:
  assumes "clock_ok env" "length (file_part env path) < 2 ^ 31"
  shows "length (get_text env path) < 1000" "NUL \<notin> set (get_text env path)"
proof -
  have ok: "length (ok_text env (int (length (file_part env path)))) < 1000" "NUL \<notin> set (ok_text env (int (length (file_part env path))))"
    by (rule ok_text_fits [OF assms(1)], use assms(2) in simp_all)+
  note er = error_text_fits [of error_404_form "''Not Found''" 404] error_text_fits [of error_400_form "''Bad Request''" 400]
    error_text_fits [of error_403_form "''Forbidden''" 403] error_text_fits [of error_500_form "''Internal Error''" 500]
  show "length (get_text env path) < 1000" "NUL \<notin> set (get_text env path)"
    by (rule serve_cases [of env path]; use ok er in \<open>simp add: get_text_def
      error_404_form_def error_400_form_def error_403_form_def error_500_form_def\<close>)+
qed

lemma get_text_fits:
  assumes "clock_ok env" "length (file_part env path) < 2 ^ 31"
  shows "length (get_text env path) < WRITE_BUFFER_SIZE" "NUL \<notin> set (get_text env path)"
  using get_text_short [OF assms] by (simp_all add: WRITE_BUFFER_SIZE_def)

text \<open>The written part of a \<^verbatim>\<open>GET\<close> reply.\<close>

lemma GET_func_text:
  assumes "put_text [] h = h" "m_cookie_value h = None" "m_header_func_vec h = []" "clock_ok env"
    and "length (file_part env path) < 2 ^ 31" "m_content_length h = int (length (file_part env path))"
  shows "GET_func env (serve env path) h =
     Inr ((if serve env path = FILE_REQUEST then three_iov 0 (m_content_length h) else two_iov) (put_text (get_text env path) h))"
proof -
  have f: "length (get_text env path) \<le> WRITE_BUFFER_SIZE" using get_text_fits [OF assms(4,5)] by simp
  note er = error_reply_put [of "[]" _ _ _ h, unfolded assms(1), simplified]
  note gf = get_file_put [OF assms(2,3), of env, unfolded assms(1)]
  show ?thesis
    by (rule serve_cases [of env path]; use f er gf assms(6) in \<open>simp add: get_text_def; simp add: GET_func_def\<close>)
qed

text \<open>The object after a \<^verbatim>\<open>GET\<close> request of \<open>n\<close> characters: nothing is reset.\<close>

definition served_object :: "http_env \<Rightarrow> string \<Rightarrow> nat \<Rightarrow> HttpServer \<Rightarrow> bool" where
  "served_object env path n h \<longleftrightarrow>
     m_method h = GET \<and> m_check_idx h = n \<and> put_text (get_text env path) h = h \<and>
     m_content_length h = int (length (file_part env path)) \<and>
     m_iov h = [I_pkg_header, I_write (length (get_text env path))] @
       (if serve env path = FILE_REQUEST then [I_file 0 (int (length (file_part env path)))] else []) \<and>
     (serve env path = FILE_REQUEST \<longrightarrow> m_file_ptr h = Some (file_part env path))"

text \<open>A \<^verbatim>\<open>GET\<close> request from the message to the parts of the reply.\<close>

lemma get_business:
  assumes g: "good_request word host path hs" "length path < 190" "method_of word GET = GET"
    and c: "clock_ok env" "length (file_part env path) < 2 ^ 31"
  shows "\<exists>pkgLen h'. Business env (request word host path hs) (init_http old) = Inr (pkgLen, h') \<and>
     wire_text h' = get_text env path @ file_part env path \<and>
     iov_total h' = 8 + int (length (wire_text h')) \<and> uint pkgLen = iov_total h' mod 65536 \<and>
     length (m_read_buffer h') = length (request word host path hs) \<and>
     served_object env path (length (request word host path hs)) h'"
proof -
  obtain h1 where h1: "process_read env (load_request (request word host path hs) (init_http old)) = Inr (serve env path, h1)"
    "m_method h1 = GET" "put_text [] h1 = h1" "m_cookie_value h1 = None" "m_header_func_vec h1 = []"
    "m_content_length h1 = wrap32 (int (length (file_part env path)))"
    "serve env path = FILE_REQUEST \<longrightarrow> m_file_ptr h1 = Some (file_part env path)"
    "m_check_idx h1 = length (request word host path hs)"
    using request_read [OF g(1,2), of env old] g(3) by auto
  have len: "m_content_length h1 = int (length (file_part env path))"
    using h1(6) c(2) by (simp add: wrap32_small)
  note fit = get_text_fits [OF c]
  let ?h2 = "(if serve env path = FILE_REQUEST then three_iov 0 (m_content_length h1) else two_iov) (put_text (get_text env path) h1)"
  have w: "process_write env (serve env path) h1 = Inr ?h2"
    using GET_func_text [OF h1(3-5) c len] h1(2) by (simp add: process_write_def)
  have b: "m_write_buffer ?h2 = m_write_buffer (put_text (get_text env path) h1)" "m_content_length ?h2 = m_content_length h1"
    by (simp_all add: three_iov_def two_iov_def)
  have fp: "serve env path \<noteq> FILE_REQUEST \<Longrightarrow> file_part env path = []" by (simp add: file_part_def)
  have t: "wire_text ?h2 = get_text env path @ file_part env path"
    using put_text_cstr(3) [OF fit, of h1] h1(7) len fp
    by (auto simp: wire_text_def three_iov_def two_iov_def)
  have i: "iov_total ?h2 = 8 + int (length (wire_text ?h2))"
    using t len fp by (auto simp: iov_total_def three_iov_def two_iov_def)
  have rb: "length (m_read_buffer ?h2) = length (request word host path hs)"
    using process_read_loop_len [OF h1(1) [unfolded process_read_def]]
    by (simp add: three_iov_def two_iov_def put_text_def load_request_def)
  have so: "served_object env path (length (request word host path hs)) ?h2"
    using h1(2,7,8) len by (simp add: served_object_def three_iov_def two_iov_def put_text_def)
  show ?thesis
    using Business_put [OF h1(1) w b(1) fit] t i b(2) len rb so by (auto simp: algebra_simps)
qed

text \<open>
  The next request on such an object: the parser finds no line, and the error reply is appended to the first
  reply, whose text is sent once more; the length still counts the file of the first reply.
\<close>

definition bad_text :: string where
  "bad_text = error_text 400 ''Bad Request'' error_400_form"

lemma bad_text_short: "length bad_text < 1000" "NUL \<notin> set bad_text"
  using error_text_fits [of error_400_form "''Bad Request''" 400] by (simp_all add: bad_text_def error_400_form_def)

lemma next_business:
  assumes so: "served_object env path n h" and l: "length body \<le> n"
    and c: "clock_ok env" "length (file_part env path) < 2 ^ 31"
  shows "\<exists>pkgLen h'. Business env body h = Inr (pkgLen, h') \<and> wire_text h' = get_text env path @ bad_text \<and>
     iov_total h' = 8 + int (length (wire_text h')) \<and>
     uint pkgLen = (iov_total h' + int (length (file_part env path))) mod 65536 \<and> m_read_buffer h' = body"
proof -
  let ?t = "get_text env path @ bad_text" and ?h1 = "load_request body h"
  have fit: "length ?t < WRITE_BUFFER_SIZE" "NUL \<notin> set ?t"
    using get_text_short [OF c] bad_text_short by (simp_all add: WRITE_BUFFER_SIZE_def)
  have "parse_line ?h1 = Inr (LINE_OPEN, ?h1)"
    using so l by (simp add: parse_line_def load_request_def served_object_def)
  then have p: "process_read env ?h1 = Inr (BAD_REQUEST, ?h1)" by (simp add: process_read_def)
  have h1: "put_text (get_text env path) ?h1 = ?h1" "m_method ?h1 = GET" "m_content_length ?h1 = int (length (file_part env path))"
    using so by (simp_all add: served_object_def load_request_def put_text_fixed)
  have w: "process_write env BAD_REQUEST ?h1 = Inr (two_iov (put_text ?t ?h1))"
    using error_reply_put [of "get_text env path" 400 "''Bad Request''" error_400_form ?h1] h1 fit(1)
    by (simp add: process_write_def GET_func_def bad_text_def)
  have b: "m_write_buffer (two_iov (put_text ?t ?h1)) = m_write_buffer (put_text ?t ?h1)" by (simp add: two_iov_def)
  have "wire_text (two_iov (put_text ?t ?h1)) = ?t" "iov_total (two_iov (put_text ?t ?h1)) = 8 + int (length ?t)"
    "m_content_length (two_iov (put_text ?t ?h1)) = int (length (file_part env path))"
    "m_read_buffer (two_iov (put_text ?t ?h1)) = body"
    using put_text_cstr(3) [OF fit, of ?h1] h1(3)
    by (simp_all add: wire_text_def iov_total_def two_iov_def) (simp add: put_text_def load_request_def)
  then show ?thesis using Business_put [OF p w b fit] by (auto simp: algebra_simps)
qed

section \<open>Properties\<close>

text \<open>
  A \<^verbatim>\<open>GET\<close> request is answered with exactly the specified reply. On a fresh object, for a well formed
  request for a path of fewer than 190 characters and a file of fewer than 2 GiB, \<^verbatim>\<open>Business\<close> returns
  without a fault and without overrunning the write buffer; what goes on the wire behind the package header
  is the text that \<open>get_text\<close> specifies (an error reply or the header of the file, with date and cookie)
  followed by the contents of the file; and the length in the package header is the number of bytes sent,
  reduced to 16 bits.
\<close>

theorem get_answered:
  assumes g: "good_request word host path hs" "length path < 190" "method_of word GET = GET"
    and c: "clock_ok env" "length (file_part env path) < 2 ^ 31"
  shows "\<exists>pkgLen h'. Business env (request word host path hs) (init_http old) = Inr (pkgLen, h') \<and>
     wire_text h' = get_text env path @ file_part env path \<and>
     iov_total h' = 8 + int (length (wire_text h')) \<and> uint pkgLen = iov_total h' mod 65536"
  using get_business [OF assms, of old] by blast

theorem get_answered_witness:
  "\<exists>pkgLen h'. Business sample_http_env (request ''GET'' ''h'' ''/a'' [(''Host'', '' h'')]) (init_http blank_http) = Inr (pkgLen, h') \<and>
     wire_text h' = ok_text sample_http_env 5 @ ''hello''"
proof -
  have g: "good_request ''GET'' ''h'' ''/a'' [(''Host'', '' h'')]" "length ''/a'' < 190" "method_of ''GET'' GET = GET"
    by (auto simp: good_request_def good_line_def plain_def inert_header_def method_of_def strcasecmp0_def)
  have s: "serve sample_http_env ''/a'' = FILE_REQUEST" "file_part sample_http_env ''/a'' = ''hello''"
    by (simp_all add: file_part_def serve_def sample_http_env_def LOCAL_FILE_ADDR_def sample_file_def)
  have c: "clock_ok sample_http_env" "length (file_part sample_http_env ''/a'') < 2 ^ 31"
    by (simp_all add: clock_ok_def s(2)) (simp_all add: sample_http_env_def)
  show ?thesis
    using get_answered [OF g c, of blank_http] s by (auto simp: get_text_def)
qed

text \<open>
  The reply to \<^verbatim>\<open>HEAD\<close> announces bytes that are never sent. For a file that would be served, the text
  written is the specified header alone, but the length told to the sender also counts the contents of the
  file: it exceeds what \<^verbatim>\<open>writev\<close> is given by exactly the size of the file, so the sender takes the reply for
  incomplete.
\<close>

theorem head_length_overstated:
  assumes g: "good_request word host path hs" "length path < 190" "method_of word GET = HEAD"
    and c: "clock_ok env" "serve env path = FILE_REQUEST" "length (file_part env path) < 60000"
  shows "\<exists>pkgLen h' st. Business env (request word host path hs) (init_http old) = Inr (pkgLen, h') \<and>
     h_stat env (LOCAL_FILE_ADDR @ path) = Some st \<and>
     wire_text h' = head_text env st (int (length (file_part env path))) \<and>
     uint pkgLen = iov_total h' + int (length (file_part env path)) \<and> iov_total h' < uint pkgLen"
proof -
  obtain st where st: "h_stat env (LOCAL_FILE_ADDR @ path) = Some st" "file_part env path = f_content st" "f_content st \<noteq> []"
    using c(2) by (auto simp: serve_def file_part_def split: option.splits if_splits)
  obtain h1 where h1: "process_read env (load_request (request word host path hs) (init_http old)) = Inr (serve env path, h1)"
    "m_method h1 = HEAD" "put_text [] h1 = h1" "m_stat h1 = Some st"
    "m_content_length h1 = wrap32 (int (length (file_part env path)))"
    using request_read [OF g(1,2), of env old] g(3) st(1) by auto
  have len: "m_content_length h1 = int (length (file_part env path))"
    using h1(5) c(3) by (simp add: wrap32_small)
  let ?t = "head_text env st (int (length (file_part env path)))"
  have fit: "length ?t < WRITE_BUFFER_SIZE" "NUL \<notin> set ?t"
    using head_text_fits [OF c(1), of "int (length (file_part env path))" st] c(3) by (simp_all add: WRITE_BUFFER_SIZE_def)
  let ?h2 = "two_iov (put_text ?t h1)"
  have w: "process_write env (serve env path) h1 = Inr ?h2"
    using head_put [OF h1(4), of env "serve env path", unfolded h1(3)] h1(2) len fit by (simp add: process_write_def)
  have b: "m_write_buffer ?h2 = m_write_buffer (put_text ?t h1)" "m_content_length ?h2 = m_content_length h1"
    by (simp_all add: two_iov_def)
  have t: "wire_text ?h2 = ?t" "iov_total ?h2 = 8 + int (length ?t)"
    using put_text_cstr(3) [OF fit, of h1] by (simp_all add: wire_text_def iov_total_def two_iov_def)
  have "int (length ?t) + m_content_length ?h2 + 8 < 65536" using fit(1) len b(2) c(3) by (simp add: WRITE_BUFFER_SIZE_def)
  then have "(int (length ?t) + m_content_length ?h2 + 8) mod 65536 = iov_total ?h2 + int (length (file_part env path))"
    using t(2) len b(2) by simp
  then show ?thesis
    using Business_put [OF h1(1) w b(1) fit] t(1) st by auto
qed

theorem head_length_overstated_witness:
  "\<exists>pkgLen h'. Business sample_http_env (request ''HEAD'' ''h'' ''/a'' []) (init_http blank_http) = Inr (pkgLen, h') \<and>
     wire_text h' = head_text sample_http_env sample_file 5 \<and> uint pkgLen = iov_total h' + 5"
proof -
  have g: "good_request ''HEAD'' ''h'' ''/a'' []" "length ''/a'' < 190" "method_of ''HEAD'' GET = HEAD"
    by (auto simp: good_request_def good_line_def plain_def method_of_def strcasecmp0_def tolower_def)
  have s: "serve sample_http_env ''/a'' = FILE_REQUEST" "file_part sample_http_env ''/a'' = ''hello''"
    "h_stat sample_http_env (LOCAL_FILE_ADDR @ ''/a'') = Some sample_file"
    by (simp_all add: file_part_def serve_def sample_http_env_def LOCAL_FILE_ADDR_def sample_file_def)
  have c: "clock_ok sample_http_env" "length (file_part sample_http_env ''/a'') < 60000"
    by (simp_all add: clock_ok_def s(2)) (simp_all add: sample_http_env_def)
  show ?thesis
    using head_length_overstated [OF g c(1) s(1) c(2), of blank_http] s by auto
qed

end
