(* ===== verification/HttpWrite.thy ===== *)
theory HttpWrite
  imports HttpReply
begin

text \<open>
  The writing of replies: \<^verbatim>\<open>WriteData\<close> and \<^verbatim>\<open>HttpWriteData\<close> of \<^verbatim>\<open>logic/ngx_c_http.cpp\<close>, and the answers they give to the
  senders of \<^verbatim>\<open>net/ngx_c_socket_request.cpp\<close>, which call them through \<^verbatim>\<open>WriteFunc\<close>. What the kernel does with each \<^verbatim>\<open>writev\<close> is an
  argument.
\<close>

section \<open>WriteData\<close>

text \<open>
  \<^verbatim>\<open>HttpWriteData\<close>: one \<^verbatim>\<open>writev\<close> of the parts, then the mapping of the file is given up. The pointer is not
  cleared, so \<open>mapped\<close> is kept apart from it; giving up a mapping twice is an error the kernel ignores, reading one
  that is gone makes \<^verbatim>\<open>writev\<close> fail.
\<close>

fun reads_file :: "iov \<Rightarrow> bool" where
  "reads_file (I_file start len) \<longleftrightarrow> 0 < len"
| "reads_file _ \<longleftrightarrow> False"

definition needs_file :: "HttpServer \<Rightarrow> bool" where
  "needs_file h = list_ex reads_file (m_iov h)"

definition HttpWriteData :: "int \<Rightarrow> bool \<Rightarrow> HttpServer \<Rightarrow> int \<times> bool" where
  "HttpWriteData taken mapped h =
     (let ret = (if needs_file h \<and> \<not> mapped then - 1 else taken) in
      (ret, if m_file_ptr h \<noteq> None then False else mapped))"

definition WriteData :: "int \<Rightarrow> bool \<Rightarrow> HttpServer \<Rightarrow> int \<times> bool" where
  "WriteData taken mapped h = HttpWriteData taken mapped h"

section \<open>WriteFunc of the senders\<close>

text \<open>
  \<^verbatim>\<open>HttpServer::WriteData\<close> as the \<^verbatim>\<open>WriteFunc\<close> of the senders. It does not look at the buffer and the length they pass: what
  goes out are the parts of \<^verbatim>\<open>m_iov\<close>, whatever the sender means to send. The kernel takes up to a number of bytes or
  refuses with an error; with nothing to write \<^verbatim>\<open>writev\<close> returns 0, and parts that are no longer mapped are refused
  with an error of their own (\<^verbatim>\<open>EFAULT\<close>). \<open>http_writes\<close> are the answers of successive calls, of which the object keeps only
  whether the file is still mapped.
\<close>

datatype kernel_ret = K_take nat | K_err errno

fun writev_ret :: "kernel_ret \<Rightarrow> HttpServer \<Rightarrow> int" where
  "writev_ret (K_take n) h = min (int n) (iov_total h)"
| "writev_ret (K_err e) h = (if iov_total h = 0 then 0 else - 1)"

definition http_write :: "kernel_ret \<Rightarrow> bool \<Rightarrow> HttpServer \<Rightarrow> write_ret \<times> bool" where
  "http_write k mapped h =
     (let (ret, mapped') = WriteData (writev_ret k h) mapped h in
      (if ret = - 1 then W_fail (case k of K_err e \<Rightarrow> e | K_take n \<Rightarrow> EOTHER) else W_sent (nat ret), mapped'))"

fun http_writes :: "kernel_ret list \<Rightarrow> bool \<Rightarrow> HttpServer \<Rightarrow> write_ret list" where
  "http_writes [] mapped h = []"
| "http_writes (k # ks) mapped h = (let (w, mapped') = http_write k mapped h in w # http_writes ks mapped' h)"

section \<open>Lemmas\<close>

text \<open>The first writing of a reply that the kernel takes as a whole.\<close>

lemma http_write_all: "0 \<le> iov_total h \<Longrightarrow> iov_total h \<le> int n \<Longrightarrow> http_writes [K_take n] True h = [W_sent (nat (iov_total h))]"
  by (simp add: http_write_def WriteData_def HttpWriteData_def)

end
