(* ===== verification/HttpSession.thy ===== *)
theory HttpSession
  imports HttpWrite
begin

text \<open>
  A business message from the queue to the reply: the dispatcher (\<^verbatim>\<open>threadRecvProcFunc\<close>) with \<^verbatim>\<open>HttpServer::Business\<close> as
  its virtual method, followed by the sender. This joins the components of message dispatch, HTTP and sending.
\<close>

section \<open>Bytes and characters\<close>

lemma char_of_u8_of_char [simp]: "char_of_u8 (u8_of_char c) = c"
proof -
  have "unat (of_nat (of_char c) :: u8) = of_char c" by (simp add: unat_of_nat)
  then show ?thesis by (simp add: char_of_u8_def u8_of_char_def)
qed

lemma map_char_of_u8 [simp]: "map (char_of_u8 \<circ> u8_of_char) s = s"
  by (simp add: comp_def)

lemma read_bytes_Some [simp]: "read_bytes (map (\<lambda>x. Some (f x)) xs) = Inr (map f xs)"
  by (induction xs) auto

lemma unat_u32_of_u16: "unat (ucast (x :: u16) :: u32) = unat x"
proof -
  have "unat x < 65536" using unsigned_less [of x] by simp
  then show ?thesis by (simp add: unsigned_ucast_eq take_bit_nat_eq_self)
qed

section \<open>The message\<close>

text \<open>A business message with its body, as receiving leaves it in a block of message memory.\<close>

definition business_block :: "conn_ptr \<Rightarrow> u64 \<Rightarrow> u32 \<Rightarrow> string \<Rightarrow> msg_block" where
  "business_block c sq crc body =
     \<lparr>mb_header = Some \<lparr>pConn = c, hdr_sequence = sq\<rparr>,
      mb_bytes = map Some (pkg_header (of_nat (8 + length body)) CMD_BUSINESS crc) @ map (\<lambda>x. Some (u8_of_char x)) body\<rparr>"

lemma business_fields:
  "u16_at 0 (business_block c sq crc body) = Inr (of_nat (8 + length body))"
  "u16_at 2 (business_block c sq crc body) = Inr CMD_BUSINESS"
  unfolding business_block_def by (rule pkg_header_fields)+

section \<open>Dispatch and reply\<close>

text \<open>
  The dispatcher on a business message whose sequence number is current, when the connection's mutex can be
  taken: the business function runs, then the sender gets the answers \<open>ws\<close> of the kernel.
\<close>

lemma dispatch_business:
  assumes v: "valid_conn cs c" and mu: "m_ETflag cs = ETCLOSE \<Longrightarrow> \<not> logicPorcMutex (conns cs c)"
    and m: "mem cs q = Some (business_block c (iCurrsequence (conns cs c)) crc body)"
    and l: "body \<noteq> []" "length body < 65528"
  shows "threadRecvProcFunc business e ws obj (Some q) cs =
    res_bind (business obj c q (of_nat (length body))
      (conn_put c ((conns cs c)\<lparr>logicPorcMutex := logicPorcMutex (conns cs c) \<or> m_ETflag cs = ETCLOSE\<rparr>) cs))
      (\<lambda>cs. res_bind (sendMsg e ws q cs) (FreeMemory (Some q)))"
proof -
  have "unat (of_nat (length body) :: u16) = length body" using l(2) by (simp add: unat_of_nat)
  then have "of_nat (length body) \<noteq> (0 :: u16)" using l(1) by auto
  then have "of_nat (8 + length body) \<noteq> (8 :: u16)" by simp
  moreover have "\<not> (2 :: u16) \<le> 1" by (simp add: word_le_nat_alt)
  moreover have "of_nat (8 + length body) - 8 = (of_nat (length body) :: u16)" by simp
  ultimately show ?thesis
    using m lock_if_LT_eq [OF v mu] business_fields
    by (simp add: threadRecvProcFunc_def mem_get_def msg_header_of_def business_block_def PKGHEADERLEN_def HandleBusiness_def
      CMD_BUSINESS_def CMD_PING_def HandleNum_def res_bind_assoc)
qed

text \<open>The state in which the sender is called.\<close>

definition replying :: "conn_ptr \<Rightarrow> mem_ptr \<Rightarrow> msg_block \<Rightarrow> u16 \<Rightarrow> csocket \<Rightarrow> csocket" where
  "replying c q b pkgLen cs =
     conn_put c ((conns cs c)\<lparr>logicPorcMutex := logicPorcMutex (conns cs c) \<or> m_ETflag cs = ETCLOSE,
       deleteFlag := False, isendlen := ucast pkgLen\<rparr>) (mem_put q b cs)"

lemma replying_fields [sock_simps]:
  "valid_conn (replying c q b n cs) p = valid_conn cs p"
  "mem (replying c q b n cs) = (mem cs)(q \<mapsto> b)" "tasks (replying c q b n cs) = tasks cs"
  "p \<noteq> c \<Longrightarrow> conns (replying c q b n cs) p = conns cs p"
  "conns (replying c q b n cs) c = (conns cs c)\<lparr>logicPorcMutex := logicPorcMutex (conns cs c) \<or> m_ETflag cs = ETCLOSE,
     deleteFlag := False, isendlen := ucast n\<rparr>"
  by (simp_all add: replying_def sock_simps mem_put_def)

text \<open>The members of a connection that receiving works on.\<close>

definition same_reading :: "ngx_connection \<Rightarrow> ngx_connection \<Rightarrow> bool" where
  "same_reading t u \<longleftrightarrow> curStat t = curStat u \<and> dataHeadInfo t = dataHeadInfo u \<and> precvbuf t = precvbuf u \<and>
     irecvlen t = irecvlen u \<and> precvMemPointer t = precvMemPointer u \<and> iCurrsequence t = iCurrsequence u \<and>
     logicObj t = logicObj u"

section \<open>The interface of protocol objects\<close>

text \<open>
  What the dispatcher relies on of the virtual method \<^verbatim>\<open>Business\<close>: for a body it answers, with a reply of \<open>n\<close> bytes
  (\<open>answer\<close>), it returns, keeps the message header in the message block, sets the length to send and the flag
  that the reply has no memory of its own, and changes nothing else.
\<close>

locale protocol =
  fixes business :: business_fun and answer :: "nat \<Rightarrow> string \<Rightarrow> u16 option"
  assumes answers: "answer ob body = Some n \<Longrightarrow> valid_conn cs c \<Longrightarrow> mem cs q = Some (business_block c sq crc body) \<Longrightarrow>
    length body < 65528 \<Longrightarrow>
    \<exists>b. mb_header b = Some \<lparr>pConn = c, hdr_sequence = sq\<rparr> \<and>
      business (Some ob) c q (of_nat (length body)) cs =
        Inr (conn_put c ((conns cs c)\<lparr>deleteFlag := False, isendlen := ucast n\<rparr>) (mem_put q b cs))"
begin

lemma dispatched:
  assumes "valid_conn cs c" "m_ETflag cs = ETCLOSE \<Longrightarrow> \<not> logicPorcMutex (conns cs c)"
    and "mem cs q = Some (business_block c (iCurrsequence (conns cs c)) crc body)" "body \<noteq> []" "length body < 65528"
    and "answer ob body = Some n"
  shows "\<exists>b. mb_header b = Some \<lparr>pConn = c, hdr_sequence = iCurrsequence (conns cs c)\<rparr> \<and>
    threadRecvProcFunc business e ws (Some ob) (Some q) cs =
      res_bind (sendMsg e ws q (replying c q b n cs)) (FreeMemory (Some q))"
proof -
  let ?cs = "conn_put c ((conns cs c)\<lparr>logicPorcMutex := logicPorcMutex (conns cs c) \<or> m_ETflag cs = ETCLOSE\<rparr>) cs"
  have "valid_conn ?cs c" "mem ?cs q = Some (business_block c (iCurrsequence (conns cs c)) crc body)"
    using assms(1,3) by (simp_all add: sock_simps)
  then obtain b where b: "mb_header b = Some \<lparr>pConn = c, hdr_sequence = iCurrsequence (conns cs c)\<rparr>"
    "business (Some ob) c q (of_nat (length body)) ?cs =
      Inr (conn_put c ((conns ?cs c)\<lparr>deleteFlag := False, isendlen := ucast n\<rparr>) (mem_put q b ?cs))"
    using answers [OF assms(6)] assms(5) by blast
  have "conn_put c ((conns ?cs c)\<lparr>deleteFlag := False, isendlen := ucast n\<rparr>) (mem_put q b ?cs) = replying c q b n cs"
    by (simp add: replying_def conn_put_def mem_put_def)
  then show ?thesis
    using dispatch_business [OF assms(1-5)] b by (intro exI [of _ b]) simp
qed

text \<open>The kernel takes the whole reply, after any number of attempts that are retried.\<close>

lemma reply_taken:
  assumes "valid_conn cs c" "m_ETflag cs = ETCLOSE \<Longrightarrow> \<not> logicPorcMutex (conns cs c)"
    and "mem cs q = Some (business_block c (iCurrsequence (conns cs c)) crc body)" "body \<noteq> []" "length body < 65528"
    and "answer ob body = Some n" and r: "list_all (retried (ucast n)) rs"
  shows "\<exists>cs'. threadRecvProcFunc business e (rs @ W_sent (unat n) # ws) (Some ob) (Some q) cs = Inr cs' \<and>
     mem cs' = (mem cs)(q := None) \<and> \<not> logicPorcMutex (conns cs' c) \<and> isendlen (conns cs' c) = 0 \<and>
     tasks cs' = tasks cs \<and> (\<forall>p. valid_conn cs' p = valid_conn cs p) \<and> (\<forall>p. p \<noteq> c \<longrightarrow> conns cs' p = conns cs p) \<and>
     same_reading (conns cs' c) (conns cs c)"
proof -
  let ?ws = "rs @ W_sent (unat n) # ws"
  obtain b where b: "mb_header b = Some \<lparr>pConn = c, hdr_sequence = iCurrsequence (conns cs c)\<rparr>"
    "threadRecvProcFunc business e ?ws (Some ob) (Some q) cs = res_bind (sendMsg e ?ws q (replying c q b n cs)) (FreeMemory (Some q))"
    using dispatched [OF assms(1-6)] by blast
  let ?cs = "replying c q b n cs"
  have "releasable ?cs c" using assms(1) by (simp add: releasable_def sock_simps)
  moreover have "unat n = unat (isendlen (conns ?cs c))" by (simp add: sock_simps unat_u32_of_u16)
  ultimately have "sendMsg_loop e c ?ws ?cs = Inr (unlocked c (released c ?cs))"
    using sendMsg_loop_done sendMsg_loop_retries [of ?cs c rs e] r by (simp add: sock_simps)
  then have "sendMsg e ?ws q ?cs = Inr (unlocked c (released c ?cs))"
    using b(1) by (simp add: sendMsg_def msg_header_of_def mem_get_def sock_simps)
  moreover have "mem (unlocked c (released c ?cs)) = (mem cs)(q \<mapsto> b)"
    by (simp add: unlocked_def released_def sock_simps)
  ultimately show ?thesis using b(2) by (auto simp: FreeMemory_def unlocked_def released_def same_reading_def sock_simps)
qed

text \<open>The kernel takes fewer bytes than announced: the reply cannot be continued.\<close>

lemma reply_stuck:
  assumes "valid_conn cs c" "m_ETflag cs = ETCLOSE \<Longrightarrow> \<not> logicPorcMutex (conns cs c)"
    and "mem cs q = Some (business_block c (iCurrsequence (conns cs c)) crc body)" "body \<noteq> []" "length body < 65528"
    and "answer ob body = Some n" and k: "k < unat n" and p: "psendMemPointer (conns cs c) = None" and e: "e_epoll_ok e"
  shows "\<exists>cs'. threadRecvProcFunc business e (W_sent k # ws) (Some ob) (Some q) cs = Inr cs' \<and>
     epoll_set cs' (fd (conns cs c)) = Some \<lparr>ev_in = False, ev_out = True, ev_et = True, ev_ptr = c\<rparr> \<and>
     (\<forall>e' ws'. sendRemainMsg e' ws' c cs' = Inl NullDeref)"
proof -
  obtain b where b: "mb_header b = Some \<lparr>pConn = c, hdr_sequence = iCurrsequence (conns cs c)\<rparr>"
    "threadRecvProcFunc business e (W_sent k # ws) (Some ob) (Some q) cs =
       res_bind (sendMsg e (W_sent k # ws) q (replying c q b n cs)) (FreeMemory (Some q))"
    using dispatched [OF assms(1-6)] by blast
  let ?cs = "replying c q b n cs"
  have h: "msg_header_of q ?cs = Inr \<lparr>pConn = c, hdr_sequence = iCurrsequence (conns ?cs c)\<rparr>" "valid_conn ?cs c"
    "k < unat (isendlen (conns ?cs c))"
    using b(1) assms(1) k by (simp_all add: msg_header_of_def mem_get_def sock_simps unat_u32_of_u16)
  obtain cs1 where "sendMsg e (W_sent k # ws) q ?cs = Inr cs1" "mem cs1 = mem ?cs"
    "conns cs1 c = (send_advance k (conns ?cs c))\<lparr>rhandler := Some (if m_ETflag ?cs = ETOPEN then H_ngx_read_request_handler_ET
                                  else H_ngx_read_request_handler)\<rparr>"
    "epoll_set cs1 (fd (conns ?cs c)) = Some \<lparr>ev_in = False, ev_out = True, ev_et = True, ev_ptr = c\<rparr>"
    using sendMsg_partial [OF h, of e ws] e by blast
  then show ?thesis using b(2) p by (auto simp: FreeMemory_def sendRemainMsg_def sock_simps)
qed

end

section \<open>HTTP as a protocol\<close>

text \<open>The body read by \<open>http_business\<close>, and the block it leaves.\<close>

lemma http_business_eq:
  assumes v: "valid_conn cs c" and m: "mem cs q = Some (business_block c sq crc body)"
    and l: "length body < 65528" and b: "Business env body (objs ob) = Inr (pkgLen, h)"
    and r: "length (m_read_buffer h) = length body"
  shows "\<exists>b'. mb_header b' = Some \<lparr>pConn = c, hdr_sequence = sq\<rparr> \<and>
    http_business env objs (Some ob) c q (of_nat (length body)) cs =
      Inr (conn_put c ((conns cs c)\<lparr>deleteFlag := False, isendlen := ucast pkgLen\<rparr>) (mem_put q b' cs))"
proof -
  have u: "unat (of_nat (length body) :: u16) = length body" using l by (simp add: unat_of_nat)
  let ?bytes = "mb_bytes (business_block c sq crc body)"
  have len: "length ?bytes = 8 + length body" by (simp add: business_block_def)
  have body: "take (length body) (drop PKGHEADERLEN ?bytes) = map (\<lambda>x. Some (u8_of_char x)) body"
    by (simp add: business_block_def PKGHEADERLEN_def)
  obtain d where d: "poke 0 (map Some (le16 pkgLen)) ?bytes = Inr d" "length d = 8 + length body"
    using len by (auto simp: poke_def)
  obtain d' where d': "poke PKGHEADERLEN (map (Some \<circ> u8_of_char) (m_read_buffer h)) d = Inr d'"
    using d(2) r by (auto simp: poke_def PKGHEADERLEN_def)
  let ?b = "(business_block c sq crc body)\<lparr>mb_bytes := d'\<rparr>"
  have "http_business env objs (Some ob) c q (of_nat (length body)) cs =
      Inr (conn_put c ((conns cs c)\<lparr>deleteFlag := False, isendlen := ucast pkgLen\<rparr>) (mem_put q ?b cs))"
    using v m u body b d(1) d'
    by (simp add: http_business_def sock_simps mem_get_def conn_upd_def) (simp add: conn_put_def mem_put_def valid_conn_def)
  moreover have "mb_header ?b = Some \<lparr>pConn = c, hdr_sequence = sq\<rparr>" by (simp add: business_block_def)
  ultimately show ?thesis by blast
qed

definition http_answer :: "http_env \<Rightarrow> (nat \<Rightarrow> HttpServer) \<Rightarrow> nat \<Rightarrow> string \<Rightarrow> u16 option" where
  "http_answer env objs ob body =
     (case Business env body (objs ob) of
        Inl _ \<Rightarrow> None
      | Inr (n, h) \<Rightarrow> if length (m_read_buffer h) = length body then Some n else None)"

interpretation http: protocol "http_business env objs" "http_answer env objs" for env objs
proof
  fix ob body n cs c q sq crc
  assume a: "http_answer env objs ob body = Some n" and h: "valid_conn cs c" "mem cs q = Some (business_block c sq crc body)"
    "length body < 65528"
  from a obtain h where "Business env body (objs ob) = Inr (n, h)" "length (m_read_buffer h) = length body"
    by (auto simp: http_answer_def split: sum.splits if_splits)
  then show "\<exists>b. mb_header b = Some \<lparr>pConn = c, hdr_sequence = sq\<rparr> \<and>
      http_business env objs (Some ob) c q (of_nat (length body)) cs =
        Inr (conn_put c ((conns cs c)\<lparr>deleteFlag := False, isendlen := ucast n\<rparr>) (mem_put q b cs))"
    by (rule http_business_eq [OF h])
qed

section \<open>Properties\<close>

text \<open>
  C8. A \<^verbatim>\<open>GET\<close> message is served. When the dispatcher takes a business message with a well formed \<^verbatim>\<open>GET\<close> request from the
  queue, for a connection whose protocol object is fresh, and the kernel takes the reply in one write, after any
  number of interrupted attempts, then the reply the kernel gets is the specified text followed by the file, the sender recognises it as complete, the
  message's memory is released, and the connection's mutex is free, in both trigger modes. \<^verbatim>\<open>WriteData\<close> gives the
  answer of such a write when the first attempt is taken. (A later attempt can only be taken when the reply has no file, as
  the mapping is given up with the first one.)
\<close>

theorem get_message_served:
  assumes g: "good_request word host path hs" "length path < 190" "method_of word GET = GET" "clock_ok env"
    and l: "length (request word host path hs) < 65528" "8 + length (get_text env path @ file_part env path) < 65536"
    and c: "valid_conn cs c" "m_ETflag cs = ETCLOSE \<Longrightarrow> \<not> logicPorcMutex (conns cs c)"
    and m: "mem cs q = Some (business_block c (iCurrsequence (conns cs c)) crc (request word host path hs))"
    and o: "objs ob = init_http old"
    and r: "list_all (retried (of_nat (8 + length (get_text env path @ file_part env path)))) rs"
  shows "\<exists>cs' pkgLen h'. Business env (request word host path hs) (objs ob) = Inr (pkgLen, h') \<and>
     wire_text h' = get_text env path @ file_part env path \<and>
     http_writes [K_take (8 + length (get_text env path @ file_part env path))] True h' =
       [W_sent (8 + length (get_text env path @ file_part env path))] \<and>
     threadRecvProcFunc (http_business env objs) e (rs @ W_sent (8 + length (get_text env path @ file_part env path)) # ws)
       (Some ob) (Some q) cs = Inr cs' \<and>
     mem cs' = (mem cs)(q := None) \<and> \<not> logicPorcMutex (conns cs' c) \<and> isendlen (conns cs' c) = 0"
proof -
  let ?body = "request word host path hs" and ?n = "8 + length (get_text env path @ file_part env path)"
  obtain pkgLen h' where b: "Business env ?body (objs ob) = Inr (pkgLen, h')"
    "wire_text h' = get_text env path @ file_part env path" "iov_total h' = 8 + int (length (wire_text h'))"
    "uint pkgLen = iov_total h' mod 65536" "length (m_read_buffer h') = length ?body"
    using get_business [OF g, of old] l(2) o by auto
  have ne: "?body \<noteq> []" by (simp add: request_def)
  have a: "http_answer env objs ob ?body = Some pkgLen" using b(1,5) by (simp add: http_answer_def)
  have "uint pkgLen = int ?n" using b(2-4) l(2) by simp
  then have n: "unat pkgLen = ?n" by (metis nat_int nat_uint_eq)
  then have "(of_nat ?n :: u32) = ucast pkgLen" by (simp only: n [symmetric] of_nat_unat)
  moreover have "http_writes [K_take ?n] True h' = [W_sent ?n]" using http_write_all [of h' ?n] b(2,3) by (simp add: nat_add_distrib)
  ultimately show ?thesis
    using http.reply_taken [OF c m ne l(1) a, of rs e ws] r b(1,2) n by auto
qed

theorem get_message_served_witness:
  "\<exists>cs'. threadRecvProcFunc (http_business sample_http_env (\<lambda>_. init_http blank_http)) sample_env
       [W_sent (8 + length (ok_text sample_http_env 5 @ ''hello''))] (Some 0) (Some 5)
       (sample_socket\<lparr>m_pconnections := [2], mem := [5 \<mapsto> business_block (0, 0) 0 7 (request ''GET'' ''h'' ''/a'' [])]\<rparr>) = Inr cs' \<and>
     mem cs' 5 = None \<and> \<not> logicPorcMutex (conns cs' (0, 0))"
proof -
  let ?cs = "sample_socket\<lparr>m_pconnections := [2], mem := [5 \<mapsto> business_block (0, 0) 0 7 (request ''GET'' ''h'' ''/a'' [])]\<rparr>"
  have g: "good_request ''GET'' ''h'' ''/a'' []" "length ''/a'' < 190" "method_of ''GET'' GET = GET" "clock_ok sample_http_env"
    by (auto simp: good_request_def good_line_def plain_def method_of_def strcasecmp0_def clock_ok_def sample_http_env_def)
  have s: "serve sample_http_env ''/a'' = FILE_REQUEST" "file_part sample_http_env ''/a'' = ''hello''"
    by (simp_all add: file_part_def serve_def sample_http_env_def LOCAL_FILE_ADDR_def sample_file_def)
  have t: "get_text sample_http_env ''/a'' = ok_text sample_http_env 5" using s by (simp add: get_text_def)
  have l: "length (request ''GET'' ''h'' ''/a'' []) < 65528"
    by (simp add: request_def request_line_def header_block_def)
  have l2: "8 + length (get_text sample_http_env ''/a'' @ file_part sample_http_env ''/a'') < 65536"
    using get_text_fits [OF g(4), of "''/a''"] s(2) t by (simp add: WRITE_BUFFER_SIZE_def)
  have c: "valid_conn ?cs (0, 0)" "m_ETflag ?cs = ETCLOSE \<Longrightarrow> \<not> logicPorcMutex (conns ?cs (0, 0))"
    by (simp_all add: sample_socket_def valid_conn_def zero_connection_def)
  have m: "mem ?cs 5 = Some (business_block (0, 0) (iCurrsequence (conns ?cs (0, 0))) 7 (request ''GET'' ''h'' ''/a'' []))"
    by (simp add: sample_socket_def zero_connection_def)
  show ?thesis
    using get_message_served [OF g l l2 c m, of "\<lambda>_. init_http blank_http" 0 blank_http "[]" sample_env "[]"] s t by auto
qed

text \<open>
  C31. The second request of a connection brings its worker down. After a served \<^verbatim>\<open>GET\<close> request, any further
  message on the connection that is not longer than the first is answered with the text of the first reply followed by
  that of a bad request, and announces in addition the size of the first file. The kernel takes all there is, the
  sender sees fewer bytes than announced and waits for the write event, and the continuation that this event
  queues dereferences the null pointer, whatever the socket would answer.
\<close>

theorem second_message_crashes:
  assumes g: "good_request word host path hs" "length path < 190" "method_of word GET = GET" "clock_ok env"
    and f: "serve env path = FILE_REQUEST" "objs ob = init_http old"
    and l: "body \<noteq> []" "length body \<le> length (request word host path hs)" "length body < 65528"
      "8 + length (get_text env path @ bad_text) + length (file_part env path) < 65536"
    and c: "valid_conn cs c" "m_ETflag cs = ETCLOSE \<Longrightarrow> \<not> logicPorcMutex (conns cs c)" "psendMemPointer (conns cs c) = None"
    and m: "mem cs q = Some (business_block c (iCurrsequence (conns cs c)) crc body)" and e: "e_epoll_ok e"
  shows "\<exists>cs' pkgLen h. Business env body (objs_after env ob (request word host path hs) objs ob) = Inr (pkgLen, h) \<and>
     wire_text h = get_text env path @ bad_text \<and>
     threadRecvProcFunc (http_business env (objs_after env ob (request word host path hs) objs)) e
       (W_sent (8 + length (get_text env path @ bad_text)) # ws) (Some ob) (Some q) cs = Inr cs' \<and>
     epoll_set cs' (fd (conns cs c)) = Some \<lparr>ev_in = False, ev_out = True, ev_et = True, ev_ptr = c\<rparr> \<and>
     (\<forall>e' ws'. sendRemainMsg e' ws' c cs' = Inl NullDeref)"
proof -
  let ?r = "request word host path hs" and ?n = "8 + length (get_text env path @ bad_text)"
  let ?objs = "objs_after env ob ?r objs"
  have fl: "length (file_part env path) < 2 ^ 31" "0 < length (file_part env path)"
    using l(4) f(1) by (auto simp: file_part_def serve_def split: option.splits if_splits)
  obtain p1 h1 where h1: "Business env ?r (objs ob) = Inr (p1, h1)" "served_object env path (length ?r) h1"
    using get_business [OF g fl(1), of old] f(2) by auto
  have ob: "?objs ob = h1" using h1(1) by (simp add: objs_after_def)
  obtain pkgLen h where b: "Business env body (?objs ob) = Inr (pkgLen, h)" "wire_text h = get_text env path @ bad_text"
    "iov_total h = 8 + int (length (wire_text h))" "uint pkgLen = (iov_total h + int (length (file_part env path))) mod 65536"
    "m_read_buffer h = body"
    using next_business [OF h1(2) l(2) g(4) fl(1)] ob by auto
  have "uint pkgLen = int (?n + length (file_part env path))" using b(2-4) l(4) by simp
  then have k: "?n < unat pkgLen" using fl(2) by (metis less_add_same_cancel1 nat_int nat_uint_eq)
  have a: "http_answer env ?objs ob body = Some pkgLen" using b(1,5) by (simp add: http_answer_def)
  show ?thesis
    using http.reply_stuck [OF c(1,2) m l(1,3) a k c(3) e, of ws] b(1,2) by auto
qed

theorem second_message_crashes_witness:
  "\<exists>cs'. threadRecvProcFunc (http_business sample_http_env
        (objs_after sample_http_env 0 (request ''GET'' ''h'' ''/a'' []) (\<lambda>_. init_http blank_http))) sample_env
       [W_sent (8 + length (ok_text sample_http_env 5 @ bad_text))] (Some 0) (Some 5)
       (sample_socket\<lparr>m_pconnections := [2], mem := [5 \<mapsto> business_block (0, 0) 0 7 (request ''GET'' ''h'' ''/a'' [])]\<rparr>) = Inr cs' \<and>
     sendRemainMsg sample_env [W_sent 5] (0, 0) cs' = Inl NullDeref"
proof -
  let ?r = "request ''GET'' ''h'' ''/a'' []"
  let ?cs = "sample_socket\<lparr>m_pconnections := [2], mem := [5 \<mapsto> business_block (0, 0) 0 7 ?r]\<rparr>"
  have g: "good_request ''GET'' ''h'' ''/a'' []" "length ''/a'' < 190" "method_of ''GET'' GET = GET" "clock_ok sample_http_env"
    by (auto simp: good_request_def good_line_def plain_def method_of_def strcasecmp0_def clock_ok_def sample_http_env_def)
  have s: "serve sample_http_env ''/a'' = FILE_REQUEST" "file_part sample_http_env ''/a'' = ''hello''"
    by (simp_all add: file_part_def serve_def sample_http_env_def LOCAL_FILE_ADDR_def sample_file_def)
  have t: "get_text sample_http_env ''/a'' = ok_text sample_http_env 5" using s by (simp add: get_text_def)
  have l: "?r \<noteq> []" "length ?r \<le> length ?r" "length ?r < 65528"
    by (simp_all add: request_def request_line_def header_block_def)
  have l2: "8 + length (get_text sample_http_env ''/a'' @ bad_text) + length (file_part sample_http_env ''/a'') < 65536"
    using get_text_short [OF g(4), of "''/a''"] s(2) bad_text_short by simp
  have c: "valid_conn ?cs (0, 0)" "m_ETflag ?cs = ETCLOSE \<Longrightarrow> \<not> logicPorcMutex (conns ?cs (0, 0))"
    "psendMemPointer (conns ?cs (0, 0)) = None" "e_epoll_ok sample_env"
    by (simp_all add: sample_socket_def valid_conn_def zero_connection_def sample_env_def)
  have m: "mem ?cs 5 = Some (business_block (0, 0) (iCurrsequence (conns ?cs (0, 0))) 7 ?r)"
    by (simp add: sample_socket_def zero_connection_def)
  show ?thesis
    using second_message_crashes [OF g s(1) _ l l2 c(1-3) m c(4), of "\<lambda>_. init_http blank_http" 0 blank_http "[]"] t by auto
qed

end
