(* ===== verification/Tls.thy ===== *)
theory Tls
  imports HttpSession
begin

text \<open>
  TLS (\<^verbatim>\<open>misc/ngx_c_sslctx.cpp\<close>, \<^verbatim>\<open>misc/ngx_c_ssl.cpp\<close>, \<^verbatim>\<open>logic/ngx_c_https.cpp\<close>) and the writing of replies
  (\<^verbatim>\<open>HttpWriteData\<close> of \<^verbatim>\<open>logic/ngx_c_http.cpp\<close>). OpenSSL and the kernel are arguments: the results of their calls.
  What is modelled is the life of the objects the program hands to them.
\<close>

section \<open>The context and the connections\<close>

datatype ssl_ctx = Ctx_null | Ctx_live | Ctx_freed

record tls_sys =
  t_new :: bool
  t_cert :: bool
  t_key :: bool
  t_check :: bool

text \<open>\<^verbatim>\<open>SSL_CTX_free\<close>: a null pointer is ignored, a context must not be released twice.\<close>

fun SSL_CTX_free :: "ssl_ctx \<Rightarrow> ssl_ctx res" where
  "SSL_CTX_free Ctx_null = Inr Ctx_null"
| "SSL_CTX_free Ctx_live = Inr Ctx_freed"
| "SSL_CTX_free Ctx_freed = Inl DeadMemory"

text \<open>The constructor: after a failed step the member keeps pointing to the context it released.\<close>

definition SSLCTXServer :: "tls_sys \<Rightarrow> ssl_ctx res" where
  "SSLCTXServer s =
     (if \<not> t_new s then Inr Ctx_null
      else if \<not> t_cert s then SSL_CTX_free Ctx_live
      else if \<not> t_key s then SSL_CTX_free Ctx_live
      else if \<not> t_check s then SSL_CTX_free Ctx_live
      else Inr Ctx_live)"

definition SSLCTXServer_dtor :: "ssl_ctx \<Rightarrow> ssl_ctx res" where
  "SSLCTXServer_dtor = SSL_CTX_free"

text \<open>
  The object of a connection, as \<^verbatim>\<open>SSL_new\<close> makes it and \<^verbatim>\<open>SSL_free\<close> releases it, with the socket it is bound to; a
  pointer to a \<^verbatim>\<open>MYSSL\<close> is null or holds one.
\<close>

datatype ssl = Ssl_live int | Ssl_freed

fun with_ssl :: "ssl option \<Rightarrow> 'a \<Rightarrow> 'a res" where
  "with_ssl None x = Inl NullDeref"
| "with_ssl (Some Ssl_freed) x = Inl DeadMemory"
| "with_ssl (Some (Ssl_live sock)) x = Inr x"

text \<open>The constructor binds the socket.\<close>

definition MYSSL :: "int \<Rightarrow> ssl" where
  "MYSSL sockFd = Ssl_live sockFd"

text \<open>\<^verbatim>\<open>NewSSL\<close>: \<^verbatim>\<open>SSL_new\<close> reports a null context as an error, and no object is made.\<close>

definition NewSSL :: "bool \<Rightarrow> int \<Rightarrow> ssl_ctx \<Rightarrow> ssl option res" where
  "NewSSL ssl_new_ok sockFd c =
     (case c of
        Ctx_freed \<Rightarrow> Inl DeadMemory
      | Ctx_null \<Rightarrow> Inr None
      | Ctx_live \<Rightarrow> Inr (if ssl_new_ok then Some (MYSSL sockFd) else None))"

text \<open>The calls that \<^verbatim>\<open>MYSSL\<close> passes on, with the results of OpenSSL as arguments.\<close>

definition MYSSL_Connect :: "int \<Rightarrow> ssl option \<Rightarrow> bool res" where
  "MYSSL_Connect ret mSSL = with_ssl mSSL (if ret \<le> 0 then False else True)"

definition MYSSL_Accept :: "int \<Rightarrow> ssl option \<Rightarrow> bool res" where
  "MYSSL_Accept ret mSSL = with_ssl mSSL (if ret \<le> 0 then False else True)"

definition MYSSL_Read :: "(nat \<Rightarrow> int) \<Rightarrow> ssl option \<Rightarrow> nat \<Rightarrow> int res" where
  "MYSSL_Read ssl_read mSSL len = with_ssl mSSL (ssl_read len)"

definition MYSSL_Write :: "(nat \<Rightarrow> int) \<Rightarrow> ssl option \<Rightarrow> nat \<Rightarrow> int res" where
  "MYSSL_Write ssl_write mSSL len = with_ssl mSSL (ssl_write len)"

text \<open>
  The destructor: \<^verbatim>\<open>while(!SSL_shutdown(mSSL)){}\<close> asks again as long as the answer is 0. \<open>ret i\<close> is the answer of the
  \<open>i\<close>-th call, and the value is the number of calls; a loop that never ends has the value \<open>None\<close>.
\<close>

partial_function (option) shutdown_loop :: "(nat \<Rightarrow> int) \<Rightarrow> nat \<Rightarrow> nat option" where
  "shutdown_loop ret i = (if ret i = 0 then shutdown_loop ret (Suc i) else Some (Suc i))"

definition MYSSL_dtor :: "(nat \<Rightarrow> int) \<Rightarrow> ssl \<Rightarrow> ssl res option" where
  "MYSSL_dtor ret s =
     (case s of
        Ssl_freed \<Rightarrow> Some (Inl DeadMemory)
      | Ssl_live sock \<Rightarrow> map_option (\<lambda>_. Inr Ssl_freed) (shutdown_loop ret 0))"

text \<open>
  \<^verbatim>\<open>HttpsServer\<close>: its constructor asks for the context (\<open>None\<close> when there is none yet) and for an object; its
  destructor deletes the object, if there is one.
\<close>

definition HttpsServer :: "bool \<Rightarrow> int \<Rightarrow> ssl_ctx option \<Rightarrow> ssl option res" where
  "HttpsServer ssl_new_ok sockFd ctx =
     (case ctx of None \<Rightarrow> Inl NullDeref | Some c \<Rightarrow> NewSSL ssl_new_ok sockFd c)"

definition HttpsServer_dtor :: "(nat \<Rightarrow> int) \<Rightarrow> ssl option \<Rightarrow> ssl option res option" where
  "HttpsServer_dtor ret mSSL =
     (case mSSL of
        None \<Rightarrow> Some (Inr None)
      | Some s \<Rightarrow> map_option (\<lambda>r. res_bind r (\<lambda>s. Inr (Some s))) (MYSSL_dtor ret s))"

definition GetSSL :: "ssl option \<Rightarrow> ssl option" where
  "GetSSL mSSL = mSSL"

text \<open>
  The handshake in \<^verbatim>\<open>ngx_event_accept\<close>, \<^verbatim>\<open>while(!GetSSL()->Accept()){}\<close>: \<open>ret i\<close> is the result of the \<open>i\<close>-th
  \<^verbatim>\<open>SSL_accept\<close>.
\<close>

partial_function (option) handshake_loop :: "(nat \<Rightarrow> int) \<Rightarrow> ssl option \<Rightarrow> nat \<Rightarrow> nat res option" where
  "handshake_loop ret mSSL i =
     (case MYSSL_Accept (ret i) (GetSSL mSSL) of
        Inl e \<Rightarrow> Some (Inl e)
      | Inr ok \<Rightarrow> if ok then Some (Inr (Suc i)) else handshake_loop ret mSSL (Suc i))"

definition https_handshake :: "bool \<Rightarrow> int \<Rightarrow> (nat \<Rightarrow> int) \<Rightarrow> ssl_ctx option \<Rightarrow> nat res option" where
  "https_handshake ssl_new_ok sockFd ret ctx =
     (case HttpsServer ssl_new_ok sockFd ctx of Inl e \<Rightarrow> Some (Inl e) | Inr mSSL \<Rightarrow> handshake_loop ret mSSL 0)"

section \<open>Reading requests\<close>

text \<open>The virtual \<^verbatim>\<open>ReadData\<close>: \<open>recv\<close> for HTTP, \<^verbatim>\<open>SSL_read\<close> for HTTPS.\<close>

definition ReadData :: "(nat \<Rightarrow> int) \<Rightarrow> nat \<Rightarrow> int" where
  "ReadData recv len = recv len"

definition HttpsReadData :: "(nat \<Rightarrow> int) \<Rightarrow> ssl option \<Rightarrow> nat \<Rightarrow> int res" where
  "HttpsReadData ssl_read mSSL len = MYSSL_Read ssl_read mSSL len"

definition Https_ReadData :: "(nat \<Rightarrow> int) \<Rightarrow> ssl option \<Rightarrow> nat \<Rightarrow> int res" where
  "Https_ReadData ssl_read mSSL len = HttpsReadData ssl_read mSSL len"

section \<open>Writing replies\<close>

text \<open>
  \<^verbatim>\<open>HttpsWriteData\<close>: the results of \<^verbatim>\<open>SSL_write\<close> for the parts, by position, are added up. Unlike the kernel, OpenSSL
  reads the parts in the process itself, where a mapping that is gone is a fault.
\<close>

fun https_write_loop :: "(nat \<Rightarrow> nat \<Rightarrow> int) \<Rightarrow> bool \<Rightarrow> ssl option \<Rightarrow> nat \<Rightarrow> iov list \<Rightarrow> int res" where
  "https_write_loop ssl_write mapped mSSL i [] = Inr 0"
| "https_write_loop ssl_write mapped mSSL i (v # vs) =
     (if reads_file v \<and> \<not> mapped then Inl DeadMemory
      else res_bind (MYSSL_Write (ssl_write i) mSSL (nat (iov_len v))) (\<lambda>n.
           res_bind (https_write_loop ssl_write mapped mSSL (Suc i) vs) (\<lambda>count. Inr (n + count))))"

definition HttpsWriteData :: "(nat \<Rightarrow> nat \<Rightarrow> int) \<Rightarrow> bool \<Rightarrow> ssl option \<Rightarrow> HttpServer \<Rightarrow> (int \<times> bool) res" where
  "HttpsWriteData ssl_write mapped mSSL h =
     res_bind (https_write_loop ssl_write mapped mSSL 0 (m_iov h)) (\<lambda>count.
     Inr (count, if m_file_ptr h \<noteq> None then False else mapped))"

definition Https_WriteData :: "(nat \<Rightarrow> nat \<Rightarrow> int) \<Rightarrow> bool \<Rightarrow> ssl option \<Rightarrow> HttpServer \<Rightarrow> (int \<times> bool) res" where
  "Https_WriteData ssl_write mapped mSSL h = HttpsWriteData ssl_write mapped mSSL h"

text \<open>\<^verbatim>\<open>HttpsServer::Business\<close> has the text of \<^verbatim>\<open>HttpServer::Business\<close>.\<close>

definition Https_Business :: "http_env \<Rightarrow> string \<Rightarrow> HttpServer \<Rightarrow> (u16 \<times> HttpServer) res" where
  "Https_Business env body h =
     res_bind (process_read env (load_request body h)) (\<lambda>(ret, h).
     res_bind (process_write env ret h) (\<lambda>h.
     if NUL \<notin> set (m_write_buffer h) then Inl OutOfBounds
     else Inr (word_of_int (int (length (cstr (m_write_buffer h))) + m_content_length h + int PKGHEADERLEN), h)))"

text \<open>The method as the dispatcher calls it, as for HTTP.\<close>

definition https_business :: "http_env \<Rightarrow> (nat \<Rightarrow> HttpServer) \<Rightarrow> business_fun" where
  "https_business env objs obj c q iBodyLength cs =
     (case obj of None \<Rightarrow> Inl NullDeref | Some ob \<Rightarrow>
        res_bind (conn_upd c (\<lambda>t. t\<lparr>deleteFlag := False\<rparr>) cs) (\<lambda>cs.
        res_bind (mem_get q cs) (\<lambda>b.
        res_bind (read_bytes (take (unat iBodyLength) (drop PKGHEADERLEN (mb_bytes b)))) (\<lambda>body.
        res_bind (Https_Business env (map char_of_u8 body) (objs ob)) (\<lambda>(pkgLen, h).
        res_bind (poke 0 (map Some (le16 pkgLen)) (mb_bytes b)) (\<lambda>d.
        res_bind (poke PKGHEADERLEN (map (Some \<circ> u8_of_char) (m_read_buffer h)) d) (\<lambda>d.
        conn_upd c (\<lambda>t. t\<lparr>isendlen := ucast pkgLen\<rparr>) (mem_put q (b\<lparr>mb_bytes := d\<rparr>) cs))))))))"

section \<open>Lemmas\<close>

lemma https_write_loop_sum:
  "mapped \<or> \<not> list_ex reads_file vs \<Longrightarrow>
   https_write_loop w mapped (Some (Ssl_live f)) i vs = Inr (\<Sum>k = 0..<length vs. w (i + k) (nat (iov_len (vs ! k))))"
proof (induction vs arbitrary: i)
  case (Cons v vs)
  then show ?case by (auto simp: MYSSL_Write_def sum.atLeast0_lessThan_Suc_shift simp del: sum.op_ivl_Suc)
qed simp

text \<open>The two loops end with the first answer of the right kind, and only then.\<close>

lemma shutdown_loop_Some:
  "ret j \<noteq> 0 \<Longrightarrow> i \<le> j \<Longrightarrow> \<forall>k. i \<le> k \<and> k < j \<longrightarrow> ret k = 0 \<Longrightarrow> shutdown_loop ret i = Some (Suc j)"
proof (induction "j - i" arbitrary: i)
  case 0
  then show ?case by (subst shutdown_loop.simps) simp
next
  case (Suc n)
  then have "ret i = 0" "shutdown_loop ret (Suc i) = Some (Suc j)" by auto
  then show ?case by (subst shutdown_loop.simps) simp
qed

lemma shutdown_loop_hit: "shutdown_loop ret i = Some n \<Longrightarrow> \<exists>j\<ge>i. ret j \<noteq> 0"
proof (erule shutdown_loop.raw_induct [rotated, where P = "\<lambda>ret i n. \<exists>j\<ge>i. ret j \<noteq> 0"])
  fix loop :: "(nat \<Rightarrow> int) \<Rightarrow> nat \<Rightarrow> nat option" and ret i n
  assume "\<And>ret i n. loop ret i = Some n \<Longrightarrow> \<exists>j\<ge>i. ret j \<noteq> 0" "(if ret i = 0 then loop ret (Suc i) else Some (Suc i)) = Some n"
  then show "\<exists>j\<ge>i. ret j \<noteq> 0" by (metis Suc_leD order_refl)
qed

lemma handshake_loop_Some:
  "0 < ret j \<Longrightarrow> i \<le> j \<Longrightarrow> \<forall>k. i \<le> k \<and> k < j \<longrightarrow> ret k \<le> 0 \<Longrightarrow>
   handshake_loop ret (Some (Ssl_live sock)) i = Some (Inr (Suc j))"
proof (induction "j - i" arbitrary: i)
  case 0
  then show ?case by (subst handshake_loop.simps) (simp add: MYSSL_Accept_def GetSSL_def)
next
  case (Suc n)
  then have "ret i \<le> 0" "handshake_loop ret (Some (Ssl_live sock)) (Suc i) = Some (Inr (Suc j))" by auto
  then show ?case by (subst handshake_loop.simps) (simp add: MYSSL_Accept_def GetSSL_def)
qed

lemma handshake_loop_hit:
  assumes "handshake_loop ret (Some (Ssl_live sock)) i = Some r"
  shows "\<exists>j\<ge>i. 0 < ret j"
proof -
  have "m = Some (Ssl_live sock) \<longrightarrow> (\<exists>j\<ge>i. 0 < ret j)" if "handshake_loop ret m i = Some r" for ret m i r
    using that
  proof (rule handshake_loop.raw_induct [rotated, where P = "\<lambda>ret m i r. m = Some (Ssl_live sock) \<longrightarrow> (\<exists>j\<ge>i. 0 < ret j)"])
    fix loop :: "(nat \<Rightarrow> int) \<Rightarrow> ssl option \<Rightarrow> nat \<Rightarrow> nat res option" and ret m i r
    assume IH: "\<And>ret m i r. loop ret m i = Some r \<Longrightarrow> m = Some (Ssl_live sock) \<longrightarrow> (\<exists>j\<ge>i. 0 < ret j)"
      and st: "(case MYSSL_Accept (ret i) (GetSSL m) of Inl e \<Rightarrow> Some (Inl e)
        | Inr ok \<Rightarrow> if ok then Some (Inr (Suc i)) else loop ret m (Suc i)) = Some r"
    show "m = Some (Ssl_live sock) \<longrightarrow> (\<exists>j\<ge>i. 0 < ret j)"
    proof
      assume m: "m = Some (Ssl_live sock)"
      show "\<exists>j\<ge>i. 0 < ret j"
      proof (cases "ret i \<le> 0")
        case True
        then have "loop ret m (Suc i) = Some r" using st m by (simp add: MYSSL_Accept_def GetSSL_def)
        then show ?thesis using IH [of ret m "Suc i" r] m Suc_leD by blast
      qed (use order_refl [of i] in \<open>auto simp: not_le\<close>)
    qed
  qed
  from this [OF assms] show ?thesis by simp
qed

lemma first_hit:
  assumes "P (j :: nat)"
  obtains k where "P k" "\<forall>i<k. \<not> P i"
  using assms exists_least_iff [of P] by blast

lemma Https_Business_same: "Https_Business = Business"
  by (intro ext) (simp add: Https_Business_def Business_def)

text \<open>HTTPS fulfils the contract of protocol objects, so what is proved of the dispatcher holds for it too.\<close>

lemma https_business_same: "https_business = http_business"
  by (intro ext) (unfold https_business_def http_business_def Https_Business_same, rule refl)

interpretation https: protocol "https_business env objs" "http_answer env objs" for env objs
  unfolding https_business_same by (rule http.protocol_axioms)

section \<open>Properties\<close>

text \<open>
  C20. The handshake blocks the worker until it succeeds. With a live context, accepting a TLS connection returns
  exactly when some \<^verbatim>\<open>SSL_accept\<close> succeeds, and then with the first one that does; a client whose handshake fails
  keeps the event loop of the worker busy forever, since a failed call is repeated like one that is to be repeated.
  Deleting the connection's object returns exactly when some \<^verbatim>\<open>SSL_shutdown\<close> answers with something but 0.
\<close>

theorem tls_loops_end:
  "(https_handshake True sockFd ret (Some Ctx_live) = None \<longleftrightarrow> (\<forall>i. ret i \<le> 0)) \<and>
   (\<forall>j. 0 < ret j \<and> (\<forall>i<j. ret i \<le> 0) \<longrightarrow> https_handshake True sockFd ret (Some Ctx_live) = Some (Inr (Suc j))) \<and>
   (HttpsServer_dtor ret (Some (Ssl_live sockFd)) = (if \<forall>i. ret i = 0 then None else Some (Inr (Some Ssl_freed))))"
proof (intro conjI)
  have e: "https_handshake True sockFd ret (Some Ctx_live) = handshake_loop ret (Some (Ssl_live sockFd)) 0"
    by (simp add: https_handshake_def HttpsServer_def NewSSL_def MYSSL_def)
  show a: "\<forall>j. 0 < ret j \<and> (\<forall>i<j. ret i \<le> 0) \<longrightarrow> https_handshake True sockFd ret (Some Ctx_live) = Some (Inr (Suc j))"
    unfolding e using handshake_loop_Some [of ret _ 0 sockFd] by auto
  show "https_handshake True sockFd ret (Some Ctx_live) = None \<longleftrightarrow> (\<forall>i. ret i \<le> 0)"
  proof
    assume n: "https_handshake True sockFd ret (Some Ctx_live) = None"
    show "\<forall>i. ret i \<le> 0"
    proof (rule ccontr)
      assume "\<not> (\<forall>i. ret i \<le> 0)"
      then obtain j where "0 < ret j" by (auto simp: not_le)
      then obtain k where "0 < ret k" "\<forall>i<k. \<not> 0 < ret i" by (rule first_hit [of "\<lambda>i. 0 < ret i"])
      then show False using a [rule_format, of k] n by (simp add: not_less)
    qed
  next
    assume "\<forall>i. ret i \<le> 0"
    then show "https_handshake True sockFd ret (Some Ctx_live) = None"
      unfolding e using handshake_loop_hit [of ret sockFd 0] by (auto simp: not_less) (metis not_less option.exhaust)
  qed
  show "HttpsServer_dtor ret (Some (Ssl_live sockFd)) = (if \<forall>i. ret i = 0 then None else Some (Inr (Some Ssl_freed)))"
  proof (cases "\<forall>i. ret i = 0")
    case True
    then have "shutdown_loop ret 0 = None" using shutdown_loop_hit [of ret 0] by (metis option.exhaust)
    then show ?thesis using True by (simp add: HttpsServer_dtor_def MYSSL_dtor_def)
  next
    case False
    then obtain j where "ret j \<noteq> 0" by blast
    then obtain k where "ret k \<noteq> 0" "\<forall>i<k. \<not> ret i \<noteq> 0" by (rule first_hit [of "\<lambda>i. ret i \<noteq> 0"])
    then have "shutdown_loop ret 0 = Some (Suc k)" by (intro shutdown_loop_Some) auto
    then show ?thesis using False by (simp add: HttpsServer_dtor_def MYSSL_dtor_def)
  qed
qed

theorem tls_loops_end_witness:
  "https_handshake True 5 (\<lambda>i. if i < 3 then - 1 else 1) (Some Ctx_live) = Some (Inr 4) \<and>
   https_handshake True 5 (\<lambda>_. - 1) (Some Ctx_live) = None"
  using tls_loops_end [of 5 "\<lambda>i. if i < 3 then - 1 else 1"] tls_loops_end [of 5 "\<lambda>_. - 1"]
  by (auto dest!: spec [of _ 3])

text \<open>
  A failed TLS set-up leaves a released context in use. When the certificate or the key cannot be loaded or do
  not match, the constructor releases the context and keeps the pointer: the first TLS connection uses the
  released context, and so does the destructor, which releases it again.
\<close>

theorem failed_tls_setup_dangles:
  assumes "t_new s" "\<not> (t_cert s \<and> t_key s \<and> t_check s)"
  shows "\<exists>c. SSLCTXServer s = Inr c \<and> https_handshake ssl_new_ok sockFd ret (Some c) = Some (Inl DeadMemory) \<and>
     SSLCTXServer_dtor c = Inl DeadMemory"
  using assms by (auto simp: SSLCTXServer_def https_handshake_def HttpsServer_def NewSSL_def SSLCTXServer_dtor_def)

theorem failed_tls_setup_dangles_witness:
  "\<exists>c. SSLCTXServer \<lparr>t_new = True, t_cert = False, t_key = True, t_check = True\<rparr> = Inr c \<and>
     https_handshake True 5 (\<lambda>_. 1) (Some c) = Some (Inl DeadMemory)"
  using failed_tls_setup_dangles [of "\<lparr>t_new = True, t_cert = False, t_key = True, t_check = True\<rparr>" True 5 "\<lambda>_. 1"] by auto

text \<open>
  C26. A reply with a file can be written only once. Both write functions give up the mapping of the file after their
  first call, whether or not everything was taken, and keep the pointer: writing the same reply once more, as the
  sender does after a partial success, fails for HTTP and reads memory that is gone for HTTPS.
\<close>

theorem reply_written_once:
  assumes "needs_file h" "m_file_ptr h \<noteq> None"
    and "HttpsWriteData ssl_write True (Some (Ssl_live sock)) h = Inr (n, mapped')"
  shows "\<not> mapped' \<and> HttpsWriteData ssl_write' mapped' (Some (Ssl_live sock)) h = Inl DeadMemory \<and>
     (\<exists>mapped''. HttpWriteData taken True h = (taken, mapped'') \<and> fst (HttpWriteData taken' mapped'' h) = - 1)"
proof -
  have "https_write_loop w False (Some (Ssl_live sock)) i vs = Inl DeadMemory" if "list_ex reads_file vs" for w i vs
    using that by (induction vs arbitrary: i) (auto simp: MYSSL_Write_def)
  then show ?thesis
    using assms by (auto simp: HttpsWriteData_def HttpWriteData_def needs_file_def)
qed

theorem reply_written_once_witness:
  "HttpsWriteData (\<lambda>k n. int n) True (Some (Ssl_live 5))
       (blank_http\<lparr>m_iov := [I_pkg_header, I_write 90, I_file 0 5], m_file_ptr := Some ''hello''\<rparr>) = Inr (103, False) \<and>
   HttpsWriteData (\<lambda>k n. int n) False (Some (Ssl_live 5))
       (blank_http\<lparr>m_iov := [I_pkg_header, I_write 90, I_file 0 5], m_file_ptr := Some ''hello''\<rparr>) = Inl DeadMemory"
proof -
  let ?h = "blank_http\<lparr>m_iov := [I_pkg_header, I_write 90, I_file 0 5], m_file_ptr := Some ''hello''\<rparr>"
  have w: "HttpsWriteData (\<lambda>k n. int n) True (Some (Ssl_live 5)) ?h = Inr (103, False)"
    by (simp add: HttpsWriteData_def MYSSL_Write_def)
  show ?thesis
    using reply_written_once [OF _ _ w, of "\<lambda>k n. int n"] w by (simp add: needs_file_def)
qed

text \<open>
  A failed \<^verbatim>\<open>SSL_write\<close> is counted, not reported. When all parts of a reply but one are written in full and that
  one fails with -1, the call returns the number of bytes written minus one. This is positive as soon as two
  other bytes were written, so the sender takes the error for a partial success.
\<close>

theorem tls_write_error_counted:
  assumes "j < length (m_iov h)" "list_all (\<lambda>v. 0 \<le> iov_len v) (m_iov h)"
  shows "\<exists>mapped'. HttpsWriteData (\<lambda>k n. if k = j then - 1 else int n) True (Some (Ssl_live sock)) h =
     Inr (iov_total h - iov_len (m_iov h ! j) - 1, mapped')"
proof -
  let ?vs = "m_iov h"
  let ?g = "\<lambda>k. if k = j then - 1 else iov_len (?vs ! k)"
  have nn: "0 \<le> iov_len (?vs ! k)" if "k < length ?vs" for k using that assms(2) by (simp add: list_all_length)
  have "https_write_loop (\<lambda>k n. if k = j then - 1 else int n) True (Some (Ssl_live sock)) 0 ?vs = Inr (\<Sum>k = 0..<length ?vs. ?g k)"
    using nn by (auto simp: https_write_loop_sum intro!: sum.cong)
  moreover have "(\<Sum>k = 0..<length ?vs. ?g k) = - 1 + (\<Sum>k \<in> {0..<length ?vs} - {j}. iov_len (?vs ! k))"
    using assms(1) by (simp add: sum.remove [of _ j])
  moreover have "iov_total h = iov_len (?vs ! j) + (\<Sum>k \<in> {0..<length ?vs} - {j}. iov_len (?vs ! k))"
    using assms(1) by (simp add: iov_total_def sum_list_sum_nth sum.remove [of _ j])
  ultimately show ?thesis by (simp add: HttpsWriteData_def)
qed

theorem tls_write_error_counted_witness:
  "\<exists>mapped'. HttpsWriteData (\<lambda>k n. if k = 2 then - 1 else int n) True (Some (Ssl_live 5))
     (blank_http\<lparr>m_iov := [I_pkg_header, I_write 90, I_file 0 5]\<rparr>) = Inr (97, mapped')"
  using tls_write_error_counted [of 2 "blank_http\<lparr>m_iov := [I_pkg_header, I_write 90, I_file 0 5]\<rparr>" 5]
  by (simp add: iov_total_def)

end
