(* ===== verification/Singletons.thy ===== *)
theory Singletons
  imports Crc32 Conf Listen NgxLog ThreadPool Tls
begin

text \<open>
  The singletons of the program and their destroyers: \<^verbatim>\<open>CCRC32\<close> and \<^verbatim>\<open>CMemory\<close> (\<^verbatim>\<open>_include/ngx_c_crc32.h\<close>,
  \<^verbatim>\<open>_include/ngx_c_memory.h\<close>), \<^verbatim>\<open>CConfig\<close>, \<^verbatim>\<open>Timer\<close>, \<^verbatim>\<open>Log\<close> (\<^verbatim>\<open>app/\<close>), \<^verbatim>\<open>CSocket\<close> (\<^verbatim>\<open>net/ngx_c_socket.cpp\<close>),
  \<^verbatim>\<open>CThread\<close> and \<^verbatim>\<open>SSLCTXServer\<close> (\<^verbatim>\<open>misc/\<close>). The static members of a class are a record: the pointer, the flag of
  \<^verbatim>\<open>std::call_once\<close>, whether the static destroyer exists, and the objects that \<^verbatim>\<open>new\<close> has made, those still alive
  with their contents.
\<close>

section \<open>State\<close>

record 'a single =
  m_instance :: "nat option"
  create_flag :: bool
  has_destroyer :: bool
  made :: nat
  live_objs :: "nat \<Rightarrow> 'a option"

definition no_instance :: "'a single" where
  "no_instance = \<lparr>m_instance = None, create_flag = False, has_destroyer = False, made = 0, live_objs = (\<lambda>_. None)\<rparr>"

definition make_instance :: "'a \<Rightarrow> 'a single \<Rightarrow> 'a single" where
  "make_instance v s = s\<lparr>m_instance := Some (made s), live_objs := (live_objs s)(made s \<mapsto> v), made := Suc (made s)\<rparr>"

definition static_destroyer :: "'a single \<Rightarrow> 'a single" where
  "static_destroyer s = s\<lparr>has_destroyer := True\<rparr>"

text \<open>\<^verbatim>\<open>delete m_instance\<close>.\<close>

definition delete_instance :: "'a single \<Rightarrow> 'a single res" where
  "delete_instance s =
     (case m_instance s of
        None \<Rightarrow> Inr s
      | Some a \<Rightarrow> if live_objs s a = None then Inl DeadMemory else Inr (s\<lparr>live_objs := (live_objs s)(a := None)\<rparr>))"

text \<open>\<^verbatim>\<open>std::call_once\<close>: the flag is set when the function returns, not when an exception leaves it.\<close>

definition call_once :: "('a single \<Rightarrow> 'a single res) \<Rightarrow> 'a single \<Rightarrow> 'a single res" where
  "call_once f s = (if create_flag s then Inr s else res_bind (f s) (\<lambda>s. Inr (s\<lparr>create_flag := True\<rparr>)))"

section \<open>The classes\<close>

text \<open>\<^verbatim>\<open>CCRC32\<close> and \<^verbatim>\<open>CMemory\<close> test twice, with comments where a lock would be.\<close>

definition CCRC32_GetInstance :: "unit \<Rightarrow> u32 list single \<Rightarrow> (nat option \<times> u32 list single) res" where
  "CCRC32_GetInstance _ s =
     (let s = (if m_instance s = None then
                 if m_instance s = None then static_destroyer (make_instance crc32_table s) else s
               else s)
      in Inr (m_instance s, s))"

definition CCRC32_CGarhuishou :: "u32 list single \<Rightarrow> u32 list single res" where
  "CCRC32_CGarhuishou s =
     (if m_instance s \<noteq> None then res_bind (delete_instance s) (\<lambda>s. Inr (s\<lparr>m_instance := None\<rparr>)) else Inr s)"

definition CMemory_GetInstance :: "unit \<Rightarrow> unit single \<Rightarrow> (nat option \<times> unit single) res" where
  "CMemory_GetInstance _ s =
     (let s = (if m_instance s = None then
                 if m_instance s = None then static_destroyer (make_instance () s) else s
               else s)
      in Inr (m_instance s, s))"

definition CMemory_CGarhuishou :: "unit single \<Rightarrow> unit single res" where
  "CMemory_CGarhuishou s =
     (if m_instance s \<noteq> None then res_bind (delete_instance s) (\<lambda>s. Inr (s\<lparr>m_instance := None\<rparr>)) else Inr s)"

definition CConfig_Create :: "CConfItem list single \<Rightarrow> CConfItem list single res" where
  "CConfig_Create s = Inr (if m_instance s = None then static_destroyer (make_instance [] s) else s)"

definition CConfig_GetInstance :: "unit \<Rightarrow> CConfItem list single \<Rightarrow> (nat option \<times> CConfItem list single) res" where
  "CConfig_GetInstance _ s = res_bind (call_once CConfig_Create s) (\<lambda>s. Inr (m_instance s, s))"

definition DestroyCon :: "CConfItem list single \<Rightarrow> CConfItem list single res" where
  "DestroyCon s =
     (if m_instance s \<noteq> None then res_bind (delete_instance s) (\<lambda>s. Inr (s\<lparr>m_instance := None\<rparr>)) else Inr s)"

definition Timer_Create :: "('f, 'b) Timer single \<Rightarrow> ('f, 'b) Timer single res" where
  "Timer_Create s = Inr (if m_instance s = None then static_destroyer (make_instance empty_Timer s) else s)"

definition Timer_GetInstance :: "unit \<Rightarrow> ('f, 'b) Timer single \<Rightarrow> (nat option \<times> ('f, 'b) Timer single) res" where
  "Timer_GetInstance _ s = res_bind (call_once Timer_Create s) (\<lambda>s. Inr (m_instance s, s))"

definition Destroy_Timer :: "('f, 'b) Timer single \<Rightarrow> ('f, 'b) Timer single res" where
  "Destroy_Timer s =
     (if m_instance s \<noteq> None then res_bind (delete_instance s) (\<lambda>s. Inr (s\<lparr>m_instance := None\<rparr>)) else Inr s)"

text \<open>\<^verbatim>\<open>CSocket\<close>, in raw memory with the contents \<open>raw\<close>.\<close>

definition CSocket_Create :: "csocket \<Rightarrow> csocket single \<Rightarrow> csocket single res" where
  "CSocket_Create raw s = Inr (if m_instance s = None then static_destroyer (make_instance (CSocket raw) s) else s)"

definition CSocket_GetInstance :: "csocket \<Rightarrow> csocket single \<Rightarrow> (nat option \<times> csocket single) res" where
  "CSocket_GetInstance raw s = res_bind (call_once (CSocket_Create raw) s) (\<lambda>s. Inr (m_instance s, s))"

definition Destroy_CS :: "csocket single \<Rightarrow> csocket single res" where
  "Destroy_CS s =
     (if m_instance s \<noteq> None then res_bind (delete_instance s) (\<lambda>s. Inr (s\<lparr>m_instance := None\<rparr>)) else Inr s)"

text \<open>
  \<^verbatim>\<open>Log\<close>: the flag is a local variable of \<^verbatim>\<open>GetInstance\<close>, so every call runs \<^verbatim>\<open>Create\<close>; its constructor throws when
  the file cannot be opened (\<open>files\<close> are the contents of the files that can). The destroyer does not reset the pointer.
\<close>

definition Log_Create :: "(string \<Rightarrow> string option) \<Rightarrow> string \<Rightarrow> LogLevel \<Rightarrow> Log single \<Rightarrow> Log single res" where
  "Log_Create files FileName level s =
     (if m_instance s = None then
        res_bind (Log_ctor (files FileName) FileName level) (\<lambda>v. Inr (static_destroyer (make_instance v s)))
      else Inr s)"

definition Log_GetInstance :: "(string \<Rightarrow> string option) \<Rightarrow> string \<times> LogLevel \<Rightarrow> Log single \<Rightarrow> (nat option \<times> Log single) res" where
  "Log_GetInstance files a s =
     res_bind (call_once (Log_Create files (fst a) (snd a)) (s\<lparr>create_flag := False\<rparr>)) (\<lambda>s. Inr (m_instance s, s))"

definition Log_GetInstance0 :: "Log single \<Rightarrow> nat option" where
  "Log_GetInstance0 s = m_instance s"

definition Destroy_Log :: "Log single \<Rightarrow> Log single res" where
  "Destroy_Log s = (if m_instance s \<noteq> None then delete_instance s else Inr s)"

text \<open>
  \<^verbatim>\<open>CThread\<close>: a pool whose bounds are in the wrong order is left without values. The destroyer compares the pointer
  with null where it means to reset it.
\<close>

definition CThread_Create :: "int \<Rightarrow> int \<Rightarrow> 't cthread option single \<Rightarrow> 't cthread option single res" where
  "CThread_Create Tmin Tmax s =
     Inr (if m_instance s = None then static_destroyer (make_instance (CThread Tmin Tmax) s) else s)"

definition CThread_GetInstance :: "int \<times> int \<Rightarrow> 't cthread option single \<Rightarrow> (nat option \<times> 't cthread option single) res" where
  "CThread_GetInstance a s = res_bind (call_once (CThread_Create (fst a) (snd a)) s) (\<lambda>s. Inr (m_instance s, s))"

definition CThread_GetInstance0 :: "'t cthread option single \<Rightarrow> nat option" where
  "CThread_GetInstance0 s = m_instance s"

definition Destroy_CT :: "'t cthread option single \<Rightarrow> 't cthread option single res" where
  "Destroy_CT s = (if m_instance s \<noteq> None then delete_instance s else Inr s)"

text \<open>
  \<^verbatim>\<open>SSLCTXServer\<close>: the shared pointer owns the object, so there is no destroyer class; \<^verbatim>\<open>shared_from_this\<close> is called
  through the pointer.
\<close>

definition SSLCTXServer_Create :: "tls_sys \<Rightarrow> ssl_ctx single \<Rightarrow> ssl_ctx single res" where
  "SSLCTXServer_Create ts s =
     (if m_instance s = None then res_bind (SSLCTXServer ts) (\<lambda>v. Inr (make_instance v s)) else Inr s)"

definition SSLCTXServer_GetInstance0 :: "ssl_ctx single \<Rightarrow> nat option res" where
  "SSLCTXServer_GetInstance0 s = (case m_instance s of None \<Rightarrow> Inl NullDeref | Some a \<Rightarrow> Inr (Some a))"

definition SSLCTXServer_GetInstance :: "tls_sys \<Rightarrow> ssl_ctx single \<Rightarrow> (nat option \<times> ssl_ctx single) res" where
  "SSLCTXServer_GetInstance ts s =
     res_bind (call_once (SSLCTXServer_Create ts) s) (\<lambda>s. res_bind (SSLCTXServer_GetInstance0 s) (\<lambda>p. Inr (p, s)))"

section \<open>The contract of a singleton\<close>

text \<open>A sequence of calls, with the pointers they return.\<close>

fun run_gets :: "('x \<Rightarrow> 'a single \<Rightarrow> (nat option \<times> 'a single) res) \<Rightarrow> 'x list \<Rightarrow> 'a single \<Rightarrow> (nat option list \<times> 'a single) res" where
  "run_gets get [] s = Inr ([], s)"
| "run_gets get (x # xs) s =
     res_bind (get x s) (\<lambda>(p, s). res_bind (run_gets get xs s) (\<lambda>(ps, s). Inr (p # ps, s)))"

text \<open>
  Whatever the arguments: once a first call has returned, every further call returns, all of them the same pointer,
  and exactly one object was made, which is alive.
\<close>

definition one_instance :: "('x \<Rightarrow> 'a single \<Rightarrow> (nat option \<times> 'a single) res) \<Rightarrow> bool" where
  "one_instance get \<longleftrightarrow>
     (\<forall>x xs r. get x no_instance = Inr r \<longrightarrow>
        (\<exists>s v. run_gets get (x # xs) no_instance = Inr (replicate (Suc (length xs)) (Some 0), s) \<and>
           made s = 1 \<and> live_objs s = [0 \<mapsto> v]))"

locale singleton =
  fixes get :: "'x \<Rightarrow> 'a single \<Rightarrow> (nat option \<times> 'a single) res"
  assumes first: "get x no_instance = Inr r \<Longrightarrow>
      fst r = Some 0 \<and> m_instance (snd r) = Some 0 \<and> made (snd r) = 1 \<and> (\<exists>v. live_objs (snd r) = [0 \<mapsto> v])"
    and later: "m_instance s = Some a \<Longrightarrow> get x s = Inr (Some a, s) \<or> get x s = Inr (Some a, s\<lparr>create_flag := True\<rparr>)"
begin

lemma run_later:
  "m_instance s = Some a \<Longrightarrow>
   \<exists>s'. run_gets get xs s = Inr (replicate (length xs) (Some a), s') \<and> made s' = made s \<and> live_objs s' = live_objs s"
proof (induction xs arbitrary: s)
  case (Cons x xs)
  obtain s1 where "get x s = Inr (Some a, s1)" "m_instance s1 = Some a" "made s1 = made s" "live_objs s1 = live_objs s"
    using later [OF Cons.prems, of x] Cons.prems by auto
  then show ?case using Cons.IH [of s1] by auto
qed simp

lemma one: "one_instance get"
  unfolding one_instance_def
proof (intro allI impI)
  fix x xs r
  assume g: "get x no_instance = Inr r"
  obtain s v where s: "r = (Some 0, s)" "m_instance s = Some 0" "made s = 1" "live_objs s = [0 \<mapsto> v]"
    using first [OF g] by (cases r) auto
  show "\<exists>s v. run_gets get (x # xs) no_instance = Inr (replicate (Suc (length xs)) (Some 0), s) \<and> made s = 1 \<and> live_objs s = [0 \<mapsto> v]"
    using run_later [OF s(2), of xs] g s by auto
qed

end

text \<open>What making an instance does to the members, and how \<^verbatim>\<open>call_once\<close> meets the two cases of the contract.\<close>

lemma single_fields [simp]:
  "m_instance no_instance = None" "create_flag no_instance = False" "made no_instance = 0" "live_objs no_instance = (\<lambda>_. None)"
  "m_instance (make_instance v s) = Some (made s)" "made (make_instance v s) = Suc (made s)"
  "live_objs (make_instance v s) = (live_objs s)(made s \<mapsto> v)"
  "m_instance (static_destroyer s) = m_instance s" "made (static_destroyer s) = made s" "live_objs (static_destroyer s) = live_objs s"
  by (simp_all add: no_instance_def make_instance_def static_destroyer_def)

lemma single_ext: "create_flag s \<Longrightarrow> s\<lparr>create_flag := True\<rparr> = s"
  by (cases s) simp

lemma some_live: "\<exists>v'. [0 \<mapsto> v] = [0 \<mapsto> v']"
  by blast

section \<open>Several threads at \<open>call_once\<close>\<close>

text \<open>
  \<^verbatim>\<open>GetInstance\<close> of a class with a static \<^verbatim>\<open>once_flag\<close> when several threads run it, each with an argument of its own.
  \<^verbatim>\<open>std::call_once\<close> lets the first thread in and makes the others wait until the function has returned, or has
  been left by an exception; then the next one is let in. Nothing but the function touches the members meanwhile, so its
  effect is one step. The pointer is read afterwards, in a step of its own.
\<close>

datatype once_flag = F_new | F_busy | F_done

datatype 'x caller = O_call 'x | O_create 'x | O_read | O_has "nat option" | O_threw

record ('x, 'a) once_run =
  o_flag :: once_flag
  o_members :: "'a single"
  o_pc :: "nat \<Rightarrow> 'x caller"

inductive once_step :: "('x \<Rightarrow> 'a single \<Rightarrow> 'a single res) \<Rightarrow> ('x, 'a) once_run \<Rightarrow> ('x, 'a) once_run \<Rightarrow> bool"
  for create where
  enter: "o_pc s t = O_call x \<Longrightarrow> o_flag s = F_new \<Longrightarrow>
    once_step create s (s\<lparr>o_flag := F_busy, o_pc := (o_pc s)(t := O_create x)\<rparr>)"
| pass: "o_pc s t = O_call x \<Longrightarrow> o_flag s = F_done \<Longrightarrow> once_step create s (s\<lparr>o_pc := (o_pc s)(t := O_read)\<rparr>)"
| body: "o_pc s t = O_create x \<Longrightarrow> create x (o_members s) = Inr m \<Longrightarrow>
    once_step create s (s\<lparr>o_members := m, o_flag := F_done, o_pc := (o_pc s)(t := O_read)\<rparr>)"
| throw: "o_pc s t = O_create x \<Longrightarrow> create x (o_members s) = Inl e \<Longrightarrow>
    once_step create s (s\<lparr>o_flag := F_new, o_pc := (o_pc s)(t := O_threw)\<rparr>)"
| read: "o_pc s t = O_read \<Longrightarrow> once_step create s (s\<lparr>o_pc := (o_pc s)(t := O_has (m_instance (o_members s)))\<rparr>)"

definition once_start :: "(nat \<Rightarrow> 'x) \<Rightarrow> ('x, 'a) once_run" where
  "once_start arg = \<lparr>o_flag = F_new, o_members = no_instance, o_pc = (\<lambda>t. O_call (arg t))\<rparr>"

text \<open>
  What threads may rely on: in every interleaving, at most one object has ever been made, and a thread that has
  returned holds the pointer to it, and it is alive.
\<close>

definition threads_agree :: "('x \<Rightarrow> 'a single \<Rightarrow> 'a single res) \<Rightarrow> bool" where
  "threads_agree create \<longleftrightarrow>
     (\<forall>arg s. (once_step create)\<^sup>*\<^sup>* (once_start arg) s \<longrightarrow>
        made (o_members s) \<le> 1 \<and>
        (\<forall>t p. o_pc s t = O_has p \<longrightarrow> p = Some 0 \<and> made (o_members s) = 1 \<and> (\<exists>v. live_objs (o_members s) = [0 \<mapsto> v])))"

fun outside :: "'x caller \<Rightarrow> bool" where
  "outside (O_call x) = True"
| "outside O_threw = True"
| "outside _ = False"

definition once_ok :: "('x, 'a) once_run \<Rightarrow> bool" where
  "once_ok s \<longleftrightarrow>
     (case o_flag s of
        F_new \<Rightarrow> o_members s = no_instance \<and> (\<forall>t. outside (o_pc s t))
      | F_busy \<Rightarrow> o_members s = no_instance \<and> (\<exists>u x. o_pc s u = O_create x \<and> (\<forall>t. t \<noteq> u \<longrightarrow> outside (o_pc s t)))
      | F_done \<Rightarrow> m_instance (o_members s) = Some 0 \<and> made (o_members s) = 1 \<and> (\<exists>v. live_objs (o_members s) = [0 \<mapsto> v]) \<and>
          (\<forall>t. outside (o_pc s t) \<or> o_pc s t = O_read \<or> o_pc s t = O_has (Some 0)))"

text \<open>A function that makes an object when the pointer is null and does nothing when it is not keeps the promise.\<close>

locale creator =
  fixes create :: "'x \<Rightarrow> 'a single \<Rightarrow> 'a single res"
  assumes fresh: "m_instance s = None \<Longrightarrow> create x s = Inr s' \<Longrightarrow>
      \<exists>v. m_instance s' = Some (made s) \<and> made s' = Suc (made s) \<and> live_objs s' = (live_objs s)(made s \<mapsto> v)"
    and kept: "m_instance s \<noteq> None \<Longrightarrow> create x s = Inr s"
begin

lemma once_step_ok: "once_step create s s' \<Longrightarrow> once_ok s \<Longrightarrow> once_ok s'"
proof (induction rule: once_step.induct)
  case (body s t x m)
  then have f: "o_flag s = F_busy" "o_members s = no_instance" "\<forall>u. u \<noteq> t \<longrightarrow> outside (o_pc s u)"
    by (auto simp: once_ok_def split: once_flag.splits; metis outside.simps caller.distinct)+
  then show ?case using fresh [OF _ body(2)] by (auto simp: once_ok_def)
next
  case (throw s t x e)
  then have "o_members s = no_instance" "\<forall>u. u \<noteq> t \<longrightarrow> outside (o_pc s u)"
    by (auto simp: once_ok_def split: once_flag.splits; metis outside.simps caller.distinct)+
  then show ?case by (auto simp: once_ok_def)
next
  case (read s t)
  then have "o_flag s = F_done"
    by (auto simp: once_ok_def split: once_flag.splits; metis outside.simps caller.distinct)
  then show ?case using read by (auto simp: once_ok_def)
qed (auto simp: once_ok_def split: once_flag.splits)

lemma agree: "threads_agree create"
proof -
  have ok: "once_ok s" if "(once_step create)\<^sup>*\<^sup>* (once_start arg) s" for arg s
    using that
  proof (induction rule: rtranclp_induct)
    case base
    show ?case by (simp add: once_ok_def once_start_def)
  qed (rule once_step_ok)
  have has: "o_flag s = F_done \<and> p = Some 0" if "once_ok s" "o_pc s t = O_has p" for s :: "('x, 'a) once_run" and t p
    using that
    by (auto simp: once_ok_def split: once_flag.splits; metis outside.simps caller.distinct caller.inject)
  have "made (o_members s) \<le> 1 \<and> (\<forall>t p. o_pc s t = O_has p \<longrightarrow>
      p = Some 0 \<and> made (o_members s) = 1 \<and> (\<exists>v. live_objs (o_members s) = [0 \<mapsto> v]))" if "once_ok s" for s :: "('x, 'a) once_run"
    using that has [OF that] by (auto simp: once_ok_def split: once_flag.splits)
  with ok show ?thesis unfolding threads_agree_def by blast
qed

end

text \<open>
  The singletons whose \<^verbatim>\<open>GetInstance\<close> is just \<^verbatim>\<open>call_once\<close> and the read of the pointer.
\<close>

locale once_created = creator create for create :: "'x \<Rightarrow> 'a single \<Rightarrow> 'a single res" +
  fixes once_get :: "'x \<Rightarrow> 'a single \<Rightarrow> (nat option \<times> 'a single) res"
  assumes once: "once_get x s = res_bind (call_once (create x) s) (\<lambda>s. Inr (m_instance s, s))"

sublocale once_created \<subseteq> singleton once_get
proof
  fix x r
  assume "once_get x no_instance = Inr r"
  then obtain s where s: "create x no_instance = Inr s" "r = (m_instance s, s\<lparr>create_flag := True\<rparr>)"
    by (auto simp: once call_once_def)
  then show "fst r = Some 0 \<and> m_instance (snd r) = Some 0 \<and> made (snd r) = 1 \<and> (\<exists>v. live_objs (snd r) = [0 \<mapsto> v])"
    using fresh [of no_instance x s] by auto
next
  fix s :: "'a single" and a x
  assume "m_instance s = Some a"
  then show "once_get x s = Inr (Some a, s) \<or> once_get x s = Inr (Some a, s\<lparr>create_flag := True\<rparr>)"
    using kept [of s x] by (simp add: once call_once_def)
qed

interpretation conf: once_created "\<lambda>_. CConfig_Create" CConfig_GetInstance
  by unfold_locales (auto simp: CConfig_GetInstance_def CConfig_Create_def)

interpretation timer: once_created "\<lambda>_. Timer_Create" Timer_GetInstance
  by unfold_locales (auto simp: Timer_GetInstance_def Timer_Create_def)

interpretation socket: once_created CSocket_Create CSocket_GetInstance
  by unfold_locales (auto simp: CSocket_GetInstance_def CSocket_Create_def)

interpretation threads: once_created "\<lambda>a. CThread_Create (fst a) (snd a)" CThread_GetInstance
  by unfold_locales (auto simp: CThread_GetInstance_def CThread_Create_def)

interpretation crc: singleton CCRC32_GetInstance
  by unfold_locales (use some_live in \<open>auto simp: CCRC32_GetInstance_def\<close>)

interpretation memory: singleton CMemory_GetInstance
  by unfold_locales (use some_live in \<open>auto simp: CMemory_GetInstance_def\<close>)

interpretation log: singleton "Log_GetInstance files" for files
proof
  fix a r
  assume "Log_GetInstance files a no_instance = Inr r"
  then show "fst r = Some 0 \<and> m_instance (snd r) = Some 0 \<and> made (snd r) = 1 \<and> (\<exists>v. live_objs (snd r) = [0 \<mapsto> v])"
    using some_live by (auto simp: Log_GetInstance_def Log_Create_def call_once_def)
next
  fix s :: "Log single" and p a
  assume "m_instance s = Some p"
  then show "Log_GetInstance files a s = Inr (Some p, s) \<or> Log_GetInstance files a s = Inr (Some p, s\<lparr>create_flag := True\<rparr>)"
    by (simp add: Log_GetInstance_def Log_Create_def call_once_def)
qed

interpretation tls_created: creator SSLCTXServer_Create
  by unfold_locales (auto simp: SSLCTXServer_Create_def)

interpretation tls: singleton SSLCTXServer_GetInstance
proof
  fix ts r
  assume "SSLCTXServer_GetInstance ts no_instance = Inr r"
  then show "fst r = Some 0 \<and> m_instance (snd r) = Some 0 \<and> made (snd r) = 1 \<and> (\<exists>v. live_objs (snd r) = [0 \<mapsto> v])"
    using some_live by (auto simp: SSLCTXServer_GetInstance_def SSLCTXServer_GetInstance0_def SSLCTXServer_Create_def call_once_def)
next
  fix s :: "ssl_ctx single" and a ts
  assume "m_instance s = Some a"
  then show "SSLCTXServer_GetInstance ts s = Inr (Some a, s) \<or> SSLCTXServer_GetInstance ts s = Inr (Some a, s\<lparr>create_flag := True\<rparr>)"
    by (simp add: SSLCTXServer_GetInstance_def SSLCTXServer_GetInstance0_def SSLCTXServer_Create_def call_once_def)
qed


section \<open>The unlocked test\<close>

text \<open>
  \<^verbatim>\<open>GetInstance\<close> of \<^verbatim>\<open>CCRC32\<close> and \<^verbatim>\<open>CMemory\<close> when several threads run it: the two tests, the construction, the store
  and the final read of the pointer are steps of their own, and no lock is taken where the comments name one.
\<close>

datatype racer = Q_test1 | Q_test2 | Q_new | Q_store nat | Q_return | Q_has "nat option"

record race =
  q_inst :: "nat option"
  q_made :: nat
  q_pc :: "nat \<Rightarrow> racer"

inductive race_step :: "race \<Rightarrow> race \<Rightarrow> bool" where
  test1_null: "q_pc s t = Q_test1 \<Longrightarrow> q_inst s = None \<Longrightarrow> race_step s (s\<lparr>q_pc := (q_pc s)(t := Q_test2)\<rparr>)"
| test1_set: "q_pc s t = Q_test1 \<Longrightarrow> q_inst s \<noteq> None \<Longrightarrow> race_step s (s\<lparr>q_pc := (q_pc s)(t := Q_return)\<rparr>)"
| test2_null: "q_pc s t = Q_test2 \<Longrightarrow> q_inst s = None \<Longrightarrow> race_step s (s\<lparr>q_pc := (q_pc s)(t := Q_new)\<rparr>)"
| test2_set: "q_pc s t = Q_test2 \<Longrightarrow> q_inst s \<noteq> None \<Longrightarrow> race_step s (s\<lparr>q_pc := (q_pc s)(t := Q_return)\<rparr>)"
| construct: "q_pc s t = Q_new \<Longrightarrow>
    race_step s (s\<lparr>q_made := Suc (q_made s), q_pc := (q_pc s)(t := Q_store (q_made s))\<rparr>)"
| store: "q_pc s t = Q_store a \<Longrightarrow> race_step s (s\<lparr>q_inst := Some a, q_pc := (q_pc s)(t := Q_return)\<rparr>)"
| answer: "q_pc s t = Q_return \<Longrightarrow> race_step s (s\<lparr>q_pc := (q_pc s)(t := Q_has (q_inst s))\<rparr>)"

definition race_start :: race where
  "race_start = \<lparr>q_inst = None, q_made = 0, q_pc = (\<lambda>_. Q_test1)\<rparr>"

fun racer_ok :: "nat option \<Rightarrow> nat \<Rightarrow> racer \<Rightarrow> bool" where
  "racer_ok i n (Q_store a) \<longleftrightarrow> a < n"
| "racer_ok i n Q_return \<longleftrightarrow> i \<noteq> None"
| "racer_ok i n (Q_has p) \<longleftrightarrow> (\<exists>a<n. p = Some a)"
| "racer_ok i n _ \<longleftrightarrow> True"

definition race_ok :: "race \<Rightarrow> bool" where
  "race_ok s \<longleftrightarrow> (\<forall>a. q_inst s = Some a \<longrightarrow> a < q_made s) \<and> (\<forall>t. racer_ok (q_inst s) (q_made s) (q_pc s t))"

lemma racer_ok_Suc: "racer_ok i n pc \<Longrightarrow> racer_ok i (Suc n) pc"
  by (cases pc) auto

lemma racer_ok_set: "racer_ok i n pc \<Longrightarrow> racer_ok (Some a) n pc"
  by (cases pc) auto

lemma race_step_ok: "race_step s s' \<Longrightarrow> race_ok s \<Longrightarrow> race_ok s'"
proof (induction rule: race_step.induct)
  case (construct s t)
  then show ?case by (auto simp: race_ok_def racer_ok_Suc less_Suc_eq)
next
  case (store s t a)
  then have "a < q_made s" by (metis race_ok_def racer_ok.simps(1))
  then show ?case using store by (auto simp: race_ok_def intro: racer_ok_set)
next
  case (answer s t)
  then have "q_inst s \<noteq> None" by (metis race_ok_def racer_ok.simps(2))
  then show ?case using answer by (auto simp: race_ok_def)
qed (auto simp: race_ok_def)

lemma race_reachable_ok: "race_step\<^sup>*\<^sup>* race_start s \<Longrightarrow> race_ok s"
proof (induction rule: rtranclp_induct)
  case base
  show ?case by (simp add: race_ok_def race_start_def)
qed (rule race_step_ok)

text \<open>Thread 1 constructs and stores between the second test of thread 0 and its construction.\<close>

lemma race_two_objects:
  "\<exists>s. race_step\<^sup>*\<^sup>* race_start s \<and> q_made s = 2 \<and> q_pc s 1 = Q_has (Some 0) \<and> q_pc s 0 = Q_has (Some 1)"
proof -
  let ?r = "\<lambda>i n f. \<lparr>q_inst = i, q_made = n, q_pc = f\<rparr>"
  let ?f0 = "\<lambda>_::nat. Q_test1"
  let ?f1 = "?f0(0 := Q_test2)" let ?f2 = "?f1(0 := Q_new)"
  let ?f3 = "?f2(1 := Q_test2)" let ?f4 = "?f3(1 := Q_new)" let ?f5 = "?f4(1 := Q_store 0)" let ?f6 = "?f5(1 := Q_return)"
  let ?f7 = "?f6(1 := Q_has (Some 0))"
  let ?f8 = "?f7(0 := Q_store 1)" let ?f9 = "?f8(0 := Q_return)" let ?f10 = "?f9(0 := Q_has (Some 1))"
  have s1: "race_step (?r None 0 ?f0) (?r None 0 ?f1)" using test1_null [of "?r None 0 ?f0" 0] by simp
  have s2: "race_step (?r None 0 ?f1) (?r None 0 ?f2)" using test2_null [of "?r None 0 ?f1" 0] by simp
  have s3: "race_step (?r None 0 ?f2) (?r None 0 ?f3)" using test1_null [of "?r None 0 ?f2" 1] by simp
  have s4: "race_step (?r None 0 ?f3) (?r None 0 ?f4)" using test2_null [of "?r None 0 ?f3" 1] by simp
  have s5: "race_step (?r None 0 ?f4) (?r None 1 ?f5)" using construct [of "?r None 0 ?f4" 1] by simp
  have s6: "race_step (?r None 1 ?f5) (?r (Some 0) 1 ?f6)" using store [of "?r None 1 ?f5" 1 0] by simp
  have s7: "race_step (?r (Some 0) 1 ?f6) (?r (Some 0) 1 ?f7)" using answer [of "?r (Some 0) 1 ?f6" 1] by simp
  have s8: "race_step (?r (Some 0) 1 ?f7) (?r (Some 0) 2 ?f8)" using construct [of "?r (Some 0) 1 ?f7" 0] by (simp add: numeral_2_eq_2)
  have s9: "race_step (?r (Some 0) 2 ?f8) (?r (Some 1) 2 ?f9)" using store [of "?r (Some 0) 2 ?f8" 0 1] by simp
  have s10: "race_step (?r (Some 1) 2 ?f9) (?r (Some 1) 2 ?f10)" using answer [of "?r (Some 1) 2 ?f9" 0] by simp
  note r = rtranclp.rtrancl_into_rtrancl [where r = race_step]
  note p5 = r [OF r [OF r [OF r [OF r_into_rtranclp [where r = race_step, OF s1] s2] s3] s4] s5]
  note p10 = r [OF r [OF r [OF r [OF r [OF p5 s6] s7] s8] s9] s10]
  show ?thesis
    unfolding race_start_def by (rule exI [of _ "?r (Some 1) 2 ?f10"], rule conjI [OF p10]) simp
qed

section \<open>Properties\<close>

text \<open>
  C15. When the singletons are one object. Called one after another, \<^verbatim>\<open>GetInstance\<close> of each of the eight classes gives
  one object, whatever the arguments of the calls (the name and level of the log, the bounds of the thread pool, the
  certificate): once a first call has returned, all further calls return the same pointer, exactly one object was made, and
  it is alive. This includes the log, whose \<^verbatim>\<open>once_flag\<close> is a new local variable in every call. For the five classes
  with a static \<^verbatim>\<open>once_flag\<close> the same holds of any number of threads in any interleaving. (For the unlocked classes it
  does not, as the race below shows.)
\<close>

theorem singletons_single:
  "one_instance CConfig_GetInstance \<and> one_instance (Timer_GetInstance :: unit \<Rightarrow> ('f, 'b) Timer single \<Rightarrow> _) \<and>
   one_instance CSocket_GetInstance \<and> one_instance (Log_GetInstance files) \<and>
   one_instance (CThread_GetInstance :: int \<times> int \<Rightarrow> 't cthread option single \<Rightarrow> _) \<and> one_instance CCRC32_GetInstance \<and>
   one_instance CMemory_GetInstance \<and> one_instance SSLCTXServer_GetInstance \<and>
   threads_agree (\<lambda>_ :: unit. CConfig_Create) \<and> threads_agree (\<lambda>_ :: unit. Timer_Create :: ('f, 'b) Timer single \<Rightarrow> _) \<and>
   threads_agree CSocket_Create \<and> threads_agree SSLCTXServer_Create \<and>
   threads_agree (\<lambda>(Tmin, Tmax). CThread_Create Tmin Tmax :: 't cthread option single \<Rightarrow> _)"
  using conf.one timer.one socket.one log.one threads.one crc.one memory.one tls.one conf.agree timer.agree socket.agree
    tls_created.agree threads.agree by (simp add: case_prod_beta')

text \<open>
  C37. The unlocked test makes two objects. In every interleaving of any number of threads in \<^verbatim>\<open>GetInstance\<close> of
  \<^verbatim>\<open>CCRC32\<close> or \<^verbatim>\<open>CMemory\<close>, what a thread returns points to an object that was made; but two threads can return two
  different objects, of which only the later one is known to the class.
\<close>

theorem unlocked_instance_race:
  "(\<forall>s t p. race_step\<^sup>*\<^sup>* race_start s \<longrightarrow> q_pc s t = Q_has p \<longrightarrow> (\<exists>a<q_made s. p = Some a)) \<and>
   (\<exists>s. race_step\<^sup>*\<^sup>* race_start s \<and> q_made s = 2 \<and> q_pc s 1 = Q_has (Some 0) \<and> q_pc s 0 = Q_has (Some 1))"
proof (intro conjI allI impI)
  fix s t p
  assume "race_step\<^sup>*\<^sup>* race_start s" "q_pc s t = Q_has p"
  then show "\<exists>a<q_made s. p = Some a" using race_reachable_ok [of s] by (metis race_ok_def racer_ok.simps(3))
qed (rule race_two_objects)

theorem unlocked_instance_race_witness:
  "\<exists>s. race_step\<^sup>*\<^sup>* race_start s \<and> q_pc s 0 = Q_has (Some 1) \<and> (1::nat) < q_made s"
proof -
  obtain s where s: "race_step\<^sup>*\<^sup>* race_start s" "q_pc s 0 = Q_has (Some 1)" using unlocked_instance_race by blast
  then have "\<exists>a<q_made s. Some 1 = Some a" using unlocked_instance_race by blast
  then show ?thesis using s by auto
qed

text \<open>
  Two destroyers leave a dangling pointer. After their destroyers, the pointers of the log and of the thread pool
  still name the deleted object: \<^verbatim>\<open>GetInstance()\<close> returns it, and running the destroyer again would delete it again.
  The destroyers of the other classes reset the pointer and may run again.
\<close>

theorem destroyers_dangle:
  assumes "m_instance s = Some a" "live_objs s a \<noteq> None" "m_instance l = Some b" "live_objs l b \<noteq> None"
    and "m_instance c = Some d" "live_objs c d \<noteq> None"
  shows "(\<exists>s'. Destroy_CT s = Inr s' \<and> CThread_GetInstance0 s' = Some a \<and> live_objs s' a = None \<and> Destroy_CT s' = Inl DeadMemory) \<and>
     (\<exists>l'. Destroy_Log l = Inr l' \<and> Log_GetInstance0 l' = Some b \<and> live_objs l' b = None \<and> Destroy_Log l' = Inl DeadMemory) \<and>
     (\<exists>c'. DestroyCon c = Inr c' \<and> m_instance c' = None \<and> live_objs c' d = None \<and> DestroyCon c' = Inr c')"
  using assms
  by (auto simp: Destroy_CT_def Destroy_Log_def DestroyCon_def delete_instance_def CThread_GetInstance0_def Log_GetInstance0_def)

end
