(* ===== verification/Heartbeat.thy ===== *)
theory Heartbeat
  imports SockOps
begin

text \<open>
  The heartbeat check of \<^verbatim>\<open>net/ngx_c_socket_ping.cpp\<close>: every connection has an entry in the multimap
  \<^verbatim>\<open>m_timerQueuemap\<close> under the time it was last looked at, and the task \<^verbatim>\<open>ngx_time_check\<close> goes through the
  entries that are older than \<^verbatim>\<open>3 * WAITTIME + 10\<close> seconds: stale ones are dropped, connections that have
  sent a ping since are entered anew, silent ones are to be kicked.
\<close>

section \<open>Operations\<close>

text \<open>
  \<^verbatim>\<open>ngx_add_check\<close>; the block it allocates holds just a message header. The event loop waits while the
  checking task holds \<^verbatim>\<open>m_PingMutex\<close>.
\<close>

definition ngx_add_check :: "env \<Rightarrow> conn_ptr \<Rightarrow> csocket \<Rightarrow> csocket res" where
  "ngx_add_check env c cs =
     res_bind (conn_upd c (\<lambda>t. t\<lparr>lastPingTime := e_time env, storePingTime := e_time env\<rparr>) cs) (\<lambda>cs.
     if m_PingMutex cs then Inl Blocked
     else
       let (q, cs) = AllocMemory MSGHEADERLEN cs;
           cs = mem_put q \<lparr>mb_header = Some \<lparr>pConn = c, hdr_sequence = iCurrsequence (conns cs c)\<rparr>,
                           mb_bytes = []\<rparr> cs
       in Inr (cs\<lparr>m_timerQueuemap := mm_insert (lastPingTime (conns cs c)) q (m_timerQueuemap cs)\<rparr>))"

definition ping_limit :: int where
  "ping_limit = WAITTIME * 3 + 10"

text \<open>
  The key under which a connection is entered anew passes through a \<^verbatim>\<open>std::pair<int, LPSTRUC_MSG_HEADER>\<close>: the
  \<^verbatim>\<open>time_t\<close> loses all but its lower 32 bits.
\<close>

definition time32 :: "int \<Rightarrow> int" where
  "time32 t = sint (word_of_int t :: 32 word)"

text \<open>
  The loop over the entries. The iterator starts at \<^verbatim>\<open>begin()\<close>; each pass erases the entry it stands at,
  returns to \<^verbatim>\<open>begin()\<close> or leaves the loop, so it always stands at the first entry. The one combination
  no branch handles leaves the iterator where it is, forever (\<open>Blocked\<close>). \<open>fuel\<close> bounds the passes; a loop that
  does not end is \<open>Blocked\<close> with any fuel.
\<close>

fun check_loop :: "nat \<Rightarrow> env \<Rightarrow> csocket \<Rightarrow> csocket res" where
  "check_loop 0 env cs = Inl Blocked"
| "check_loop (Suc fuel) env cs =
     (case m_timerQueuemap cs of
        [] \<Rightarrow> Inr cs
      | (key, q) # entries \<Rightarrow>
          res_bind (msg_header_of q cs) (\<lambda>h.
          let c = pConn h; t = conns cs c; now = e_time env in
          if hdr_sequence h \<noteq> iCurrsequence t then
            res_bind (FreeMemory (Some q) cs)
              (\<lambda>cs. check_loop fuel env (cs\<lparr>m_timerQueuemap := entries\<rparr>))
          else if now - key \<ge> ping_limit then
            (if key = lastPingTime t \<or> now - lastPingTime t \<ge> ping_limit then
               res_bind (ngx_free_con_self env c cs) (\<lambda>cs.
               res_bind (FreeMemory (Some q) cs)
                 (\<lambda>cs. check_loop fuel env (cs\<lparr>m_timerQueuemap := tl (m_timerQueuemap cs)\<rparr>)))
             else
               res_bind (conn_upd c (\<lambda>t. t\<lparr>storePingTime := lastPingTime t\<rparr>) cs)
                 (\<lambda>cs. check_loop fuel env (cs\<lparr>m_timerQueuemap := mm_insert (time32 (lastPingTime t)) q entries\<rparr>)))
          else if now - lastPingTime t \<le> ping_limit then Inr cs
          else Inl Blocked))"

text \<open>
  One round of the \<^verbatim>\<open>while(true)\<close> of \<^verbatim>\<open>ngx_time_check\<close>: the result says whether the task goes on. The round
  holds \<^verbatim>\<open>m_PingMutex\<close>. As long as the times of the pings fit into 32 bits the fuel is enough for the loop
  (\<open>check_loop_result\<close>); afterwards no fuel may be (\<open>refreshed_past_2038\<close>).
\<close>

definition ngx_time_check_round :: "env \<Rightarrow> csocket \<Rightarrow> (bool \<times> csocket) res" where
  "ngx_time_check_round env cs =
     (if m_PingMutex cs then Inl Blocked
      else if m_shutdown cs then Inr (False, cs)
      else case m_timerQueuemap cs of
        [] \<Rightarrow> Inl Blocked
      | (key, q) # entries \<Rightarrow>
          (if e_time env - key < ping_limit then Inr (True, cs)
           else
             res_bind (check_loop (2 * length (m_timerQueuemap cs) + 1) env (cs\<lparr>m_PingMutex := True\<rparr>))
               (\<lambda>cs. Inr (True, cs\<lparr>m_PingMutex := False\<rparr>))))"

section \<open>Invariant\<close>

text \<open>An entry is live when its connection is still the one it was made for.\<close>

definition live_entry :: "csocket \<Rightarrow> mem_ptr \<Rightarrow> bool" where
  "live_entry cs q \<longleftrightarrow>
     (\<exists>h. msg_header_of q cs = Inr h \<and> hdr_sequence h = iCurrsequence (conns cs (pConn h)))"

definition entry_conn :: "csocket \<Rightarrow> mem_ptr \<Rightarrow> conn_ptr" where
  "entry_conn cs q = (case msg_header_of q cs of Inr h \<Rightarrow> pConn h | Inl _ \<Rightarrow> (0, 0))"

text \<open>
  The entries are ordered, each has a block of its own with a header, no two live entries are of the
  same connection, and a live entry's key is the connection's \<^verbatim>\<open>storePingTime\<close>, not later than its last
  ping.
\<close>

definition entry_ok :: "csocket \<Rightarrow> int \<times> mem_ptr \<Rightarrow> bool" where
  "entry_ok cs e \<longleftrightarrow>
     (\<exists>h. msg_header_of (snd e) cs = Inr h) \<and>
     (live_entry cs (snd e) \<longrightarrow>
        valid_conn cs (entry_conn cs (snd e)) \<and> fst e = storePingTime (conns cs (entry_conn cs (snd e))) \<and>
        fst e \<le> lastPingTime (conns cs (entry_conn cs (snd e))))"

definition ping_inv :: "csocket \<Rightarrow> bool" where
  "ping_inv cs \<longleftrightarrow>
     sorted (map fst (m_timerQueuemap cs)) \<and> distinct (map snd (m_timerQueuemap cs)) \<and>
     (\<forall>e \<in> set (m_timerQueuemap cs). entry_ok cs e) \<and>
     inj_on (entry_conn cs) {q \<in> snd ` set (m_timerQueuemap cs). live_entry cs q}"

text \<open>The times of the last pings fit into an \<^verbatim>\<open>int\<close>, as they do until January 2038.\<close>

definition dates_fit :: "csocket \<Rightarrow> bool" where
  "dates_fit cs \<longleftrightarrow> (\<forall>p. valid_conn cs p \<longrightarrow> - (2 ^ 31) \<le> lastPingTime (conns cs p) \<and> lastPingTime (conns cs p) < 2 ^ 31)"

definition silent :: "env \<Rightarrow> csocket \<Rightarrow> mem_ptr \<Rightarrow> bool" where
  "silent env cs q \<longleftrightarrow> live_entry cs q \<and> e_time env - lastPingTime (conns cs (entry_conn cs q)) \<ge> ping_limit"

text \<open>The passes the loop still needs at most.\<close>

definition passes :: "env \<Rightarrow> csocket \<Rightarrow> nat" where
  "passes env cs =
     length (m_timerQueuemap cs) + length (filter (\<lambda>e. e_time env - fst e \<ge> ping_limit) (m_timerQueuemap cs))"

section \<open>Lemmas\<close>

named_theorems ping_simps \<open>entries under the updates of the loop\<close>

lemma msg_header_updates [ping_simps]:
  "msg_header_of q (cs\<lparr>m_timerQueuemap := x\<rparr>) = msg_header_of q cs"
  "msg_header_of q (cs\<lparr>m_PingMutex := b\<rparr>) = msg_header_of q cs"
  "msg_header_of q (conn_put p t cs) = msg_header_of q cs"
  "q \<noteq> q' \<Longrightarrow> msg_header_of q (cs\<lparr>mem := (mem cs)(q' := y)\<rparr>) = msg_header_of q cs"
  by (simp_all add: msg_header_of_def mem_get_def sock_simps)

lemma valid_conn_updates [ping_simps]:
  "valid_conn (cs\<lparr>m_timerQueuemap := x\<rparr>) p = valid_conn cs p"
  "valid_conn (cs\<lparr>m_PingMutex := b\<rparr>) p = valid_conn cs p"
  "valid_conn (cs\<lparr>mem := m\<rparr>) p = valid_conn cs p"
  by (simp_all add: valid_conn_def)

lemma time32_id: "- (2 ^ 31) \<le> t \<Longrightarrow> t < 2 ^ 31 \<Longrightarrow> time32 t = t"
  by (simp add: time32_def sint_sbintrunc' signed_take_bit_int_eq_self)

lemma time32_wraps: "2 ^ 31 \<le> t \<Longrightarrow> t < 2 ^ 32 \<Longrightarrow> time32 t = t - 2 ^ 32"
proof -
  assume t: "2 ^ 31 \<le> t" "t < 2 ^ 32"
  have "(word_of_int t :: 32 word) = word_of_int (t - 2 ^ 32)" by (simp add: word_of_int_eq_iff take_bit_eq_mod)
  then have "time32 t = time32 (t - 2 ^ 32)" by (simp only: time32_def)
  then show ?thesis using t by (simp add: time32_id)
qed

text \<open>Entries are the same in two states that agree on the header and on the connection's fields.\<close>

lemma entry_cong:
  assumes "msg_header_of q cs' = msg_header_of q cs" "\<And>p. iCurrsequence (conns cs' p) = iCurrsequence (conns cs p)"
  shows "live_entry cs' q = live_entry cs q" "entry_conn cs' q = entry_conn cs q"
  using assms by (simp_all add: live_entry_def entry_conn_def)

lemma silent_cong:
  assumes "msg_header_of q cs' = msg_header_of q cs" "\<And>p. iCurrsequence (conns cs' p) = iCurrsequence (conns cs p)"
    "\<And>p. lastPingTime (conns cs' p) = lastPingTime (conns cs p)"
  shows "silent env cs' q = silent env cs q"
  using assms entry_cong [OF assms(1,2)] by (simp add: silent_def)

lemma kick_deadlocks:
  assumes "valid_conn cs c" "m_PingMutex cs"
  shows "ngx_free_con_self env c cs = Inl SelfDeadlock"
  using assms
  by (auto simp: ngx_free_con_self_def ngx_epoll_del_event_def add_free_timer_def ping_erase_def conn_upd_def
      conn_put_def valid_conn_def Let_def)

text \<open>What a pass changes of the connections.\<close>

definition only_store :: "csocket \<Rightarrow> csocket \<Rightarrow> bool" where
  "only_store cs cs' \<longleftrightarrow> (\<forall>p. conns cs' p = (conns cs p)\<lparr>storePingTime := storePingTime (conns cs' p)\<rparr>)"

lemma only_storeD:
  assumes "only_store cs cs'"
  shows "iCurrsequence (conns cs' p) = iCurrsequence (conns cs p)" "lastPingTime (conns cs' p) = lastPingTime (conns cs p)"
    "fd (conns cs' p) = fd (conns cs p)"
  using assms
  by (metis only_store_def ngx_connection.select_convs ngx_connection.surjective ngx_connection.update_convs(16))+

lemma only_store_refl: "only_store cs cs"
  by (simp add: only_store_def)

lemma only_store_trans: "only_store cs cs1 \<Longrightarrow> only_store cs1 cs2 \<Longrightarrow> only_store cs cs2"
  unfolding only_store_def
  by (metis (no_types, lifting) ngx_connection.surjective ngx_connection.update_convs(16))

lemma dates_fit_kept:
  "dates_fit cs \<Longrightarrow> (\<And>p. valid_conn cs' p = valid_conn cs p) \<Longrightarrow> only_store cs cs' \<Longrightarrow> dates_fit cs'"
  by (simp add: dates_fit_def only_storeD)

lemma ping_invD:
  assumes "ping_inv cs" "m_timerQueuemap cs = (key, q) # entries"
  shows "sorted (map fst entries)" "\<forall>e \<in> set entries. key \<le> fst e" "q \<notin> snd ` set entries" "distinct (map snd entries)"
    "\<exists>h. msg_header_of q cs = Inr h"
    "live_entry cs q \<Longrightarrow> valid_conn cs (entry_conn cs q) \<and> key = storePingTime (conns cs (entry_conn cs q)) \<and>
       key \<le> lastPingTime (conns cs (entry_conn cs q))"
  using assms by (auto simp: ping_inv_def entry_ok_def)

text \<open>Dropping a stale first entry.\<close>

lemma ping_inv_drop:
  assumes inv: "ping_inv cs" and e: "m_timerQueuemap cs = (key, q) # entries" and d: "\<not> live_entry cs q"
    and cs1: "cs1 = cs\<lparr>mem := (mem cs)(q := None), m_timerQueuemap := entries\<rparr>"
  shows "ping_inv cs1" "\<And>x. x \<in> snd ` set entries \<Longrightarrow> live_entry cs1 x = live_entry cs x"
    "\<And>x. x \<in> snd ` set entries \<Longrightarrow> silent env cs1 x = silent env cs x" "only_store cs cs1"
proof -
  have q: "x \<noteq> q" if "x \<in> snd ` set entries" for x using ping_invD(3) [OF inv e] that by auto
  have m: "msg_header_of x cs1 = msg_header_of x cs" if "x \<in> snd ` set entries" for x
    using q [OF that] by (simp add: cs1 ping_simps)
  have c: "conns cs1 = conns cs" by (simp add: cs1)
  show l: "live_entry cs1 x = live_entry cs x" if "x \<in> snd ` set entries" for x
    by (rule entry_cong) (simp_all add: m that c)
  have ec: "entry_conn cs1 x = entry_conn cs x" if "x \<in> snd ` set entries" for x
    by (rule entry_cong) (simp_all add: m that c)
  show "silent env cs1 x = silent env cs x" if "x \<in> snd ` set entries" for x
    by (rule silent_cong) (simp_all add: m that c)
  show "only_store cs cs1" by (simp add: only_store_def c)
  have "inj_on (entry_conn cs1) {x \<in> snd ` set entries. live_entry cs1 x}"
  proof (rule inj_onI)
    fix x y assume *: "x \<in> {x \<in> snd ` set entries. live_entry cs1 x}" "y \<in> {x \<in> snd ` set entries. live_entry cs1 x}"
      "entry_conn cs1 x = entry_conn cs1 y"
    have "inj_on (entry_conn cs) {q \<in> snd ` set (m_timerQueuemap cs). live_entry cs q}" using inv by (simp add: ping_inv_def)
    then show "x = y" by (rule inj_onD) (use * l ec e in auto)
  qed
  moreover have "entry_ok cs1 x" if "x \<in> set entries" for x
  proof -
    have x: "snd x \<in> snd ` set entries" using that by simp
    have "entry_ok cs x" using inv that e by (simp add: ping_inv_def)
    then show ?thesis
      unfolding entry_ok_def m [OF x] l [OF x] ec [OF x] c by (auto simp: cs1 valid_conn_updates)
  qed
  ultimately show "ping_inv cs1"
    using ping_invD(1,4) [OF inv e] by (simp add: ping_inv_def cs1)
qed

text \<open>Entering a refreshed connection anew.\<close>

lemma distinct_snd_mm_insert:
  "distinct (map snd (mm_insert k v xs)) \<longleftrightarrow> v \<notin> snd ` set xs \<and> distinct (map snd xs)"
  by (induction k v xs rule: mm_insert.induct) (auto simp: set_mm_insert)

lemma ping_inv_requeue:
  assumes inv: "ping_inv cs" and e: "m_timerQueuemap cs = (key, q) # entries" and lq: "live_entry cs q"
    and c: "c = entry_conn cs q" and fit: "dates_fit cs"
    and cs1: "cs1 = (conn_put c ((conns cs c)\<lparr>storePingTime := lastPingTime (conns cs c)\<rparr>) cs)
       \<lparr>m_timerQueuemap := mm_insert (time32 (lastPingTime (conns cs c))) q entries\<rparr>"
  shows "ping_inv cs1" "\<And>x. live_entry cs1 x = live_entry cs x" "\<And>x. silent env cs1 x = silent env cs x"
    "only_store cs cs1"
proof -
  have "valid_conn cs c" using ping_invD(6) [OF inv e lq] c by simp
  then have t32: "time32 (lastPingTime (conns cs c)) = lastPingTime (conns cs c)"
    using fit unfolding dates_fit_def by (blast intro: time32_id)
  note cs1 = cs1 [unfolded t32]
  have m: "msg_header_of x cs1 = msg_header_of x cs" for x by (simp add: cs1 ping_simps)
  show os: "only_store cs cs1" by (simp add: only_store_def cs1 conn_put_def)
  note f = only_storeD [OF os]
  show l: "live_entry cs1 x = live_entry cs x" for x by (rule entry_cong) (simp_all add: m f)
  have ec: "entry_conn cs1 x = entry_conn cs x" for x by (rule entry_cong) (simp_all add: m f)
  show "silent env cs1 x = silent env cs x" for x by (rule silent_cong) (simp_all add: m f)
  have inj: "inj_on (entry_conn cs) {q \<in> snd ` set (m_timerQueuemap cs). live_entry cs q}"
    using inv by (simp add: ping_inv_def)
  have "entry_ok cs1 x" if "x \<in> set (m_timerQueuemap cs1)" for x
  proof (cases "x = (lastPingTime (conns cs c), q)")
    case True
    then show ?thesis
      using ping_invD(5,6) [OF inv e] lq
      by (auto simp: entry_ok_def m l ec c) (simp_all add: cs1 c sock_simps ping_simps)
  next
    case False
    then have x: "x \<in> set entries" using that by (simp add: cs1 set_mm_insert)
    then have ok: "entry_ok cs x" using inv e by (simp add: ping_inv_def)
    have "entry_conn cs (snd x) \<noteq> c" if "live_entry cs (snd x)"
    proof
      assume "entry_conn cs (snd x) = c"
      then have "snd x = q" by (intro inj_onD [OF inj]) (use x e lq c that in auto)
      then show False using ping_invD(3) [OF inv e] x by auto
    qed
    then show ?thesis using ok
      by (auto simp: entry_ok_def m l ec f) (auto simp: cs1 sock_simps ping_simps)
  qed
  moreover have "snd ` set (m_timerQueuemap cs1) = snd ` set (m_timerQueuemap cs)"
    using e by (simp add: cs1 set_mm_insert)
  then have "inj_on (entry_conn cs1) {q \<in> snd ` set (m_timerQueuemap cs1). live_entry cs1 q}"
    using inj by (simp add: l ec inj_on_def)
  moreover have "sorted (map fst (m_timerQueuemap cs1))" "distinct (map snd (m_timerQueuemap cs1))"
    using ping_invD(1,3,4) [OF inv e] by (simp_all add: cs1 sorted_mm_insert distinct_snd_mm_insert)
  ultimately show "ping_inv cs1" by (simp add: ping_inv_def)
qed

lemma length_filter_mm_insert:
  "length (filter P (mm_insert k v xs)) = length (filter P xs) + (if P (k, v) then 1 else 0)"
  by (induction k v xs rule: mm_insert.induct) auto

lemma length_mm_insert: "length (mm_insert k v xs) = length xs + 1"
  by (induction k v xs rule: mm_insert.induct) auto

text \<open>The loop as a whole.\<close>

definition live_set :: "csocket \<Rightarrow> mem_ptr set" where
  "live_set cs = {q \<in> snd ` set (m_timerQueuemap cs). live_entry cs q}"

definition checked :: "env \<Rightarrow> csocket \<Rightarrow> csocket \<Rightarrow> bool" where
  "checked env cs cs' \<longleftrightarrow>
     ping_inv cs' \<and> live_set cs' = live_set cs \<and> only_store cs cs' \<and>
     (\<forall>e \<in> set (m_timerQueuemap cs'). e_time env - fst e < ping_limit)"

lemma fresh_first_checked:
  assumes inv: "ping_inv cs" and e: "m_timerQueuemap cs = (key, q) # entries" and k: "e_time env - key < ping_limit"
  shows "checked env cs cs" "x \<in> live_set cs \<Longrightarrow> \<not> silent env cs x"
proof -
  have small: "e_time env - fst y < ping_limit" if "y \<in> set (m_timerQueuemap cs)" for y
    using ping_invD(2) [OF inv e] e k that by fastforce
  then show "checked env cs cs" using inv by (simp add: checked_def only_store_refl)
  assume "x \<in> live_set cs"
  then obtain k where k: "(k, x) \<in> set (m_timerQueuemap cs)" "live_entry cs x" by (auto simp: live_set_def)
  then have "entry_ok cs (k, x)" using inv by (simp add: ping_inv_def)
  then show "\<not> silent env cs x" using k small [OF k(1)] by (auto simp: silent_def entry_ok_def)
qed

lemma check_loop_result:
  "ping_inv cs \<Longrightarrow> dates_fit cs \<Longrightarrow> m_PingMutex cs \<Longrightarrow> passes env cs < fuel \<Longrightarrow>
     if \<exists>q \<in> live_set cs. silent env cs q then check_loop fuel env cs = Inl SelfDeadlock
     else \<exists>cs'. check_loop fuel env cs = Inr cs' \<and> checked env cs cs'"
proof (induction fuel arbitrary: cs)
  case (Suc fuel)
  show ?case
  proof (cases "m_timerQueuemap cs")
    case Nil
    then show ?thesis using Suc.prems(1) by (auto simp: live_set_def checked_def only_store_refl)
  next
    case (Cons ent entries)
    then obtain key q where e: "m_timerQueuemap cs = (key, q) # entries" by (cases ent) auto
    note inv = ping_invD [OF Suc.prems(1) e]
    obtain h where h: "msg_header_of q cs = Inr h" using inv(5) by blast
    then have ec: "entry_conn cs q = pConn h" by (simp add: entry_conn_def)
    have lq: "live_entry cs q \<longleftrightarrow> hdr_sequence h = iCurrsequence (conns cs (pConn h))"
      using h by (simp add: live_entry_def)
    let ?t = "conns cs (pConn h)" and ?now = "e_time env"
    consider "\<not> live_entry cs q" | "live_entry cs q" "?now - key < ping_limit"
      | "live_entry cs q" "?now - key \<ge> ping_limit" "silent env cs q"
      | "live_entry cs q" "?now - key \<ge> ping_limit" "\<not> silent env cs q" by linarith
    then show ?thesis
    proof cases
      case 1
      let ?cs = "cs\<lparr>mem := (mem cs)(q := None), m_timerQueuemap := entries\<rparr>"
      note d = ping_inv_drop [OF Suc.prems(1) e 1 refl]
      have "mem cs q \<noteq> None" using h by (auto simp: msg_header_of_def mem_get_def)
      then have step: "check_loop (Suc fuel) env cs = check_loop fuel env ?cs"
        using e h 1 lq by (auto simp: FreeMemory_def)
      have fit: "dates_fit ?cs" using Suc.prems(2) by (simp add: dates_fit_def valid_conn_def)
      have ls: "live_set ?cs = live_set cs"
        using 1 e d(2) by (auto simp: live_set_def)
      have ss: "silent env ?cs x = silent env cs x" if "x \<in> live_set cs" for x
        using that 1 e d(3) by (auto simp: live_set_def)
      have "passes env ?cs < fuel" using Suc.prems(4) e by (auto simp: passes_def split: if_splits)
      from Suc.IH [OF d(1) fit _ this] Suc.prems(3) ss show ?thesis
        unfolding step by (auto simp: ls checked_def intro: only_store_trans [OF d(4)] split: if_splits)
    next
      case 2
      have "?now - lastPingTime ?t \<le> ping_limit" using 2 inv(6) ec by auto
      then have step: "check_loop (Suc fuel) env cs = Inr cs" using e h 2 lq by simp
      then show ?thesis using step fresh_first_checked [OF Suc.prems(1) e 2(2)] by auto
    next
      case 3
      then have "?now - lastPingTime ?t \<ge> ping_limit" by (simp add: silent_def ec)
      moreover have "ngx_free_con_self env (pConn h) cs = Inl SelfDeadlock"
        using kick_deadlocks [OF _ Suc.prems(3)] inv(6) 3(1) ec by simp
      ultimately have "check_loop (Suc fuel) env cs = Inl SelfDeadlock" using e h 3 lq by simp
      moreover have "q \<in> live_set cs" using 3 e by (simp add: live_set_def)
      ultimately show ?thesis using 3 by auto
    next
      case 4
      let ?cs = "(conn_put (pConn h) (?t\<lparr>storePingTime := lastPingTime ?t\<rparr>) cs)
        \<lparr>m_timerQueuemap := mm_insert (time32 (lastPingTime ?t)) q entries\<rparr>"
      note d = ping_inv_requeue [OF Suc.prems(1) e 4(1) ec [symmetric] Suc.prems(2) refl]
      have "valid_conn cs (pConn h)" using inv(6) 4(1) ec by simp
      then have t32: "time32 (lastPingTime ?t) = lastPingTime ?t"
        using Suc.prems(2) unfolding dates_fit_def by (blast intro: time32_id)
      have fit: "dates_fit ?cs" using Suc.prems(2) by (rule dates_fit_kept [OF _ _ d(4)]) (simp add: valid_conn_def conn_put_def)
      have fresh: "?now - lastPingTime ?t < ping_limit" using 4 by (simp add: silent_def ec)
      then have step: "check_loop (Suc fuel) env cs = check_loop fuel env ?cs"
        using e h 4 lq inv(6) ec by (auto simp: sock_simps Let_def)
      have ls: "live_set ?cs = live_set cs" using e d(2) by (auto simp: live_set_def set_mm_insert)
      have "passes env ?cs < fuel"
        using Suc.prems(4) e 4(2) fresh by (auto simp: passes_def t32 length_filter_mm_insert length_mm_insert)
      from Suc.IH [OF d(1) fit _ this] Suc.prems(3) show ?thesis
        unfolding step by (auto simp: ls d(3) checked_def sock_simps intro: only_store_trans [OF d(4)] split: if_splits)
    qed
  qed
qed simp

text \<open>None of this depends on who holds the mutex.\<close>

lemma mutex_irrelevant [ping_simps]:
  "live_entry (cs\<lparr>m_PingMutex := b\<rparr>) = live_entry cs"
  "entry_conn (cs\<lparr>m_PingMutex := b\<rparr>) = entry_conn cs"
  "entry_ok (cs\<lparr>m_PingMutex := b\<rparr>) = entry_ok cs"
  "silent env (cs\<lparr>m_PingMutex := b\<rparr>) = silent env cs"
  by (simp_all add: fun_eq_iff live_entry_def entry_conn_def entry_ok_def silent_def msg_header_updates valid_conn_updates)

lemma mutex_irrelevant_inv [ping_simps]:
  "ping_inv (cs\<lparr>m_PingMutex := b\<rparr>) = ping_inv cs"
  "live_set (cs\<lparr>m_PingMutex := b\<rparr>) = live_set cs"
  "only_store (cs\<lparr>m_PingMutex := b\<rparr>) cs' = only_store cs cs'"
  "only_store cs (cs'\<lparr>m_PingMutex := b\<rparr>) = only_store cs cs'"
  by (simp_all add: ping_inv_def live_set_def only_store_def mutex_irrelevant)

section \<open>Properties\<close>

text \<open>
  C10. What a round of the heartbeat check does, as long as the times of the last pings fit into 32 bits. From a
  well formed queue whose mutex is free the round ends in one of two ways. If no live connection has been silent for 70 seconds, it ends, with the
  mutex free, exactly the live connections still in the queue, each under its current \<^verbatim>\<open>storePingTime\<close>,
  the queue ordered and no entry in it overdue, and nothing but \<^verbatim>\<open>storePingTime\<close> of the connections
  changed. If there is a silent one, the task locks itself out: kicking it locks \<^verbatim>\<open>m_PingMutex\<close>, which
  the task already holds.
\<close>

theorem heartbeat_round:
  assumes "ping_inv cs" "\<not> m_PingMutex cs" "\<not> m_shutdown cs" "m_timerQueuemap cs \<noteq> []" "dates_fit cs"
  shows "if \<exists>q \<in> live_set cs. silent env cs q then ngx_time_check_round env cs = Inl SelfDeadlock
     else \<exists>cs'. ngx_time_check_round env cs = Inr (True, cs') \<and> checked env cs cs' \<and> \<not> m_PingMutex cs'"
proof -
  obtain key q entries where e: "m_timerQueuemap cs = (key, q) # entries" using assms(4) by (metis list.exhaust surj_pair)
  show ?thesis
  proof (cases "e_time env - key < ping_limit")
    case True
    then show ?thesis
      using fresh_first_checked [OF assms(1) e True] assms(2,3) e by (auto simp: ngx_time_check_round_def)
  next
    case False
    let ?cs = "cs\<lparr>m_PingMutex := True\<rparr>"
    have "passes env ?cs < 2 * length (m_timerQueuemap cs) + 1"
      using length_filter_le [of _ "m_timerQueuemap cs"] by (simp add: passes_def mult_2 le_imp_less_Suc)
    note r = check_loop_result [OF _ _ _ this]
    have fit: "dates_fit ?cs" using assms(5) by (simp add: dates_fit_def ping_simps)
    have bk: "checked env cs (cs'\<lparr>m_PingMutex := False\<rparr>)" if "checked env ?cs cs'" for cs'
      using that by (simp add: checked_def ping_simps)
    show ?thesis
      using r False assms(1-3) e bk fit by (auto simp: ngx_time_check_round_def ping_simps split: if_splits)
  qed
qed

text \<open>One connection, entered at time 100, that has sent a ping at time 150.\<close>

definition sample_watched :: csocket where
  "sample_watched =
     sample_socket\<lparr>m_pconnections := [2],
       conns := (\<lambda>_. zero_connection)((0, 0) :=
         zero_connection\<lparr>fd := 9, iCurrsequence := 1, lastPingTime := 150, storePingTime := 100\<rparr>),
       mem := [2 \<mapsto> \<lparr>mb_header = Some \<lparr>pConn = (0, 0), hdr_sequence = 1\<rparr>, mb_bytes = []\<rparr>],
       mem_next := 3, m_timerQueuemap := [(100, 2)]\<rparr>"

lemma sample_watched_entry:
  "msg_header_of 2 sample_watched = Inr \<lparr>pConn = (0, 0), hdr_sequence = 1\<rparr>"
  "live_entry sample_watched 2" "entry_conn sample_watched 2 = (0, 0)"
proof -
  show h: "msg_header_of 2 sample_watched = Inr \<lparr>pConn = (0, 0), hdr_sequence = 1\<rparr>"
    by (simp add: msg_header_of_def mem_get_def sample_watched_def)
  show "live_entry sample_watched 2" "entry_conn sample_watched 2 = (0, 0)"
    using h by (simp_all add: live_entry_def entry_conn_def) (simp add: sample_watched_def)
qed

theorem heartbeat_round_witness:
  "ping_inv sample_watched \<and>
   (\<exists>cs'. ngx_time_check_round \<lparr>e_steady = 0, e_tod = 0, e_time = 180, e_epoll_ok = True\<rparr> sample_watched = Inr (True, cs') \<and>
      live_set cs' = {2} \<and> \<not> m_PingMutex cs')"
proof -
  let ?env = "\<lparr>e_steady = 0, e_tod = 0, e_time = 180, e_epoll_ok = True\<rparr>"
  have q: "m_timerQueuemap sample_watched = [(100, 2)]" "lastPingTime (conns sample_watched (0, 0)) = 150"
    "storePingTime (conns sample_watched (0, 0)) = 100" "valid_conn sample_watched (0, 0)"
    "\<not> m_PingMutex sample_watched" "\<not> m_shutdown sample_watched"
    by (simp_all add: sample_watched_def valid_conn_def sample_socket_def)
  have inv: "ping_inv sample_watched"
    using sample_watched_entry q by (simp add: ping_inv_def entry_ok_def inj_on_def)
  have ls: "live_set sample_watched = {2}" using sample_watched_entry q by (auto simp: live_set_def)
  have fit: "dates_fit sample_watched" by (auto simp: dates_fit_def sample_watched_def zero_connection_def)
  have "\<not> silent ?env sample_watched 2"
    using sample_watched_entry q by (simp add: silent_def ping_limit_def WAITTIME_def)
  then have "\<not> (\<exists>q \<in> live_set sample_watched. silent ?env sample_watched q)" using ls by simp
  then show ?thesis
    using heartbeat_round [OF inv q(5,6) _ fit, of ?env] inv ls q(1) by (auto simp: checked_def)
qed

text \<open>
  After January 2038. The first entry is of a live connection that is due and has sent a ping since, at a time of at
  least \<open>2 ^ 31\<close> seconds: it is entered anew under a negative time, so it is first and due again, and the loop never
  ends, while the task holds \<^verbatim>\<open>m_PingMutex\<close>.
\<close>

theorem refreshed_past_2038:
  assumes "m_timerQueuemap cs = (k, q) # entries" "\<forall>e \<in> set entries. 0 \<le> fst e"
    and "msg_header_of q cs = Inr h" "hdr_sequence h = iCurrsequence (conns cs (pConn h))" "valid_conn cs (pConn h)"
    and "t = lastPingTime (conns cs (pConn h))" "2 ^ 31 \<le> t" "t < 2 ^ 32" "k \<noteq> t" "e_time env - k \<ge> ping_limit"
    and "0 \<le> e_time env - t" "e_time env - t < ping_limit"
  shows "check_loop fuel env cs = Inl Blocked"
  using assms
proof (induction fuel arbitrary: cs k)
  case (Suc fuel)
  let ?c = "pConn h"
  let ?cs = "conn_put ?c ((conns cs ?c)\<lparr>storePingTime := lastPingTime (conns cs ?c)\<rparr>) cs"
  have w: "time32 t = t - 2 ^ 32" using Suc.prems by (intro time32_wraps)
  have f: "mm_insert (time32 t) q entries = (time32 t, q) # entries"
    using Suc.prems(2,8) w by (cases entries) auto
  have "check_loop fuel env (?cs\<lparr>m_timerQueuemap := (time32 t, q) # entries\<rparr>) = Inl Blocked"
    by (rule Suc.IH [of _ "time32 t"]) (use Suc.prems w in \<open>simp_all add: ping_simps sock_simps ping_limit_def WAITTIME_def\<close>)
  then show ?case
    using Suc.prems f by (simp add: sock_simps Let_def)
qed simp

text \<open>
  A new connection comes under the check: \<^verbatim>\<open>ngx_add_check\<close> keeps the queue well formed, adds exactly one
  live entry, of the new connection, and keeps the others.
\<close>

theorem add_check_watches:
  assumes inv: "ping_inv cs" and v: "valid_conn cs c" and n: "mem cs (mem_next cs) = None" "\<not> m_PingMutex cs"
    and new: "\<forall>q \<in> live_set cs. entry_conn cs q \<noteq> c"
  shows "\<exists>cs' q. ngx_add_check env c cs = Inr cs' \<and> ping_inv cs' \<and> live_set cs' = insert q (live_set cs) \<and>
     q \<notin> live_set cs \<and> entry_conn cs' q = c \<and> (e_time env, q) \<in> set (m_timerQueuemap cs')"
proof -
  let ?q = "mem_next cs"
  let ?t = "(conns cs c)\<lparr>lastPingTime := e_time env, storePingTime := e_time env\<rparr>"
  let ?b = "\<lparr>mb_header = Some \<lparr>pConn = c, hdr_sequence = iCurrsequence (conns cs c)\<rparr>, mb_bytes = []\<rparr>"
  define cs' where "cs' = cs\<lparr>mem_next := mem_next cs + 1, conns := (conns cs)(c := ?t), mem := (mem cs)(?q \<mapsto> ?b),
     m_timerQueuemap := mm_insert (e_time env) ?q (m_timerQueuemap cs)\<rparr>"
  have "ngx_add_check env c cs = Inr cs'"
    using v n by (cases cs) (simp add: ngx_add_check_def AllocMemory_def conn_upd_def conn_put_def mem_put_def cs'_def
        valid_conn_def Let_def)
  moreover have hq: "msg_header_of ?q cs' = Inr \<lparr>pConn = c, hdr_sequence = iCurrsequence (conns cs c)\<rparr>"
    by (simp add: msg_header_of_def mem_get_def cs'_def)
  have old: "q \<noteq> ?q" if "q \<in> snd ` set (m_timerQueuemap cs)" for q
  proof
    assume "q = ?q"
    moreover have "\<exists>h. msg_header_of q cs = Inr h" using inv that by (auto simp: ping_inv_def entry_ok_def)
    ultimately show False using n by (auto simp: msg_header_of_def mem_get_def)
  qed
  have m: "msg_header_of q cs' = msg_header_of q cs" if "q \<in> snd ` set (m_timerQueuemap cs)" for q
    using old [OF that] by (simp add: msg_header_of_def mem_get_def cs'_def)
  have s: "iCurrsequence (conns cs' p) = iCurrsequence (conns cs p)" for p by (simp add: cs'_def)
  note ent = entry_cong [OF m s]
  have lq: "live_entry cs' ?q" "entry_conn cs' ?q = c" using hq by (auto simp: live_entry_def entry_conn_def s)
  have ls: "live_set cs' = insert ?q (live_set cs)" "?q \<notin> live_set cs"
    using lq ent old by (auto simp: live_set_def cs'_def set_mm_insert)
  have "entry_ok cs' x" if "x \<in> set (m_timerQueuemap cs)" for x
  proof -
    have x: "snd x \<in> snd ` set (m_timerQueuemap cs)" "entry_ok cs x" using that inv by (auto simp: ping_inv_def)
    have "live_entry cs (snd x) \<Longrightarrow> entry_conn cs (snd x) \<noteq> c" using new x by (auto simp: live_set_def)
    then show ?thesis using x(2) unfolding entry_ok_def m [OF x(1)] ent [OF x(1)] by (auto simp: cs'_def valid_conn_def)
  qed
  moreover have "entry_ok cs' (e_time env, ?q)"
    using hq lq v by (simp add: entry_ok_def) (simp add: cs'_def valid_conn_def)
  ultimately have "\<forall>x \<in> set (m_timerQueuemap cs'). entry_ok cs' x" by (simp add: cs'_def set_mm_insert)
  moreover have "inj_on (entry_conn cs') (live_set cs')"
  proof -
    have "inj_on (entry_conn cs') (live_set cs)"
      using inv ent by (simp add: ping_inv_def live_set_def inj_on_def)
    moreover have "entry_conn cs' ?q \<notin> entry_conn cs' ` live_set cs"
      using new lq(2) ent by (auto simp: live_set_def)
    ultimately show ?thesis using ls by simp
  qed
  moreover have "sorted (map fst (m_timerQueuemap cs'))" "distinct (map snd (m_timerQueuemap cs'))"
    using inv old by (auto simp: cs'_def ping_inv_def sorted_mm_insert distinct_snd_mm_insert)
  ultimately have "ping_inv cs'" by (simp add: ping_inv_def live_set_def)
  moreover have "(e_time env, ?q) \<in> set (m_timerQueuemap cs')" by (simp add: cs'_def set_mm_insert)
  ultimately show ?thesis using \<open>ngx_add_check env c cs = Inr cs'\<close> ls lq(2) by blast
qed

theorem add_check_watches_witness:
  "\<exists>cs' q. ngx_add_check \<lparr>e_steady = 0, e_tod = 0, e_time = 180, e_epoll_ok = True\<rparr> (0, 1) sample_watched = Inr cs' \<and>
     ping_inv cs' \<and> live_set cs' = {2, q} \<and> entry_conn cs' q = (0, 1)"
proof -
  have q: "m_timerQueuemap sample_watched = [(100, 2)]" "lastPingTime (conns sample_watched (0, 0)) = 150"
    "storePingTime (conns sample_watched (0, 0)) = 100" "valid_conn sample_watched (0, 0)"
    "valid_conn sample_watched (0, 1)" "mem sample_watched (mem_next sample_watched) = None" "\<not> m_PingMutex sample_watched"
    by (simp_all add: sample_watched_def valid_conn_def sample_socket_def)
  have inv: "ping_inv sample_watched"
    using sample_watched_entry q by (simp add: ping_inv_def entry_ok_def inj_on_def)
  have ls: "live_set sample_watched = {2}" using sample_watched_entry q by (auto simp: live_set_def)
  then have n: "\<forall>q \<in> live_set sample_watched. entry_conn sample_watched q \<noteq> (0, 1)" using sample_watched_entry by simp
  obtain cs' q where "ngx_add_check \<lparr>e_steady = 0, e_tod = 0, e_time = 180, e_epoll_ok = True\<rparr> (0, 1) sample_watched = Inr cs'"
    "ping_inv cs'" "live_set cs' = insert q (live_set sample_watched)" "entry_conn cs' q = (0, 1)"
    using add_check_watches [OF inv q(5-7) n, of "\<lparr>e_steady = 0, e_tod = 0, e_time = 180, e_epoll_ok = True\<rparr>"] by blast
  then show ?thesis using ls by (auto simp: insert_commute)
qed

text \<open>
  C38. Leaving the check removes the wrong entry when connections were accepted in the same second: the
  handlers erase the first entry with the leaving connection's \<^verbatim>\<open>storePingTime\<close>. If connection \<open>c1\<close> stands in
  front of \<open>c2\<close> under the same time, then when \<open>c2\<close> hangs up the entry of \<open>c1\<close> is the one removed, so
  that \<open>c1\<close> is not checked any more, and the entry of \<open>c2\<close> stays.
\<close>

theorem hangup_erases_wrong_entry:
  assumes "m_timerQueuemap cs = pre @ (k, q1) # mid @ (k, q2) # post" "k \<notin> fst ` set pre"
    and "distinct (map snd (m_timerQueuemap cs))" "storePingTime (conns cs c2) = k" "\<not> m_PingMutex cs"
  shows "\<exists>cs'. ngx_evhup_handler env c2 cs = Inr cs' \<and> q1 \<notin> snd ` set (m_timerQueuemap cs') \<and>
     q2 \<in> snd ` set (m_timerQueuemap cs')"
proof -
  have "mm_erase_find k (pre @ (k, q1) # mid @ (k, q2) # post) = Inr (pre @ mid @ (k, q2) # post)"
    by (rule mm_erase_find_append [OF assms(2)])
  then show ?thesis
    using assms
    by (auto simp: ngx_evhup_handler_def ngx_epoll_del_event_def add_free_timer_def ping_erase_def Let_def)
qed

definition sample_same_second :: csocket where
  "sample_same_second =
     sample_socket\<lparr>m_pconnections := [2],
       conns := (\<lambda>_. zero_connection\<lparr>lastPingTime := 100, storePingTime := 100\<rparr>),
       m_timerQueuemap := [(100, 2), (100, 3)]\<rparr>"

theorem hangup_erases_wrong_entry_witness:
  "\<exists>cs'. ngx_evhup_handler \<lparr>e_steady = 0, e_tod = 0, e_time = 180, e_epoll_ok = True\<rparr> (0, 1) sample_same_second = Inr cs' \<and>
     2 \<notin> snd ` set (m_timerQueuemap cs') \<and> 3 \<in> snd ` set (m_timerQueuemap cs')"
proof -
  have h: "m_timerQueuemap sample_same_second = [] @ (100, 2) # [] @ (100, 3) # []" "100 \<notin> fst ` set ([] :: (int \<times> nat) list)"
    "distinct (map snd (m_timerQueuemap sample_same_second))" "storePingTime (conns sample_same_second (0, 1)) = 100"
    "\<not> m_PingMutex sample_same_second"
    by (simp_all add: sample_same_second_def sample_socket_def)
  show ?thesis by (rule hangup_erases_wrong_entry [OF h])
qed

end
