(* ===== verification/Recv.thy ===== *)
theory Recv
  imports SLogic
begin

text \<open>
  Receiving (\<^verbatim>\<open>net/ngx_c_socket_request.cpp\<close>): \<^verbatim>\<open>recvproc\<close> with its error handling, the four-state machine that
  cuts the byte stream of a connection into messages of an 8 byte header and a body, in its level
  triggered form (\<^verbatim>\<open>ngx_read_request_handler\<close>, one read per event in the event loop's thread) and in its
  edge triggered form (\<^verbatim>\<open>recvproc_ET\<close>, a task of the pool that reads until a message is complete). The
  answer of the virtual \<^verbatim>\<open>ReadFunc\<close> is an argument; it never delivers more than \<^verbatim>\<open>irecvlen\<close> bytes.
\<close>

section \<open>Reading\<close>

datatype read_ret = R_data "u8 list" | R_closed | R_fail errno

text \<open>
  \<^verbatim>\<open>ReadFunc(c->fd, c->precvbuf, c->irecvlen, 0)\<close> stores the bytes it delivers where \<^verbatim>\<open>precvbuf\<close> points. Into a
  block in front of the package bytes it would overwrite the message header.
\<close>

definition recv_store :: "conn_ptr \<Rightarrow> u8 list \<Rightarrow> csocket \<Rightarrow> csocket res" where
  "recv_store c bs cs =
     (case precvbuf (conns cs c) of
        RNull \<Rightarrow> Inl NullDeref
      | RHead off \<Rightarrow>
          res_bind (poke off bs (dataHeadInfo (conns cs c))) (\<lambda>d. conn_upd c (\<lambda>t. t\<lparr>dataHeadInfo := d\<rparr>) cs)
      | RMem q off \<Rightarrow>
          res_bind (mem_get q cs) (\<lambda>b.
          let k = MSGHEADERLEN - off in
          res_bind (poke (off - MSGHEADERLEN) (map Some (drop k bs)) (mb_bytes b)) (\<lambda>d.
          Inr (mem_put q \<lparr>mb_header = (if k = 0 \<or> bs = [] then mb_header b else None), mb_bytes = d\<rparr> cs))))"

text \<open>\<^verbatim>\<open>recvproc\<close>: the number of bytes received, 0 or -1, with the connection taken care of.\<close>

definition recvproc :: "env \<Rightarrow> conn_ptr \<Rightarrow> read_ret \<Rightarrow> csocket \<Rightarrow> (int \<times> csocket) res" where
  "recvproc env c r cs =
     (case r of
        R_data bs \<Rightarrow> res_bind (recv_store c bs cs) (\<lambda>cs. Inr (int (length bs), cs))
      | R_closed \<Rightarrow>
          (let cs = snd (ngx_epoll_del_event env c cs);
               cs = add_free_timer env 10000 c (cs\<lparr>m_onlineUserCount := m_onlineUserCount cs - 1\<rparr>)
           in res_bind (ping_erase (storePingTime (conns cs c)) cs) (\<lambda>cs. Inr (0, cs)))
      | R_fail e \<Rightarrow>
          (if e = EAGAIN \<or> e = EINTR then Inr (- 1, cs)
           else if e = ECONNRESET then
             (let cs = snd (ngx_epoll_del_event env c cs);
                  cs = add_free_timer env 10000 c cs
              in res_bind (ping_erase (lastPingTime (conns cs c)) cs) (\<lambda>cs. Inr (0, cs)))
           else res_bind (ngx_close_connection c (snd (ngx_epoll_del_event env c cs))) (\<lambda>cs. Inr (- 1, cs))))"

text \<open>\<^verbatim>\<open>precvbuf += ret\<close>, and the reset to the start of a header.\<close>

fun recv_advance :: "nat \<Rightarrow> recv_ptr \<Rightarrow> recv_ptr" where
  "recv_advance n RNull = RNull"
| "recv_advance n (RHead off) = RHead (off + n)"
| "recv_advance n (RMem q off) = RMem q (off + n)"

definition recv_reset :: "ngx_connection \<Rightarrow> ngx_connection" where
  "recv_reset t = t\<lparr>curStat := PKG_HD_INIT, irecvlen := of_nat PKGHEADERLEN, precvbuf := RHead 0\<rparr>"

definition head_pkgLen :: "ngx_connection \<Rightarrow> u16" where
  "head_pkgLen t = un_le16 (dataHeadInfo t ! 0) (dataHeadInfo t ! 1)"

text \<open>
  The part of \<^verbatim>\<open>ngx_wait_request_handler_proc_p1\<close> behind the length checks up to the copy of the package
  header: it allocates the message block and fills in its header.
\<close>

definition p1_alloc :: "conn_ptr \<Rightarrow> u16 \<Rightarrow> csocket \<Rightarrow> (mem_ptr \<times> csocket) res" where
  "p1_alloc c e_pkgLen cs =
     (let (q, cs) = AllocMemory (MSGHEADERLEN + unat e_pkgLen) cs in
      res_bind (conn_upd c (\<lambda>t. t\<lparr>precvbuf := RMem q 0, precvMemPointer := Some q\<rparr>) cs) (\<lambda>cs.
      res_bind (mem_get q cs) (\<lambda>b.
      res_bind (poke 0 (map Some (take PKGHEADERLEN (dataHeadInfo (conns cs c)))) (mb_bytes b)) (\<lambda>d.
      Inr (q, mem_put q \<lparr>mb_header = Some \<lparr>pConn = c, hdr_sequence = iCurrsequence (conns cs c)\<rparr>,
                         mb_bytes = d\<rparr> cs)))))"

definition p1_body :: "mem_ptr \<Rightarrow> u16 \<Rightarrow> ngx_connection \<Rightarrow> ngx_connection" where
  "p1_body q e_pkgLen t =
     t\<lparr>curStat := PKG_BD_INIT, precvbuf := RMem q (MSGHEADERLEN + PKGHEADERLEN),
       irecvlen := of_nat (unat e_pkgLen - PKGHEADERLEN)\<rparr>"

section \<open>Level triggered mode\<close>

definition ngx_wait_request_handler_proc_plast :: "conn_ptr \<Rightarrow> csocket \<Rightarrow> csocket res" where
  "ngx_wait_request_handler_proc_plast c cs =
     conn_upd c (\<lambda>t. recv_reset (t\<lparr>precvMemPointer := None\<rparr>))
       (cs\<lparr>tasks := tasks cs @ [T_threadRecvProcFunc (logicObj (conns cs c)) (precvMemPointer (conns cs c))]\<rparr>)"

definition ngx_wait_request_handler_proc_p1 :: "env \<Rightarrow> conn_ptr \<Rightarrow> csocket \<Rightarrow> (bool \<times> csocket) res" where
  "ngx_wait_request_handler_proc_p1 env c cs =
     (let e_pkgLen = head_pkgLen (conns cs c) in
      if unat e_pkgLen > PKG_MAX_LENGTH - 1000 \<or> unat e_pkgLen < PKGHEADERLEN
      then res_bind (conn_upd c recv_reset cs) (\<lambda>cs. Inr (False, cs))
      else
        res_bind (p1_alloc c e_pkgLen cs) (\<lambda>(q, cs).
        if unat e_pkgLen = PKGHEADERLEN then
          res_bind (TestFlood env c cs) (\<lambda>(floodflag, cs).
            if floodflag then Inr (True, cs)
            else res_bind (ngx_wait_request_handler_proc_plast c cs) (\<lambda>cs. Inr (False, cs)))
        else res_bind (conn_upd c (p1_body q e_pkgLen) cs) (\<lambda>cs. Inr (False, cs))))"

text \<open>\<^verbatim>\<open>ngx_read_request_handler\<close>. In the state \<^verbatim>\<open>_PKG_BD_RECVING\<close> the source has \<^verbatim>\<open>irecvlen = ret\<close>.\<close>

definition more_header :: "nat \<Rightarrow> ngx_connection \<Rightarrow> ngx_connection" where
  "more_header n t =
     t\<lparr>curStat := PKG_HD_RECVING, precvbuf := recv_advance n (precvbuf t), irecvlen := irecvlen t - of_nat n\<rparr>"

definition more_body :: "nat \<Rightarrow> ngx_connection \<Rightarrow> ngx_connection" where
  "more_body n t =
     t\<lparr>curStat := PKG_BD_RECVING, precvbuf := recv_advance n (precvbuf t),
       irecvlen := (if curStat t = PKG_BD_INIT then irecvlen t - of_nat n else of_nat n)\<rparr>"

definition kick_if :: "env \<Rightarrow> conn_ptr \<Rightarrow> bool \<times> csocket \<Rightarrow> csocket res" where
  "kick_if env c r = (if fst r then ngx_free_con_self env c (snd r) else Inr (snd r))"

definition ngx_read_request_handler :: "env \<Rightarrow> conn_ptr \<Rightarrow> read_ret \<Rightarrow> csocket \<Rightarrow> csocket res" where
  "ngx_read_request_handler env c r cs =
     res_bind (recvproc env c r cs) (\<lambda>(ret, cs).
       if ret < 0 then Inr cs
       else if ret = 0 then Inr cs
       else
         let n = nat ret; t = conns cs c in
         (case curStat t of
            PKG_HD_INIT \<Rightarrow>
              (if ret = int PKGHEADERLEN
               then res_bind (ngx_wait_request_handler_proc_p1 env c cs) (kick_if env c)
               else conn_upd c (more_header n) cs)
          | PKG_HD_RECVING \<Rightarrow>
              (if uint (irecvlen t) = ret
               then res_bind (ngx_wait_request_handler_proc_p1 env c cs) (kick_if env c)
               else conn_upd c (more_header n) cs)
          | PKG_BD_INIT \<Rightarrow>
              res_bind (TestFlood env c cs) (\<lambda>(floodflag, cs).
                if floodflag then ngx_free_con_self env c cs
                else if uint (irecvlen (conns cs c)) = ret then ngx_wait_request_handler_proc_plast c cs
                else conn_upd c (more_body n) cs)
          | PKG_BD_RECVING \<Rightarrow>
              (if uint (irecvlen t) = ret then ngx_wait_request_handler_proc_plast c cs
               else conn_upd c (more_body n) cs)))"

text \<open>A sequence of read events of one connection.\<close>

fun read_events :: "env \<Rightarrow> conn_ptr \<Rightarrow> read_ret list \<Rightarrow> csocket \<Rightarrow> csocket res" where
  "read_events env c [] cs = Inr cs"
| "read_events env c (r # rs) cs = res_bind (ngx_read_request_handler env c r cs) (read_events env c rs)"

section \<open>Edge triggered mode\<close>

definition ngx_read_request_handler_ET :: "conn_ptr \<Rightarrow> csocket \<Rightarrow> csocket" where
  "ngx_read_request_handler_ET c cs = cs\<lparr>tasks := tasks cs @ [T_recvproc_ET c]\<rparr>"

definition ngx_wait_request_handler_proc_plast_ET ::
  "business_fun \<Rightarrow> env \<Rightarrow> write_ret list \<Rightarrow> conn_ptr \<Rightarrow> csocket \<Rightarrow> csocket res" where
  "ngx_wait_request_handler_proc_plast_ET business env ws c cs =
     res_bind (threadRecvProcFunc business env ws (logicObj (conns cs c)) (precvMemPointer (conns cs c)) cs)
       (conn_upd c (\<lambda>t. recv_reset (t\<lparr>precvMemPointer := None\<rparr>)))"

text \<open>The results are the flags \<^verbatim>\<open>readflag\<close> and \<^verbatim>\<open>floodflag\<close>.\<close>

definition ngx_wait_request_handler_proc_p1_ET ::
  "business_fun \<Rightarrow> env \<Rightarrow> write_ret list \<Rightarrow> conn_ptr \<Rightarrow> csocket \<Rightarrow> (bool \<times> bool \<times> csocket) res" where
  "ngx_wait_request_handler_proc_p1_ET business env ws c cs =
     (let e_pkgLen = head_pkgLen (conns cs c) in
      if unat e_pkgLen > PKG_MAX_LENGTH - 1000 \<or> unat e_pkgLen < PKGHEADERLEN
      then res_bind (conn_upd c recv_reset cs) (\<lambda>cs. Inr (False, False, cs))
      else
        res_bind (p1_alloc c e_pkgLen cs) (\<lambda>(q, cs).
        if unat e_pkgLen = PKGHEADERLEN then
          res_bind (TestFlood env c cs) (\<lambda>(floodflag, cs).
            if floodflag then Inr (False, True, cs)
            else res_bind (ngx_wait_request_handler_proc_plast_ET business env ws c cs)
                   (\<lambda>cs. Inr (True, False, cs)))
        else res_bind (conn_upd c (p1_body q e_pkgLen) cs) (\<lambda>cs. Inr (False, False, cs))))"

text \<open>The loop of \<^verbatim>\<open>recvproc_ET\<close>; the last argument list are the answers of the reads, the result the flag of the flood test.\<close>

fun recvproc_ET_loop ::
  "business_fun \<Rightarrow> env \<Rightarrow> write_ret list \<Rightarrow> conn_ptr \<Rightarrow> read_ret list \<Rightarrow> csocket \<Rightarrow> (bool \<times> csocket) res" where
  "recvproc_ET_loop business env ws c [] cs = Inl Blocked"
| "recvproc_ET_loop business env ws c (r # rs) cs =
     res_bind (recvproc env c r cs) (\<lambda>(ret, cs).
       if ret < 0 then res_bind (unlock_conn c cs) (\<lambda>cs. Inr (False, cs))
       else if ret = 0 then res_bind (unlock_conn c cs) (\<lambda>cs. Inr (False, cs))
       else
         let n = nat ret; t = conns cs c;
             p1 = res_bind (ngx_wait_request_handler_proc_p1_ET business env ws c cs) (\<lambda>(flag, floodflag, cs).
                    if \<not> flag \<and> \<not> floodflag then recvproc_ET_loop business env ws c rs cs
                    else Inr (floodflag, cs));
             plast = (\<lambda>cs. res_bind (ngx_wait_request_handler_proc_plast_ET business env ws c cs)
                            (\<lambda>cs. Inr (False, cs))) in
         (case curStat t of
            PKG_HD_INIT \<Rightarrow>
              (if ret = int PKGHEADERLEN then p1
               else res_bind (conn_upd c (more_header n) cs) (recvproc_ET_loop business env ws c rs))
          | PKG_HD_RECVING \<Rightarrow>
              (if uint (irecvlen t) = ret then p1
               else res_bind (conn_upd c (more_header n) cs) (recvproc_ET_loop business env ws c rs))
          | PKG_BD_INIT \<Rightarrow>
              res_bind (TestFlood env c cs) (\<lambda>(floodflag, cs).
                if floodflag then Inr (True, cs)
                else if uint (irecvlen (conns cs c)) = ret then plast cs
                else res_bind (conn_upd c (more_body n) cs) (recvproc_ET_loop business env ws c rs))
          | PKG_BD_RECVING \<Rightarrow>
              (if uint (irecvlen t) = ret then plast cs
               else res_bind (conn_upd c (more_body n) cs) (recvproc_ET_loop business env ws c rs))))"

definition recvproc_ET ::
  "business_fun \<Rightarrow> env \<Rightarrow> write_ret list \<Rightarrow> conn_ptr \<Rightarrow> read_ret list \<Rightarrow> csocket \<Rightarrow> csocket res" where
  "recvproc_ET business env ws c rs cs =
     res_bind (lock_conn c cs) (\<lambda>cs.
     res_bind (recvproc_ET_loop business env ws c rs cs) (\<lambda>(floodflag, cs).
       if floodflag then res_bind (ngx_free_con_self env c cs) (unlock_conn c) else Inr cs))"

section \<open>The state between two reads\<close>

text \<open>
  The connection has received \<open>got\<close>, a proper part of a header. Everything else of the connection is
  what it was: \<open>erase_recv\<close> blanks the fields the receiving machine uses.
\<close>

definition hdr_inv :: "csocket \<Rightarrow> conn_ptr \<Rightarrow> u8 list \<Rightarrow> bool" where
  "hdr_inv cs c got \<longleftrightarrow>
     valid_conn cs c \<and> length (dataHeadInfo (conns cs c)) = DATA_BUFSIZE \<and> length got < PKGHEADERLEN \<and>
     curStat (conns cs c) = (if got = [] then PKG_HD_INIT else PKG_HD_RECVING) \<and>
     precvbuf (conns cs c) = RHead (length got) \<and>
     irecvlen (conns cs c) = of_nat (PKGHEADERLEN - length got) \<and>
     take (length got) (dataHeadInfo (conns cs c)) = got"

definition erase_recv :: "ngx_connection \<Rightarrow> ngx_connection" where
  "erase_recv t = t\<lparr>curStat := PKG_HD_INIT, dataHeadInfo := [], precvbuf := RNull, irecvlen := 0\<rparr>"

lemma erase_recv_eqD:
  assumes "erase_recv t' = erase_recv t"
  shows "iCurrsequence t' = iCurrsequence t" "logicObj t' = logicObj t" "FloodAttackCount t' = FloodAttackCount t"
    "FloodkickLastTime t' = FloodkickLastTime t" "logicPorcMutex t' = logicPorcMutex t"
    "precvMemPointer t' = precvMemPointer t"
  using assms by (cases t; cases t'; simp add: erase_recv_def)+

text \<open>
  The connection is receiving the body, of \<open>n\<close> bytes, of the message with header \<open>hdr\<close> into block \<open>q\<close>; it has
  \<open>got\<close> and is going to ask for \<open>k\<close> bytes.
\<close>

definition body_inv :: "csocket \<Rightarrow> conn_ptr \<Rightarrow> mem_ptr \<Rightarrow> msg_header \<Rightarrow> u8 list \<Rightarrow> nat \<Rightarrow> u8 list \<Rightarrow> nat \<Rightarrow> bool" where
  "body_inv cs c q h hdr n got k \<longleftrightarrow>
     valid_conn cs c \<and> length (dataHeadInfo (conns cs c)) = DATA_BUFSIZE \<and> length hdr = PKGHEADERLEN \<and>
     length got \<le> n \<and> n < 2 ^ 16 \<and> 0 < k \<and> k \<le> n \<and>
     curStat (conns cs c) = (if got = [] then PKG_BD_INIT else PKG_BD_RECVING) \<and>
     precvMemPointer (conns cs c) = Some q \<and>
     precvbuf (conns cs c) = RMem q (MSGHEADERLEN + PKGHEADERLEN + length got) \<and>
     irecvlen (conns cs c) = of_nat k \<and>
     mem cs q = Some \<lparr>mb_header = Some h, mb_bytes = map Some (hdr @ got) @ replicate (n - length got) None\<rparr>"

text \<open>The message is in the task queue and the connection waits for the next header.\<close>

definition delivered :: "csocket \<Rightarrow> conn_ptr \<Rightarrow> mem_ptr \<Rightarrow> msg_block \<Rightarrow> csocket \<Rightarrow> bool" where
  "delivered cs c q b cs' \<longleftrightarrow>
     tasks cs' = tasks cs @ [T_threadRecvProcFunc (logicObj (conns cs c)) (Some q)] \<and>
     mem cs' = (mem cs)(q \<mapsto> b) \<and> hdr_inv cs' c [] \<and> precvMemPointer (conns cs' c) = None \<and>
     iCurrsequence (conns cs' c) = iCurrsequence (conns cs c) \<and> logicObj (conns cs' c) = logicObj (conns cs c) \<and>
     logicPorcMutex (conns cs' c) = logicPorcMutex (conns cs c) \<and> m_ETflag cs' = m_ETflag cs \<and>
     (\<forall>p. p \<noteq> c \<longrightarrow> conns cs' p = conns cs p)"

lemmas recv_defs = PKGHEADERLEN_def MSGHEADERLEN_def DATA_BUFSIZE_def PKG_MAX_LENGTH_def

section \<open>Header phase\<close>

lemma recv_store_header:
  assumes "hdr_inv cs c got" "length got + length bs \<le> 8"
  shows "\<exists>d. recv_store c bs cs = Inr (conn_put c ((conns cs c)\<lparr>dataHeadInfo := d\<rparr>) cs) \<and> length d = 20 \<and>
     take (length got + length bs) d = got @ bs"
  using assms
  by (auto simp: recv_store_def hdr_inv_def recv_defs poke_def sock_simps min_def)

lemma recvproc_data:
  "recvproc env c (R_data bs) cs = res_bind (recv_store c bs cs) (\<lambda>cs. Inr (int (length bs), cs))"
  by (simp add: recvproc_def)

lemma unat_small: "k < 2 ^ 32 \<Longrightarrow> uint (of_nat k :: u32) = int k"
  by (simp add: uint_nat unat_of_nat)

lemma header_event_more:
  assumes "hdr_inv cs c got" "bs \<noteq> []" "length got + length bs < 8"
  shows "\<exists>t. ngx_read_request_handler env c (R_data bs) cs = Inr (conn_put c t cs) \<and>
     hdr_inv (conn_put c t cs) c (got @ bs) \<and> erase_recv t = erase_recv (conns cs c)"
proof -
  obtain d where d: "recv_store c bs cs = Inr (conn_put c ((conns cs c)\<lparr>dataHeadInfo := d\<rparr>) cs)"
    "length d = 20" "take (length got + length bs) d = got @ bs"
    using recv_store_header [OF assms(1), of bs] assms(3) by auto
  let ?t0 = "(conns cs c)\<lparr>dataHeadInfo := d\<rparr>"
  let ?t = "more_header (length bs) ?t0"
  have v: "valid_conn cs c" and l: "irecvlen (conns cs c) = of_nat (8 - length got)"
    using assms(1) by (simp_all add: hdr_inv_def recv_defs)
  have "uint (irecvlen (conns cs c)) \<noteq> int (length bs)"
    unfolding l using assms(3) by (subst unat_small) auto
  then have "ngx_read_request_handler env c (R_data bs) cs = Inr (conn_put c ?t cs)"
    using assms d(1) v
    by (auto simp: ngx_read_request_handler_def recvproc_data hdr_inv_def recv_defs sock_simps Let_def)
  moreover have "irecvlen ?t = of_nat (8 - (length got + length bs))"
    using assms(3) l by (simp add: more_header_def of_nat_diff)
  then have "hdr_inv (conn_put c ?t cs) c (got @ bs)"
    using assms d(2,3) v by (auto simp: hdr_inv_def more_header_def recv_defs sock_simps)
  moreover have "erase_recv ?t = erase_recv (conns cs c)"
    by (simp add: erase_recv_def more_header_def)
  ultimately show ?thesis by blast
qed

lemma header_event_last:
  assumes "hdr_inv cs c got" "bs \<noteq> []" "length got + length bs = 8"
  shows "\<exists>d. ngx_read_request_handler env c (R_data bs) cs =
       res_bind (ngx_wait_request_handler_proc_p1 env c (conn_put c ((conns cs c)\<lparr>dataHeadInfo := d\<rparr>) cs)) (kick_if env c) \<and>
     length d = 20 \<and> take 8 d = got @ bs"
proof -
  obtain d where d: "recv_store c bs cs = Inr (conn_put c ((conns cs c)\<lparr>dataHeadInfo := d\<rparr>) cs)"
    "length d = 20" "take (length got + length bs) d = got @ bs"
    using recv_store_header [OF assms(1), of bs] assms(3) by auto
  have l: "irecvlen (conns cs c) = of_nat (8 - length got)"
    using assms(1) by (simp add: hdr_inv_def recv_defs)
  have "uint (irecvlen (conns cs c)) = int (length bs)"
    unfolding l using assms(3) by (subst unat_small) auto
  then have "ngx_read_request_handler env c (R_data bs) cs =
       res_bind (ngx_wait_request_handler_proc_p1 env c (conn_put c ((conns cs c)\<lparr>dataHeadInfo := d\<rparr>) cs)) (kick_if env c)"
    using assms d(1)
    by (auto simp: ngx_read_request_handler_def recvproc_data hdr_inv_def recv_defs sock_simps Let_def)
  then show ?thesis using d(2,3) assms(3) by auto
qed

section \<open>Body phase\<close>

text \<open>The state after the message block has been set up.\<close>

definition p1_state :: "conn_ptr \<Rightarrow> u16 \<Rightarrow> csocket \<Rightarrow> csocket" where
  "p1_state c L cs =
     cs\<lparr>mem_next := mem_next cs + 1,
        mem := (mem cs)(mem_next cs \<mapsto>
          \<lparr>mb_header = Some \<lparr>pConn = c, hdr_sequence = iCurrsequence (conns cs c)\<rparr>,
           mb_bytes = map Some (take 8 (dataHeadInfo (conns cs c))) @ replicate (unat L - 8) None\<rparr>),
        conns := (conns cs)(c := (conns cs c)\<lparr>precvbuf := RMem (mem_next cs) 0,
                                              precvMemPointer := Some (mem_next cs)\<rparr>)\<rparr>"

lemma p1_alloc_eq:
  assumes "valid_conn cs c" "length (dataHeadInfo (conns cs c)) = 20" "8 \<le> unat L"
  shows "p1_alloc c L cs = Inr (mem_next cs, p1_state c L cs)"
  using assms
  by (cases cs)
    (simp add: p1_alloc_def p1_state_def Let_def AllocMemory_def conn_upd_def conn_put_def mem_get_def mem_put_def
      valid_conn_def poke_def recv_defs)

lemma valid_conn_tasks [simp]: "valid_conn (cs\<lparr>tasks := x\<rparr>) p = valid_conn cs p"
  by (simp add: valid_conn_def)

lemma plast_eq:
  assumes "valid_conn cs c"
  shows "ngx_wait_request_handler_proc_plast c cs =
     Inr (conn_put c (recv_reset ((conns cs c)\<lparr>precvMemPointer := None\<rparr>))
       (cs\<lparr>tasks := tasks cs @ [T_threadRecvProcFunc (logicObj (conns cs c)) (precvMemPointer (conns cs c))]\<rparr>))"
  using assms by (simp add: ngx_wait_request_handler_proc_plast_def conn_upd_def)

lemma plast_delivers:
  assumes "valid_conn cs c" "length (dataHeadInfo (conns cs c)) = DATA_BUFSIZE" "precvMemPointer (conns cs c) = Some q"
    and "mem cs q = Some b"
  shows "\<exists>cs'. ngx_wait_request_handler_proc_plast c cs = Inr cs' \<and> delivered cs c q b cs'"
  using assms
  by (auto simp: plast_eq delivered_def hdr_inv_def recv_reset_def recv_defs sock_simps)

lemma recv_store_body:
  assumes "body_inv cs c q h hdr n got k" "length got + length bs \<le> n"
  shows "recv_store c bs cs = Inr (mem_put q \<lparr>mb_header = Some h,
     mb_bytes = map Some (hdr @ got @ bs) @ replicate (n - length got - length bs) None\<rparr> cs)"
  using assms
  by (auto simp: recv_store_def body_inv_def recv_defs mem_get_def poke_def Let_def min_def)

lemma recv_store_overrun:
  assumes "body_inv cs c q h hdr n got k" "n < length got + length bs"
  shows "recv_store c bs cs = Inl OutOfBounds"
  using assms by (auto simp: recv_store_def body_inv_def recv_defs mem_get_def poke_def Let_def)

text \<open>What a read event of connection \<open>c\<close> that receives into block \<open>q\<close> leaves alone.\<close>

definition kept :: "csocket \<Rightarrow> conn_ptr \<Rightarrow> mem_ptr \<Rightarrow> csocket \<Rightarrow> bool" where
  "kept cs c q cs' \<longleftrightarrow>
     tasks cs' = tasks cs \<and> (\<forall>p. p \<noteq> q \<longrightarrow> mem cs' p = mem cs p) \<and>
     iCurrsequence (conns cs' c) = iCurrsequence (conns cs c) \<and> logicObj (conns cs' c) = logicObj (conns cs c) \<and>
     logicPorcMutex (conns cs' c) = logicPorcMutex (conns cs c) \<and> m_ETflag cs' = m_ETflag cs \<and>
     (\<forall>p. p \<noteq> c \<longrightarrow> conns cs' p = conns cs p)"

lemma kept_trans: "kept cs c q cs1 \<Longrightarrow> kept cs1 c q cs2 \<Longrightarrow> kept cs c q cs2"
  by (simp add: kept_def)

lemma kept_delivered: "kept cs c q cs1 \<Longrightarrow> delivered cs1 c q b cs2 \<Longrightarrow> delivered cs c q b cs2"
  by (auto simp: kept_def delivered_def)

lemma kept_mem_put: "kept cs c q (mem_put q b cs)"
  by (simp add: kept_def mem_put_def)

lemma kept_conn_put:
  "iCurrsequence t = iCurrsequence (conns cs c) \<Longrightarrow> logicObj t = logicObj (conns cs c) \<Longrightarrow>
   logicPorcMutex t = logicPorcMutex (conns cs c) \<Longrightarrow> kept cs c q (conn_put c t cs)"
  by (simp add: kept_def sock_simps)

lemma no_flood_mem_put [simp]: "no_flood (mem_put q b cs) c = no_flood cs c"
  by (simp add: no_flood_def mem_put_def)

lemma m_ETflag_mem_put [sock_simps]:
  "m_ETflag (mem_put q b cs) = m_ETflag cs" "tasks (mem_put q b cs) = tasks cs"
  by (simp_all add: mem_put_def)

lemma body_event_first:
  assumes b: "body_inv cs c q h hdr n [] n" and bs: "bs \<noteq> []" "length bs \<le> n" and f: "no_flood cs c"
  shows "\<exists>cs'. ngx_read_request_handler env c (R_data bs) cs = Inr cs' \<and>
     (if length bs = n then delivered cs c q \<lparr>mb_header = Some h, mb_bytes = map Some (hdr @ bs)\<rparr> cs'
      else body_inv cs' c q h hdr n bs (n - length bs) \<and> kept cs c q cs')"
proof -
  let ?b = "\<lparr>mb_header = Some h, mb_bytes = map Some (hdr @ bs) @ replicate (n - length bs) None\<rparr>"
  let ?cs0 = "mem_put q ?b cs"
  let ?t = "flood_count ?cs0 (e_tod env) (conns cs c)"
  let ?cs1 = "conn_put c ?t ?cs0"
  have v: "valid_conn cs c" "irecvlen (conns cs c) = of_nat n" "curStat (conns cs c) = PKG_BD_INIT"
    and n: "n < 2 ^ 16" using b by (simp_all add: body_inv_def)
  have st: "recv_store c bs cs = Inr ?cs0"
    using recv_store_body [OF b, of bs] bs(2) by simp
  have tf: "TestFlood env c ?cs0 = Inr (False, ?cs1)"
    using TestFlood_no_flood [of ?cs0 c env] v(1) f by (simp add: sock_simps)
  have ul: "uint (irecvlen (conns cs c)) = int (length bs) \<longleftrightarrow> length bs = n"
    unfolding v(2) using n by (subst unat_small) auto
  have k1: "kept cs c q ?cs1"
    by (rule kept_trans [OF kept_mem_put kept_conn_put]) (simp_all add: sock_simps)
  have ev: "ngx_read_request_handler env c (R_data bs) cs =
     (if length bs = n then ngx_wait_request_handler_proc_plast c ?cs1 else conn_upd c (more_body (length bs)) ?cs1)"
    using st tf v bs ul by (simp add: ngx_read_request_handler_def recvproc_data sock_simps Let_def)
  show ?thesis
  proof (cases "length bs = n")
    case True
    have "\<exists>cs'. ngx_wait_request_handler_proc_plast c ?cs1 = Inr cs' \<and> delivered ?cs1 c q ?b cs'"
      using b by (intro plast_delivers) (simp_all add: body_inv_def sock_simps)
    then show ?thesis using ev True kept_delivered [OF k1] by auto
  next
    case False
    let ?t2 = "more_body (length bs) ?t"
    have "irecvlen ?t2 = of_nat (n - length bs)"
      using v bs(2) by (simp add: more_body_def of_nat_diff)
    then have "body_inv (conn_put c ?t2 ?cs1) c q h hdr n bs (n - length bs)"
      using b bs False by (auto simp: body_inv_def sock_simps more_body_def recv_defs)
    moreover have "kept cs c q (conn_put c ?t2 ?cs1)"
      by (rule kept_trans [OF k1 kept_conn_put]) (simp_all add: sock_simps more_body_def)
    moreover have "ngx_read_request_handler env c (R_data bs) cs = Inr (conn_put c ?t2 ?cs1)"
      using ev False v(1) by (simp add: sock_simps)
    ultimately show ?thesis using False by auto
  qed
qed

lemma body_event_later:
  assumes b: "body_inv cs c q h hdr n got k" and bs: "bs \<noteq> []" "length got + length bs \<le> n" and got: "got \<noteq> []"
  shows "\<exists>cs'. ngx_read_request_handler env c (R_data bs) cs = Inr cs' \<and>
     (if length bs = k
      then delivered cs c q \<lparr>mb_header = Some h, mb_bytes = map Some (hdr @ got @ bs) @ replicate (n - length got - length bs) None\<rparr> cs'
      else body_inv cs' c q h hdr n (got @ bs) (length bs) \<and> kept cs c q cs')"
proof -
  let ?b = "\<lparr>mb_header = Some h, mb_bytes = map Some (hdr @ got @ bs) @ replicate (n - length got - length bs) None\<rparr>"
  let ?cs0 = "mem_put q ?b cs"
  have v: "valid_conn cs c" "irecvlen (conns cs c) = of_nat k" "curStat (conns cs c) = PKG_BD_RECVING"
    and k: "k < 2 ^ 16" using b got by (simp_all add: body_inv_def)
  have ul: "uint (irecvlen (conns cs c)) = int (length bs) \<longleftrightarrow> length bs = k"
    unfolding v(2) using k by (subst unat_small) auto
  have ev: "ngx_read_request_handler env c (R_data bs) cs =
     (if length bs = k then ngx_wait_request_handler_proc_plast c ?cs0 else conn_upd c (more_body (length bs)) ?cs0)"
    using recv_store_body [OF b bs(2)] v bs ul
    by (simp add: ngx_read_request_handler_def recvproc_data sock_simps Let_def)
  show ?thesis
  proof (cases "length bs = k")
    case True
    have "\<exists>cs'. ngx_wait_request_handler_proc_plast c ?cs0 = Inr cs' \<and> delivered ?cs0 c q ?b cs'"
      using b by (intro plast_delivers) (simp_all add: body_inv_def sock_simps)
    then show ?thesis using ev True kept_delivered [OF kept_mem_put] by metis
  next
    case False
    let ?t2 = "more_body (length bs) (conns cs c)"
    have "body_inv (conn_put c ?t2 ?cs0) c q h hdr n (got @ bs) (length bs)"
      using b bs False v got by (auto simp: body_inv_def sock_simps more_body_def recv_defs)
    moreover have "kept cs c q (conn_put c ?t2 ?cs0)"
      by (rule kept_trans [OF kept_mem_put kept_conn_put]) (simp_all add: sock_simps more_body_def)
    moreover have "ngx_read_request_handler env c (R_data bs) cs = Inr (conn_put c ?t2 ?cs0)"
      using ev False v(1) by (simp add: sock_simps)
    ultimately show ?thesis using False by auto
  qed
qed

section \<open>Whole messages\<close>

lemma read_events_append: "read_events env c (rs @ rs') cs = res_bind (read_events env c rs cs) (read_events env c rs')"
  by (induction rs arbitrary: cs) (simp_all add: res_bind_assoc cong: res_bind_cong)

lemma header_pieces:
  "hdr_inv cs c got \<Longrightarrow> [] \<notin> set hs \<Longrightarrow> length (got @ concat hs) = 8 \<Longrightarrow>
   \<exists>t. read_events env c (map R_data hs) cs =
         res_bind (ngx_wait_request_handler_proc_p1 env c (conn_put c t cs)) (kick_if env c) \<and>
       length (dataHeadInfo t) = 20 \<and> take 8 (dataHeadInfo t) = got @ concat hs \<and>
       erase_recv t = erase_recv (conns cs c)"
proof (induction hs arbitrary: cs got)
  case Nil
  then show ?case by (simp add: hdr_inv_def recv_defs)
next
  case (Cons bs hs)
  show ?case
  proof (cases "hs = []")
    case True
    then obtain d where "ngx_read_request_handler env c (R_data bs) cs =
        res_bind (ngx_wait_request_handler_proc_p1 env c (conn_put c ((conns cs c)\<lparr>dataHeadInfo := d\<rparr>) cs)) (kick_if env c)"
      "length d = 20" "take 8 d = got @ bs"
      using header_event_last [OF Cons.prems(1), of bs env] Cons.prems by auto
    moreover have "res_bind m (read_events env c []) = m" for m by (cases m) simp_all
    ultimately show ?thesis using True
      by (intro exI [of _ "(conns cs c)\<lparr>dataHeadInfo := d\<rparr>"]) (simp add: erase_recv_def)
  next
    case False
    with Cons.prems(2) have "0 < length (concat hs)" by (cases hs) auto
    with Cons.prems(3) have "length got + length bs < 8" by (simp only: length_append concat.simps)
    with header_event_more [OF Cons.prems(1), of bs env] Cons.prems(2) obtain t where
      t: "ngx_read_request_handler env c (R_data bs) cs = Inr (conn_put c t cs)"
        "hdr_inv (conn_put c t cs) c (got @ bs)" "erase_recv t = erase_recv (conns cs c)" by auto
    from Cons.IH [OF t(2)] Cons.prems(2,3) obtain t' where
      "read_events env c (map R_data hs) (conn_put c t cs) =
         res_bind (ngx_wait_request_handler_proc_p1 env c (conn_put c t' (conn_put c t cs))) (kick_if env c)"
      "length (dataHeadInfo t') = 20" "take 8 (dataHeadInfo t') = (got @ bs) @ concat hs"
      "erase_recv t' = erase_recv (conns (conn_put c t cs) c)" by auto
    then show ?thesis using t by (intro exI [of _ t']) (simp add: sock_simps)
  qed
qed

lemma head_pkgLen_eq:
  "take 8 (dataHeadInfo t) = pkg_header L code crc \<Longrightarrow> head_pkgLen t = L"
  using nth_take [of 0 8 "dataHeadInfo t"] nth_take [of 1 8 "dataHeadInfo t"] un_le16_le16 [of L]
  by (simp add: head_pkgLen_def pkg_header_def nth_append)

lemma p1_state_fields [sock_simps]:
  "valid_conn (p1_state c L cs) p = valid_conn cs p"
  "tasks (p1_state c L cs) = tasks cs"
  "no_flood (p1_state c L cs) c = no_flood cs c"
  "mem (p1_state c L cs) (mem_next cs) =
     Some \<lparr>mb_header = Some \<lparr>pConn = c, hdr_sequence = iCurrsequence (conns cs c)\<rparr>,
           mb_bytes = map Some (take 8 (dataHeadInfo (conns cs c))) @ replicate (unat L - 8) None\<rparr>"
  "conns (p1_state c L cs) c =
     (conns cs c)\<lparr>precvbuf := RMem (mem_next cs) 0, precvMemPointer := Some (mem_next cs)\<rparr>"
  by (simp_all add: p1_state_def valid_conn_def no_flood_def)

lemma kept_p1_state: "kept cs c (mem_next cs) (p1_state c L cs)"
  by (simp add: kept_def p1_state_def)

lemma p1_header_only:
  assumes "valid_conn cs c" "length (dataHeadInfo (conns cs c)) = 20" "take 8 (dataHeadInfo (conns cs c)) = pkg_header 8 code crc"
    and "no_flood cs c"
  shows "\<exists>cs'. ngx_wait_request_handler_proc_p1 env c cs = Inr (False, cs') \<and>
     delivered cs c (mem_next cs) \<lparr>mb_header = Some \<lparr>pConn = c, hdr_sequence = iCurrsequence (conns cs c)\<rparr>,
                                   mb_bytes = map Some (pkg_header 8 code crc)\<rparr> cs'"
proof -
  let ?s = "p1_state c 8 cs"
  let ?s1 = "conn_put c (flood_count ?s (e_tod env) (conns ?s c)) ?s"
  have e: "ngx_wait_request_handler_proc_p1 env c cs =
      res_bind (ngx_wait_request_handler_proc_plast c ?s1) (\<lambda>cs. Inr (False, cs))"
    using assms p1_alloc_eq [OF assms(1,2), of 8] TestFlood_no_flood [of ?s c env]
    by (simp add: ngx_wait_request_handler_proc_p1_def head_pkgLen_eq [OF assms(3)] recv_defs sock_simps)
  have k: "kept cs c (mem_next cs) ?s1"
    by (rule kept_trans [OF kept_p1_state kept_conn_put]) (simp_all add: sock_simps)
  obtain cs' where "ngx_wait_request_handler_proc_plast c ?s1 = Inr cs'"
    "delivered ?s1 c (mem_next cs) \<lparr>mb_header = Some \<lparr>pConn = c, hdr_sequence = iCurrsequence (conns cs c)\<rparr>,
       mb_bytes = map Some (pkg_header 8 code crc)\<rparr> cs'"
    using plast_delivers [of ?s1 c "mem_next cs"] assms by (auto simp: sock_simps recv_defs)
  then show ?thesis using e kept_delivered [OF k] by auto
qed

lemma p1_with_body:
  assumes "valid_conn cs c" "length (dataHeadInfo (conns cs c)) = 20" "take 8 (dataHeadInfo (conns cs c)) = pkg_header L code crc"
    and L: "8 < unat L" "unat L \<le> 29000"
  shows "\<exists>cs'. ngx_wait_request_handler_proc_p1 env c cs = Inr (False, cs') \<and>
     body_inv cs' c (mem_next cs) \<lparr>pConn = c, hdr_sequence = iCurrsequence (conns cs c)\<rparr>
       (pkg_header L code crc) (unat L - 8) [] (unat L - 8) \<and>
     kept cs c (mem_next cs) cs' \<and> (no_flood cs c \<longrightarrow> no_flood cs' c)"
proof -
  let ?s = "p1_state c L cs"
  let ?s1 = "conn_put c (p1_body (mem_next cs) L (conns ?s c)) ?s"
  have "ngx_wait_request_handler_proc_p1 env c cs = Inr (False, ?s1)"
    using assms p1_alloc_eq [OF assms(1,2), of L]
    by (simp add: ngx_wait_request_handler_proc_p1_def head_pkgLen_eq [OF assms(3)] recv_defs sock_simps)
  moreover have "kept cs c (mem_next cs) ?s1"
    by (rule kept_trans [OF kept_p1_state kept_conn_put]) (simp_all add: sock_simps p1_body_def)
  moreover have "body_inv ?s1 c (mem_next cs) \<lparr>pConn = c, hdr_sequence = iCurrsequence (conns cs c)\<rparr>
       (pkg_header L code crc) (unat L - 8) [] (unat L - 8)"
    using assms by (simp add: body_inv_def sock_simps p1_body_def recv_defs)
  moreover have "no_flood cs c \<longrightarrow> no_flood ?s1 c"
    by (simp add: no_flood_def p1_state_def p1_body_def sock_simps)
  ultimately show ?thesis by blast
qed

lemma p1_bad_length:
  assumes "valid_conn cs c" "length (dataHeadInfo (conns cs c)) = 20" "take 8 (dataHeadInfo (conns cs c)) = pkg_header L code crc"
    and L: "unat L < 8 \<or> 29000 < unat L"
  shows "ngx_wait_request_handler_proc_p1 env c cs = Inr (False, conn_put c (recv_reset (conns cs c)) cs) \<and>
     hdr_inv (conn_put c (recv_reset (conns cs c)) cs) c []"
  using assms
  by (auto simp: ngx_wait_request_handler_proc_p1_def head_pkgLen_eq [OF assms(3)] recv_defs sock_simps Let_def
      hdr_inv_def recv_reset_def)

lemma body_in_two:
  assumes b: "body_inv cs c q h hdr n [] n" and f: "no_flood cs c"
    and bs: "length (concat bs) = n" "[] \<notin> set bs" "length bs \<le> 2"
  shows "\<exists>cs'. read_events env c (map R_data bs) cs = Inr cs' \<and>
     delivered cs c q \<lparr>mb_header = Some h, mb_bytes = map Some (hdr @ concat bs)\<rparr> cs'"
proof -
  have n: "0 < n" using b by (simp add: body_inv_def)
  consider x where "bs = [x]" | x y where "bs = [x, y]"
    using bs n by (cases bs; cases "tl bs"; fastforce)
  then show ?thesis
  proof cases
    case 1
    then show ?thesis using body_event_first [OF b, of x env] bs f by auto
  next
    case 2
    then have x: "x \<noteq> []" "length x < n" and y: "y \<noteq> []" "length y = n - length x" "length x + length y \<le> n"
      using bs by auto
    obtain cs1 where s1: "ngx_read_request_handler env c (R_data x) cs = Inr cs1"
      "body_inv cs1 c q h hdr n x (n - length x)" "kept cs c q cs1"
      using body_event_first [OF b x(1) _ f, of env] x(2) by auto
    obtain cs2 where "ngx_read_request_handler env c (R_data y) cs1 = Inr cs2"
      "delivered cs1 c q \<lparr>mb_header = Some h, mb_bytes = map Some (hdr @ x @ y)\<rparr> cs2"
      using body_event_later [OF s1(2) y(1,3) x(1), of env] y(2) by auto
    then show ?thesis using s1(1) kept_delivered [OF s1(3)] 2 by auto
  qed
qed

section \<open>Properties\<close>

text \<open>The message a connection delivers for a header and a body.\<close>

definition framed :: "csocket \<Rightarrow> conn_ptr \<Rightarrow> u8 list \<Rightarrow> msg_block" where
  "framed cs c bytes =
     \<lparr>mb_header = Some \<lparr>pConn = c, hdr_sequence = iCurrsequence (conns cs c)\<rparr>, mb_bytes = map Some bytes\<rparr>"

lemma header_pieces_p1:
  assumes "hdr_inv cs c []" "[] \<notin> set hs" "concat hs = pkg_header L code crc" "no_flood cs c"
  shows "\<exists>t. read_events env c (map R_data hs) cs =
       res_bind (ngx_wait_request_handler_proc_p1 env c (conn_put c t cs)) (kick_if env c) \<and>
     valid_conn (conn_put c t cs) c \<and> length (dataHeadInfo t) = 20 \<and>
     take 8 (dataHeadInfo t) = pkg_header L code crc \<and> no_flood (conn_put c t cs) c \<and>
     erase_recv t = erase_recv (conns cs c)"
proof -
  obtain t where t: "read_events env c (map R_data hs) cs =
       res_bind (ngx_wait_request_handler_proc_p1 env c (conn_put c t cs)) (kick_if env c)"
    "length (dataHeadInfo t) = 20" "take 8 (dataHeadInfo t) = pkg_header L code crc"
    "erase_recv t = erase_recv (conns cs c)"
    using header_pieces [OF assms(1,2), of env] assms(3) by auto
  moreover have "valid_conn (conn_put c t cs) c" using assms(1) by (simp add: hdr_inv_def sock_simps)
  moreover have "no_flood (conn_put c t cs) c"
    using assms(4) erase_recv_eqD [OF t(4)] by (simp add: no_flood_def sock_simps)
  ultimately show ?thesis by blast
qed

lemma kept_erase: "erase_recv t = erase_recv (conns cs c) \<Longrightarrow> kept cs c q (conn_put c t cs)"
  by (rule kept_conn_put) (erule erase_recv_eqD)+

text \<open>A message in pieces, from the first byte of its header to the queue.\<close>

lemma message_delivered:
  assumes "hdr_inv cs c []" "no_flood cs c" "8 \<le> unat L" "unat L \<le> 29000"
    and "concat hs = pkg_header L code crc" "[] \<notin> set hs"
    and "length (concat bs) = unat L - 8" "[] \<notin> set bs" "length bs \<le> 2"
  shows "\<exists>cs'. read_events env c (map R_data (hs @ bs)) cs = Inr cs' \<and>
     delivered cs c (mem_next cs) (framed cs c (concat hs @ concat bs)) cs'"
proof -
  let ?q = "mem_next cs" and ?h = "\<lparr>pConn = c, hdr_sequence = iCurrsequence (conns cs c)\<rparr>"
  obtain t where t: "read_events env c (map R_data hs) cs =
       res_bind (ngx_wait_request_handler_proc_p1 env c (conn_put c t cs)) (kick_if env c)"
    "valid_conn (conn_put c t cs) c" "length (dataHeadInfo t) = 20"
    "take 8 (dataHeadInfo t) = pkg_header L code crc" "no_flood (conn_put c t cs) c"
    "erase_recv t = erase_recv (conns cs c)"
    using header_pieces_p1 [OF assms(1,6,5,2), of env] by blast
  let ?s = "conn_put c t cs"
  have td: "length (dataHeadInfo (conns ?s c)) = 20" "take 8 (dataHeadInfo (conns ?s c)) = pkg_header L code crc"
    using t(3,4) by (simp_all add: sock_simps)
  have q: "mem_next ?s = ?q" and seq: "iCurrsequence (conns ?s c) = iCurrsequence (conns cs c)"
    using erase_recv_eqD [OF t(6)] by (simp_all add: sock_simps)
  have k: "kept cs c ?q ?s" by (rule kept_erase [OF t(6)])
  show ?thesis
  proof (cases "unat L = 8")
    case True
    then have L: "L = 8" by (intro word_unat_eq_iff [THEN iffD2]) simp
    have "bs = []" using assms(7,8) True by (cases bs) auto
    then show ?thesis
      using p1_header_only [OF t(2) td(1) td(2) [unfolded L] t(5), of env] t(1) q seq kept_delivered [OF k] assms(5) L
      by (auto simp: read_events_append kick_if_def framed_def)
  next
    case False
    then have L: "8 < unat L" using assms(3) by simp
    obtain s1 where s1: "ngx_wait_request_handler_proc_p1 env c ?s = Inr (False, s1)"
      "body_inv s1 c ?q ?h (pkg_header L code crc) (unat L - 8) [] (unat L - 8)" "kept ?s c ?q s1" "no_flood s1 c"
      using p1_with_body [OF t(2) td L assms(4), of env] t(5) q seq by auto
    have ev: "read_events env c (map R_data (hs @ bs)) cs = read_events env c (map R_data bs) s1"
      using t(1) s1(1) by (simp add: read_events_append kick_if_def)
    have k1: "kept cs c ?q s1" by (rule kept_trans [OF k s1(3)])
    have "\<exists>cs'. read_events env c (map R_data bs) s1 = Inr cs' \<and>
        delivered s1 c ?q (framed cs c (concat hs @ concat bs)) cs'"
      using body_in_two [OF s1(2,4) assms(7-9), of env] assms(5) by (simp add: framed_def)
    then show ?thesis using ev kept_delivered [OF k1] by auto
  qed
qed

text \<open>
  C2. Messages are framed correctly. From the start of a header, if the header (of any message length
  the server accepts, 8 to 29000) arrives in any pieces and the body in at most two, and the flood test
  does not object, then after the last piece exactly one task is queued, for a message block whose
  bytes are exactly header and body and whose message header names the connection and its sequence
  number; other memory and other connections are untouched and the connection waits for the next
  header.
\<close>

theorem message_framed:
  assumes "hdr_inv cs c []" "no_flood cs c" "8 \<le> unat L" "unat L \<le> 29000"
    and "concat hs = pkg_header L code crc" "[] \<notin> set hs"
    and "length (concat bs) = unat L - 8" "[] \<notin> set bs" "length bs \<le> 2"
  shows "\<exists>cs'. read_events env c (map R_data (hs @ bs)) cs = Inr cs' \<and>
     delivered cs c (mem_next cs) (framed cs c (concat hs @ concat bs)) cs'"
  using assms by (rule message_delivered)

text \<open>A level triggered worker whose connection waits for a header.\<close>

definition sample_receiver :: csocket where
  "sample_receiver =
     sample_socket\<lparr>m_ETflag := 0, m_pconnections := [2],
       conns := (\<lambda>_. zero_connection)((0, 0) :=
         zero_connection\<lparr>fd := 9, iCurrsequence := 1, irecvlen := 8, precvbuf := RHead 0, logicObj := Some 0\<rparr>)\<rparr>"

lemma sample_receiver_ok: "hdr_inv sample_receiver (0, 0) []" "no_flood sample_receiver (0, 0)"
  by (simp_all add: hdr_inv_def no_flood_def sample_receiver_def sample_socket_def zero_connection_def valid_conn_def
      recv_defs)

lemma sample_header: "pkg_header 11 1 0 = [11, 0, 1, 0, 0, 0, 0, 0]"
  by (simp add: pkg_header_def le16_def)

theorem message_framed_witness:
  "\<exists>cs'. read_events sample_env (0, 0) (map R_data [[11, 0, 1], [0, 0], [0, 0, 0], [65], [66, 67]]) sample_receiver = Inr cs' \<and>
     mem cs' (mem_next sample_receiver) = Some (framed sample_receiver (0, 0) [11, 0, 1, 0, 0, 0, 0, 0, 65, 66, 67])"
proof -
  have h: "concat [[11, 0, 1], [0, 0], [0, 0, 0]] = pkg_header 11 1 0" "[] \<notin> set [[11, 0, 1], [0, 0], [0, 0, 0 :: u8]]"
    "length (concat [[65], [66, 67 :: u8]]) = unat (11 :: u16) - 8" "[] \<notin> set [[65], [66, 67 :: u8]]"
    "length [[65], [66, 67 :: u8]] \<le> 2" "8 \<le> unat (11 :: u16)" "unat (11 :: u16) \<le> 29000"
    by (simp_all add: sample_header)
  show ?thesis
    using message_framed [OF sample_receiver_ok h(6,7,1-5), of sample_env] by (auto simp: delivered_def)
qed

text \<open>
  C35. A header whose length field is below 8 or above 29000 is discarded: however it arrives, the
  connection goes back to waiting for a header, with no task queued and no memory allocated.
\<close>

theorem bad_length_discarded:
  assumes "hdr_inv cs c []" "no_flood cs c" "unat L < 8 \<or> 29000 < unat L"
    and "concat hs = pkg_header L code crc" "[] \<notin> set hs"
  shows "\<exists>cs'. read_events env c (map R_data hs) cs = Inr cs' \<and> hdr_inv cs' c [] \<and>
     tasks cs' = tasks cs \<and> mem cs' = mem cs \<and> mem_next cs' = mem_next cs \<and> (\<forall>p. p \<noteq> c \<longrightarrow> conns cs' p = conns cs p)"
proof -
  obtain t where t: "read_events env c (map R_data hs) cs =
       res_bind (ngx_wait_request_handler_proc_p1 env c (conn_put c t cs)) (kick_if env c)"
    "valid_conn (conn_put c t cs) c" "length (dataHeadInfo t) = 20"
    "take 8 (dataHeadInfo t) = pkg_header L code crc"
    using header_pieces_p1 [OF assms(1,5,4,2), of env] by blast
  then show ?thesis
    using p1_bad_length [OF t(2), of L code crc env] assms(3) by (auto simp: kick_if_def sock_simps)
qed

theorem bad_length_discarded_witness:
  "\<exists>cs'. read_events sample_env (0, 0) (map R_data [pkg_header 7 1 0]) sample_receiver = Inr cs' \<and> hdr_inv cs' (0, 0) []"
proof -
  have h: "unat (7 :: u16) < 8 \<or> 29000 < unat (7 :: u16)" "concat [pkg_header 7 1 0] = pkg_header 7 1 0"
    "[] \<notin> set [pkg_header 7 1 0]" by (auto simp: pkg_header_def le16_def)
  show ?thesis using bad_length_discarded [OF sample_receiver_ok h, of sample_env] by blast
qed

text \<open>
  C32. A body in three pieces is not framed correctly: after the second piece the server asks for as many
  bytes as that piece had (\<^verbatim>\<open>irecvlen = ret\<close>), not for what is missing. When a third piece of the second's size
  arrives and the three pieces do not happen to add up to the body's length, either the message is queued with bytes at its end that were never received, or the read
  has written beyond the message block.
\<close>

theorem third_body_piece_misframed:
  assumes "hdr_inv cs c []" "no_flood cs c" "unat L \<le> 29000"
    and "concat hs = pkg_header L code crc" "[] \<notin> set hs"
    and "x \<noteq> []" "y \<noteq> []" "length x + length y < unat L - 8" "length z = length y"
    and "length x + 2 * length y \<noteq> unat L - 8"
  shows "if length x + 2 * length y < unat L - 8
     then \<exists>cs'. read_events env c (map R_data (hs @ [x, y, z])) cs = Inr cs' \<and>
       delivered cs c (mem_next cs)
         \<lparr>mb_header = Some \<lparr>pConn = c, hdr_sequence = iCurrsequence (conns cs c)\<rparr>,
          mb_bytes = map Some (concat hs @ x @ y @ z) @ replicate (unat L - 8 - length x - 2 * length y) None\<rparr> cs'
     else read_events env c (map R_data (hs @ [x, y, z])) cs = Inl OutOfBounds"
proof -
  let ?q = "mem_next cs" and ?h = "\<lparr>pConn = c, hdr_sequence = iCurrsequence (conns cs c)\<rparr>" and ?n = "unat L - 8"
  obtain t where t: "read_events env c (map R_data hs) cs =
       res_bind (ngx_wait_request_handler_proc_p1 env c (conn_put c t cs)) (kick_if env c)"
    "valid_conn (conn_put c t cs) c" "length (dataHeadInfo t) = 20"
    "take 8 (dataHeadInfo t) = pkg_header L code crc" "no_flood (conn_put c t cs) c"
    "erase_recv t = erase_recv (conns cs c)"
    using header_pieces_p1 [OF assms(1,5,4,2), of env] by blast
  let ?s = "conn_put c t cs"
  have td: "length (dataHeadInfo (conns ?s c)) = 20" "take 8 (dataHeadInfo (conns ?s c)) = pkg_header L code crc"
    using t(3,4) by (simp_all add: sock_simps)
  have q: "mem_next ?s = ?q" and seq: "iCurrsequence (conns ?s c) = iCurrsequence (conns cs c)"
    using erase_recv_eqD [OF t(6)] by (simp_all add: sock_simps)
  have L: "8 < unat L" using assms(8) by simp
  obtain s1 where s1: "ngx_wait_request_handler_proc_p1 env c ?s = Inr (False, s1)"
    "body_inv s1 c ?q ?h (concat hs) ?n [] ?n" "kept ?s c ?q s1" "no_flood s1 c"
    using p1_with_body [OF t(2) td L assms(3), of env] t(5) q seq assms(4) by auto
  obtain s2 where s2: "ngx_read_request_handler env c (R_data x) s1 = Inr s2"
    "body_inv s2 c ?q ?h (concat hs) ?n x (?n - length x)" "kept s1 c ?q s2"
    using body_event_first [OF s1(2) assms(6) _ s1(4), of env] assms(8) by auto
  obtain s3 where s3: "ngx_read_request_handler env c (R_data y) s2 = Inr s3"
    "body_inv s3 c ?q ?h (concat hs) ?n (x @ y) (length y)" "kept s2 c ?q s3"
    using body_event_later [OF s2(2) assms(7) _ assms(6), of env] assms(8) by auto
  have k: "kept cs c ?q s3"
    by (rule kept_trans [OF kept_trans [OF kept_trans [OF kept_erase [OF t(6)] s1(3)] s2(3)] s3(3)])
  have ev: "read_events env c (map R_data (hs @ [x, y, z])) cs = read_events env c [R_data z] s3"
    using t(1) s1(1) s2(1) s3(1) by (simp add: read_events_append kick_if_def)
  show ?thesis
  proof (cases "length x + 2 * length y < ?n")
    case True
    have "z \<noteq> []" using assms(7,9) by auto
    then obtain s4 where "ngx_read_request_handler env c (R_data z) s3 = Inr s4"
      "delivered s3 c ?q \<lparr>mb_header = Some ?h, mb_bytes = map Some (concat hs @ (x @ y) @ z) @
          replicate (?n - length (x @ y) - length z) None\<rparr> s4"
      using body_event_later [OF s3(2), of z env] True assms(6,9) by auto
    moreover have "?n - length (x @ y) - length z = ?n - length x - 2 * length y" using assms(9) by simp
    ultimately show ?thesis using True ev kept_delivered [OF k] by auto
  next
    case False
    then have "recv_store c z s3 = Inl OutOfBounds"
      using recv_store_overrun [OF s3(2), of z] assms(9,10) by simp
    then show ?thesis using False ev by (simp add: ngx_read_request_handler_def recvproc_data)
  qed
qed

theorem third_body_piece_misframed_witness:
  "\<exists>cs' b. read_events sample_env (0, 0) (map R_data [pkg_header 18 1 0, [65, 66], [67], [68]]) sample_receiver = Inr cs' \<and>
     mem cs' (mem_next sample_receiver) = Some b \<and> mb_bytes b ! 12 = None"
proof -
  have h: "unat (18 :: u16) \<le> 29000" "concat [pkg_header 18 1 0] = pkg_header 18 1 0" "[] \<notin> set [pkg_header 18 1 0]"
    "[65, 66 :: u8] \<noteq> []" "[67 :: u8] \<noteq> []" "length [65, 66 :: u8] + length [67 :: u8] < unat (18 :: u16) - 8"
    "length [68 :: u8] = length [67 :: u8]"
    "length [65, 66 :: u8] + 2 * length [67 :: u8] \<noteq> unat (18 :: u16) - 8"
    by (auto simp: pkg_header_def le16_def)
  show ?thesis
    using third_body_piece_misframed [OF sample_receiver_ok h, of sample_env]
    by (auto simp: delivered_def nth_append)
qed

end
