(* ===== verification/Accept.thy ===== *)
theory Accept
  imports Heartbeat Recv
begin

text \<open>
  Accepting connections (\<^verbatim>\<open>net/ngx_c_socket_accept.cpp\<close>), the start of a worker's event handling
  (\<^verbatim>\<open>ngx_epoll_init\<close>) and the dispatch of one batch of events (\<^verbatim>\<open>ngx_epoll_process_events\<close>, both
  \<^verbatim>\<open>net/ngx_c_socket.cpp\<close>). The answers of \<^verbatim>\<open>accept4\<close>, of \<^verbatim>\<open>fcntl\<close> and of the TLS handshake are arguments.
\<close>

section \<open>Accepting\<close>

datatype accept_errno = A_EAGAIN | A_ENOSYS | A_EOTHER
datatype accept_ret = A_fd int | A_fail accept_errno

text \<open>\<^verbatim>\<open>nb\<close>: does \<^verbatim>\<open>setnonblocking\<close> succeed; \<open>tls\<close>: does the handshake ever succeed.\<close>

record accept_env =
  a_env :: env
  a_nonblocking_ok :: bool
  a_tls_accepts :: bool

definition close_fd :: "int \<Rightarrow> csocket \<Rightarrow> csocket" where
  "close_fd f cs = cs\<lparr>closed_fds := f # closed_fds cs\<rparr>"

text \<open>
  The protocol object of a new connection, by the listening port. \<^verbatim>\<open>while(!Accept()){}\<close> spins until the
  handshake succeeds; for any port but 80 and 443 the pointer is used without having been set.
\<close>

definition new_logicobj :: "accept_env \<Rightarrow> int \<Rightarrow> csocket \<Rightarrow> (nat \<times> csocket) res" where
  "new_logicobj ae prt cs =
     (if prt = 80 \<or> prt = 443 then
        (if prt = 443 \<and> \<not> a_tls_accepts ae then Inl Blocked
         else Inr (obj_next cs, cs\<lparr>obj_live := (obj_live cs)(obj_next cs := True), obj_next := obj_next cs + 1\<rparr>))
      else Inl DeadMemory)"

text \<open>The part behind a successful \<^verbatim>\<open>ngx_get_connection\<close>.\<close>

definition accept_setup :: "accept_env \<Rightarrow> conn_ptr \<Rightarrow> conn_ptr \<Rightarrow> csocket \<Rightarrow> csocket res" where
  "accept_setup ae oldc newc cs =
     (case listening (conns cs oldc) of
        None \<Rightarrow> Inl NullDeref
      | Some l \<Rightarrow>
        if length (m_ListenSocketList cs) \<le> l then Inl OutOfBounds else
        res_bind (new_logicobj ae (port (m_ListenSocketList cs ! l)) cs) (\<lambda>(obj, cs).
        let cs = cs\<lparr>m_onlineUserCount := m_onlineUserCount cs + 1\<rparr> in
        res_bind (conn_upd newc (\<lambda>t. t\<lparr>logicObj := Some obj, listening := Some l,
            whandler := Some H_ngx_write_request_handler, curStat := PKG_HD_INIT,
            irecvlen := of_nat PKGHEADERLEN, precvbuf := RHead 0, precvMemPointer := None,
            FloodAttackCount := 0, phandler := Some H_ngx_evhup_handler\<rparr>) cs) (\<lambda>cs.
        res_bind (ngx_epoll_opr_event (a_env ae) newc True EPOLL_CTL_ADD cs) (\<lambda>(ok, cs).
          if ok then ngx_add_check (a_env ae) newc cs else ngx_close_connection newc cs))))"

text \<open>\<^verbatim>\<open>ngx_event_accept\<close>; the flag says that \<^verbatim>\<open>accept4\<close> is used, the list are the answers of the calls.\<close>

fun accept_loop :: "accept_env \<Rightarrow> conn_ptr \<Rightarrow> bool \<Rightarrow> accept_ret list \<Rightarrow> csocket \<Rightarrow> csocket res" where
  "accept_loop ae oldc accept4_flag [] cs = Inl Blocked"
| "accept_loop ae oldc accept4_flag (A_fail err # rs) cs =
     (if err = A_EAGAIN then Inr cs
      else if accept4_flag \<and> err = A_ENOSYS then accept_loop ae oldc False rs cs
      else Inr cs)"
| "accept_loop ae oldc accept4_flag (A_fd f # rs) cs =
     (if m_onlineUserCount cs > m_worker_connections cs then Inr (close_fd f cs)
      else if \<not> accept4_flag \<and> \<not> a_nonblocking_ok ae then Inr (close_fd f cs)
      else
        res_bind (ngx_get_connection f cs) (\<lambda>(newc, cs).
          case newc of
            None \<Rightarrow> Inr (close_fd f cs)
          | Some c \<Rightarrow> accept_setup ae oldc c cs))"

definition ngx_event_accept :: "accept_env \<Rightarrow> conn_ptr \<Rightarrow> accept_ret list \<Rightarrow> csocket \<Rightarrow> csocket res" where
  "ngx_event_accept ae oldc rs cs = accept_loop ae oldc True rs cs"

section \<open>Starting a worker\<close>

text \<open>
  The loop of \<^verbatim>\<open>ngx_epoll_init\<close> over the listening sockets, from number \<open>i\<close> on: each gets a connection whose
  read handler accepts. \<^verbatim>\<open>exit(2)\<close> is the result \<open>None\<close>.
\<close>

fun listen_loop :: "env \<Rightarrow> nat \<Rightarrow> ngx_listening list \<Rightarrow> csocket \<Rightarrow> csocket option res" where
  "listen_loop env i [] cs = Inr (Some cs)"
| "listen_loop env i (l # ls) cs =
     res_bind (ngx_get_connection (l_fd l) cs) (\<lambda>(t, cs).
       case t of
         None \<Rightarrow> Inr None
       | Some c \<Rightarrow>
           res_bind (conn_upd c (\<lambda>x. x\<lparr>listening := Some i, rhandler := Some H_ngx_event_accept\<rparr>)
               (cs\<lparr>m_ListenSocketList := (m_ListenSocketList cs)[i := l\<lparr>l_connection := Some c\<rparr>]\<rparr>)) (\<lambda>cs.
             if e_epoll_ok env
             then listen_loop env (i + 1) ls
                    (cs\<lparr>epoll_set := (epoll_set cs)(fd (conns cs c) \<mapsto>
                       \<lparr>ev_in = True, ev_out = False, ev_et = False, ev_ptr = c\<rparr>)\<rparr>)
             else Inr None))"

definition ngx_epoll_init :: "env \<Rightarrow> csocket \<Rightarrow> csocket option res" where
  "ngx_epoll_init env cs =
     (let cs = cs\<lparr>tasks := tasks cs @ [T_ngx_time_check, T_ngx_timer_free_connection],
                  timers := AddTimer (e_steady env) 20000 (- 1) CB_ngx_time_tocheck None (timers cs)\<rparr> in
      res_bind (init_pool cs) (\<lambda>cs. listen_loop env 0 (m_ListenSocketList cs) cs))"

section \<open>Dispatching events\<close>

text \<open>
  An event as \<^verbatim>\<open>epoll_wait\<close> reports it: its flags, the connection, and what the socket will answer when the
  handler uses it.
\<close>

record event =
  re_in :: bool
  re_out :: bool
  re_err :: bool
  re_hup :: bool
  re_other :: bool
  re_ptr :: conn_ptr
  re_read :: read_ret
  re_accept :: "accept_ret list"

definition call_handler :: "accept_env \<Rightarrow> event \<Rightarrow> handler option \<Rightarrow> csocket \<Rightarrow> csocket res" where
  "call_handler ae ev hdl cs =
     (case hdl of
        None \<Rightarrow> Inl NullDeref
      | Some H_ngx_event_accept \<Rightarrow> ngx_event_accept ae (re_ptr ev) (re_accept ev) cs
      | Some H_ngx_read_request_handler \<Rightarrow> ngx_read_request_handler (a_env ae) (re_ptr ev) (re_read ev) cs
      | Some H_ngx_read_request_handler_ET \<Rightarrow> Inr (ngx_read_request_handler_ET (re_ptr ev) cs)
      | Some H_ngx_write_request_handler \<Rightarrow> Inr (ngx_write_request_handler (re_ptr ev) cs)
      | Some H_ngx_evhup_handler \<Rightarrow> ngx_evhup_handler (a_env ae) (re_ptr ev) cs)"

text \<open>\<^verbatim>\<open>revents == EPOLLIN\<close> and \<^verbatim>\<open>revents == EPOLLOUT\<close> compare the whole set of flags.\<close>

definition dispatch :: "accept_env \<Rightarrow> event \<Rightarrow> csocket \<Rightarrow> csocket res" where
  "dispatch ae ev cs =
     res_bind (if re_err ev \<or> re_hup ev then call_handler ae ev (phandler (conns cs (re_ptr ev))) cs else Inr cs)
       (\<lambda>cs.
         let only = \<not> re_err ev \<and> \<not> re_hup ev \<and> \<not> re_other ev in
         if only \<and> re_in ev \<and> \<not> re_out ev then call_handler ae ev (rhandler (conns cs (re_ptr ev))) cs
         else if only \<and> re_out ev \<and> \<not> re_in ev then call_handler ae ev (whandler (conns cs (re_ptr ev))) cs
         else Inr cs)"

fun dispatch_all :: "accept_env \<Rightarrow> event list \<Rightarrow> csocket \<Rightarrow> csocket res" where
  "dispatch_all ae [] cs = Inr cs"
| "dispatch_all ae (ev # evs) cs = res_bind (dispatch ae ev cs) (dispatch_all ae evs)"

datatype epoll_ret = E_events "event list" | E_timeout | E_fail errno

text \<open>\<^verbatim>\<open>ngx_epoll_process_events(timer)\<close>: 1 for handled events, 0 for a timeout, -1 for an error.\<close>

definition ngx_epoll_process_events :: "accept_env \<Rightarrow> int \<Rightarrow> epoll_ret \<Rightarrow> csocket \<Rightarrow> (int \<times> csocket) res" where
  "ngx_epoll_process_events ae timer r cs =
     (case r of
        E_fail e \<Rightarrow> Inr (if e = EINTR then 1 else - 1, cs)
      | E_timeout \<Rightarrow> Inr (if timer \<noteq> - 1 then 0 else - 1, cs)
      | E_events evs \<Rightarrow> res_bind (dispatch_all ae evs cs) (\<lambda>cs. Inr (1, cs)))"

section \<open>The worker's loop\<close>

text \<open>
  The callbacks of the timers: \<^verbatim>\<open>ngx_time_tofree_connection\<close> queues the connection for release,
  \<^verbatim>\<open>ngx_time_tocheck\<close> only wakes the heartbeat task.
\<close>

definition run_timer_cb :: "timer_cb \<times> conn_ptr option \<Rightarrow> csocket \<Rightarrow> csocket res" where
  "run_timer_cb cb cs =
     (case cb of
        (CB_ngx_time_tofree_connection, Some c) \<Rightarrow> Inr (ngx_time_tofree_connection c cs)
      | (CB_ngx_time_tofree_connection, None) \<Rightarrow> Inl NullDeref
      | (CB_ngx_time_tocheck, _) \<Rightarrow> Inr cs)"

text \<open>One pass of the \<^verbatim>\<open>while(true)\<close> of \<^verbatim>\<open>ngx_worker_process_cycle\<close> (\<^verbatim>\<open>proc/ngx_process_cycle.cpp\<close>).\<close>

definition worker_round :: "accept_env \<Rightarrow> epoll_ret \<Rightarrow> csocket \<Rightarrow> csocket res" where
  "worker_round ae r cs =
     res_bind (ngx_epoll_process_events ae (SetTime (e_steady (a_env ae)) (timers cs)) r cs) (\<lambda>(ret, cs).
       if ret = 0 then
         res_bind (CheckTimer (e_steady (a_env ae)) (timers cs)) (\<lambda>(cb, ts).
           let cs = cs\<lparr>timers := ts\<rparr> in
           case cb of None \<Rightarrow> Inr cs | Some x \<Rightarrow> run_timer_cb x cs)
       else Inr cs)"

section \<open>Lemmas\<close>

text \<open>A worker that can take one more connection: \<open>c\<close> is the next free one and not the last.\<close>

definition can_accept :: "csocket \<Rightarrow> conn_ptr \<Rightarrow> conn_ptr \<Rightarrow> nat \<Rightarrow> bool" where
  "can_accept cs oldc c l \<longleftrightarrow>
     m_pfree_connections cs = Some c \<and> valid_conn cs c \<and> c_next (conns cs c) \<noteq> None \<and> oldc \<noteq> c \<and>
     listening (conns cs oldc) = Some l \<and> l < length (m_ListenSocketList cs) \<and>
     port (m_ListenSocketList cs ! l) = 80 \<and> m_onlineUserCount cs \<le> m_worker_connections cs"

text \<open>The connection as \<open>accept_setup\<close> leaves it before it is registered.\<close>

definition accepted_conn :: "int \<Rightarrow> nat \<Rightarrow> nat \<Rightarrow> ngx_connection \<Rightarrow> ngx_connection" where
  "accepted_conn f l obj old =
     (handed_out f old)\<lparr>logicObj := Some obj, listening := Some l, whandler := Some H_ngx_write_request_handler,
        curStat := PKG_HD_INIT, irecvlen := 8, precvbuf := RHead 0, precvMemPointer := None,
        FloodAttackCount := 0, phandler := Some H_ngx_evhup_handler\<rparr>"

definition accepted :: "int \<Rightarrow> conn_ptr \<Rightarrow> nat \<Rightarrow> csocket \<Rightarrow> csocket" where
  "accepted f c l cs =
     cs\<lparr>m_pfree_connections := c_next (conns cs c), m_free_connection_n := m_free_connection_n cs - 1,
        obj_live := (obj_live cs)(obj_next cs := True), obj_next := obj_next cs + 1,
        m_onlineUserCount := m_onlineUserCount cs + 1,
        conns := (conns cs)(c := accepted_conn f l (obj_next cs) (conns cs c))\<rparr>"

lemma accept_upto_registration:
  assumes "can_accept cs oldc c l"
  shows "ngx_event_accept ae oldc (A_fd f # rs) cs =
     res_bind (ngx_epoll_opr_event (a_env ae) c True EPOLL_CTL_ADD (accepted f c l cs)) (\<lambda>(ok, cs).
          if ok then ngx_add_check (a_env ae) c cs else ngx_close_connection c cs)"
proof -
  let ?cs = "cs\<lparr>m_pfree_connections := c_next (conns cs c), m_free_connection_n := m_free_connection_n cs - 1\<rparr>"
  have g: "ngx_get_connection f cs = Inr (Some c, conn_put c (handed_out f (conns cs c)) ?cs)"
    using assms by (auto simp: can_accept_def ngx_get_connection_def handed_out_def Let_def)
  have ao: "ngx_event_accept ae oldc (A_fd f # rs) cs = accept_setup ae oldc c (conn_put c (handed_out f (conns cs c)) ?cs)"
    using assms g by (simp add: ngx_event_accept_def can_accept_def)
  have eq: "conn_put c (accepted_conn f l (obj_next cs) (conns cs c))
      (cs\<lparr>m_pfree_connections := c_next (conns cs c), m_free_connection_n := m_free_connection_n cs - 1,
        obj_live := (obj_live cs)(obj_next cs := True), obj_next := obj_next cs + 1,
        m_onlineUserCount := m_onlineUserCount cs + 1\<rparr>) = accepted f c l cs"
    by (simp add: accepted_def conn_put_def)
  show ?thesis
    unfolding ao using assms
    by (simp add: accept_setup_def can_accept_def new_logicobj_def conn_put_def conn_upd_def valid_conn_def Let_def
        PKGHEADERLEN_def eq [symmetric] accepted_conn_def)
qed

lemma opr_event_explicit:
  assumes "valid_conn cs c"
  shows "ngx_epoll_opr_event env c True EPOLL_CTL_ADD cs =
     Inr (e_epoll_ok env,
       (conn_put c ((conns cs c)\<lparr>rhandler := Some (if m_ETflag cs = ETOPEN then H_ngx_read_request_handler_ET
                                            else H_ngx_read_request_handler)\<rparr>) cs)
         \<lparr>epoll_set := (if e_epoll_ok env then (epoll_set cs)(fd (conns cs c) \<mapsto>
            \<lparr>ev_in = True, ev_out = False, ev_et = (m_ETflag cs = ETOPEN), ev_ptr = c\<rparr>) else epoll_set cs)\<rparr>)"
  using assms by (cases cs) (simp add: ngx_epoll_opr_event_def Let_def conn_upd_def conn_put_def valid_conn_def)

text \<open>Accepting, from the event to the connection that waits for a header.\<close>

lemma accept_ready:
  assumes a: "can_accept cs oldc c l" and e: "e_epoll_ok (a_env ae)" "\<not> m_PingMutex cs" "m_floodKickCount cs \<notin> {0, 1}"
  shows "\<exists>cs'. ngx_event_accept ae oldc (A_fd f # rs) cs = Inr cs' \<and> fd (conns cs' c) = f \<and>
     iCurrsequence (conns cs' c) = iCurrsequence (conns cs c) + 1 \<and> hdr_inv cs' c [] \<and> no_flood cs' c \<and>
     epoll_set cs' f = Some \<lparr>ev_in = True, ev_out = False, ev_et = (m_ETflag cs = ETOPEN), ev_ptr = c\<rparr> \<and>
     m_onlineUserCount cs' = m_onlineUserCount cs + 1 \<and> m_pfree_connections cs' = c_next (conns cs c) \<and>
     live_entry cs' (mem_next cs) \<and> entry_conn cs' (mem_next cs) = c \<and>
     (e_time (a_env ae), mem_next cs) \<in> set (m_timerQueuemap cs') \<and>
     (\<forall>p. p \<noteq> c \<longrightarrow> conns cs' p = conns cs p) \<and>
     logicObj (conns cs' c) = Some (obj_next cs) \<and> tasks cs' = tasks cs \<and> m_ETflag cs' = m_ETflag cs \<and>
     mem_next cs' = mem_next cs + 1 \<and> mem cs' = (mem cs)(mem_next cs := mem cs' (mem_next cs))"
proof -
  let ?env = "a_env ae"
  define s1 where "s1 = snd (projr (ngx_epoll_opr_event ?env c True EPOLL_CTL_ADD (accepted f c l cs)))"
  have v: "valid_conn (accepted f c l cs) c" using a by (simp add: can_accept_def accepted_def valid_conn_def)
  have o: "ngx_epoll_opr_event ?env c True EPOLL_CTL_ADD (accepted f c l cs) = Inr (True, s1)"
    using opr_event_explicit [OF v, of ?env] e(1) by (simp add: s1_def)
  have c1: "conns s1 = (conns cs)(c := (accepted_conn f l (obj_next cs) (conns cs c))
      \<lparr>rhandler := Some (if m_ETflag cs = ETOPEN then H_ngx_read_request_handler_ET else H_ngx_read_request_handler)\<rparr>)"
    and f1: "m_PingMutex s1 = m_PingMutex cs" "mem_next s1 = mem_next cs" "m_pconnections s1 = m_pconnections cs"
      "m_onlineUserCount s1 = m_onlineUserCount cs + 1" "m_floodKickCount s1 = m_floodKickCount cs"
      "m_pfree_connections s1 = c_next (conns cs c)" "tasks s1 = tasks cs" "m_ETflag s1 = m_ETflag cs" "mem s1 = mem cs"
      "epoll_set s1 f = Some \<lparr>ev_in = True, ev_out = False, ev_et = (m_ETflag cs = ETOPEN), ev_ptr = c\<rparr>"
    using opr_event_explicit [OF v, of ?env] e(1)
    by (simp_all add: s1_def accepted_def conn_put_def accepted_conn_def handed_out_def)
  let ?t = "(conns s1 c)\<lparr>lastPingTime := e_time ?env, storePingTime := e_time ?env\<rparr>"
  let ?cs' = "s1\<lparr>mem_next := mem_next s1 + 1, conns := (conns s1)(c := ?t),
     mem := (mem s1)(mem_next s1 \<mapsto> \<lparr>mb_header = Some \<lparr>pConn = c, hdr_sequence = iCurrsequence (conns s1 c)\<rparr>, mb_bytes = []\<rparr>),
     m_timerQueuemap := mm_insert (e_time ?env) (mem_next s1) (m_timerQueuemap s1)\<rparr>"
  have "valid_conn s1 c" using a f1(3) by (simp add: can_accept_def valid_conn_def)
  then have "ngx_add_check ?env c s1 = Inr ?cs'"
    using f1(1) e(2)
    by (cases s1) (simp add: ngx_add_check_def AllocMemory_def conn_upd_def conn_put_def mem_put_def valid_conn_def Let_def)
  then have "ngx_event_accept ae oldc (A_fd f # rs) cs = Inr ?cs'"
    using accept_upto_registration [OF a, of ae f rs] o by simp
  moreover have "hdr_inv ?cs' c []" "no_flood ?cs' c"
    using a e(3) f1(3,5)
    by (simp_all add: hdr_inv_def no_flood_def c1 accepted_conn_def handed_out_def zero_connection_def recv_defs
        can_accept_def valid_conn_def)
  moreover have "live_entry ?cs' (mem_next cs)" "entry_conn ?cs' (mem_next cs) = c"
    by (simp_all add: live_entry_def entry_conn_def msg_header_of_def mem_get_def f1)
  ultimately show ?thesis
    using f1 by (intro exI [of _ ?cs']) (simp add: c1 accepted_conn_def handed_out_def set_mm_insert)
qed

section \<open>Properties\<close>

text \<open>
  C18. An accepted connection is ready for service. When a free connection \<open>c\<close> is at hand, the limit of
  users is not exceeded and registration succeeds, accepting a socket makes \<open>c\<close> its connection: it has a
  new sequence number, waits for the first byte of a header with an untouched flood count, reports
  readability to the event loop, is counted once, and is under the heartbeat check with the present
  time. So the next message on it is framed as \<open>message_framed\<close> says.
\<close>

theorem accepted_connection_ready:
  assumes a: "can_accept cs oldc c l" and e: "e_epoll_ok (a_env ae)" "\<not> m_PingMutex cs" "m_floodKickCount cs \<notin> {0, 1}"
  shows "\<exists>cs'. ngx_event_accept ae oldc (A_fd f # rs) cs = Inr cs' \<and> fd (conns cs' c) = f \<and>
     iCurrsequence (conns cs' c) = iCurrsequence (conns cs c) + 1 \<and> hdr_inv cs' c [] \<and> no_flood cs' c \<and>
     epoll_set cs' f = Some \<lparr>ev_in = True, ev_out = False, ev_et = (m_ETflag cs = ETOPEN), ev_ptr = c\<rparr> \<and>
     m_onlineUserCount cs' = m_onlineUserCount cs + 1 \<and> m_pfree_connections cs' = c_next (conns cs c) \<and>
     live_entry cs' (mem_next cs) \<and> entry_conn cs' (mem_next cs) = c \<and>
     (e_time (a_env ae), mem_next cs) \<in> set (m_timerQueuemap cs') \<and>
     (\<forall>p. p \<noteq> c \<longrightarrow> conns cs' p = conns cs p)"
  using accept_ready [OF assms, of f rs] by blast

text \<open>A worker with two free connections besides the one of its listening socket on port 80.\<close>

definition sample_listener :: csocket where
  "sample_listener =
     sample_socket\<lparr>m_pconnections := [3], m_ListenSocketList := [\<lparr>port = 80, l_fd = 4, l_connection = Some (0, 0)\<rparr>],
       conns := (\<lambda>_. zero_connection)((0, 0) := zero_connection\<lparr>fd := 4, listening := Some 0\<rparr>,
         (0, 1) := zero_connection\<lparr>c_next := Some (0, 2)\<rparr>),
       m_pfree_connections := Some (0, 1)\<rparr>"

definition sample_aenv :: accept_env where
  "sample_aenv = \<lparr>a_env = sample_env, a_nonblocking_ok = True, a_tls_accepts = True\<rparr>"

lemma sample_listener_can: "can_accept sample_listener (0, 0) (0, 1) 0"
  by (simp add: can_accept_def sample_listener_def valid_conn_def sample_socket_def)

theorem accepted_connection_ready_witness:
  "can_accept sample_listener (0, 0) (0, 1) 0 \<and>
   (\<exists>cs'. ngx_event_accept sample_aenv (0, 0) [A_fd 9] sample_listener = Inr cs' \<and> fd (conns cs' (0, 1)) = 9 \<and>
      hdr_inv cs' (0, 1) [] \<and> m_onlineUserCount cs' = 1)"
proof -
  have e: "e_epoll_ok (a_env sample_aenv)" "\<not> m_PingMutex sample_listener" "m_floodKickCount sample_listener \<notin> {0, 1}"
    and o: "m_onlineUserCount sample_listener = 0"
    by (simp_all add: sample_aenv_def sample_env_def sample_listener_def sample_socket_def)
  obtain cs' where "ngx_event_accept sample_aenv (0, 0) [A_fd 9] sample_listener = Inr cs'" "fd (conns cs' (0, 1)) = 9"
    "hdr_inv cs' (0, 1) []" "m_onlineUserCount cs' = m_onlineUserCount sample_listener + 1"
    using accepted_connection_ready [OF sample_listener_can e, of 9 "[]"] by blast
  then show ?thesis using sample_listener_can o by simp
qed

text \<open>
  A connection whose registration fails is given back to the pool and its socket closed, but it stays
  counted: \<^verbatim>\<open>m_onlineUserCount\<close> has grown by one and no later handler takes it back. Since connections are
  refused when the count exceeds \<^verbatim>\<open>m_worker_connections\<close>, the worker loses room for one user for good.
\<close>

theorem failed_registration_stays_counted:
  assumes a: "can_accept cs oldc c l" and e: "\<not> e_epoll_ok (a_env ae)" and f: "f \<noteq> - 1"
  shows "\<exists>cs'. ngx_event_accept ae oldc (A_fd f # rs) cs = Inr cs' \<and>
     m_onlineUserCount cs' = m_onlineUserCount cs + 1 \<and> m_pfree_connections cs' = Some c \<and>
     m_free_connection_n cs' = m_free_connection_n cs \<and> closed_fds cs' = f # closed_fds cs \<and>
     fd (conns cs' c) = - 1 \<and> c_next (conns cs' c) = c_next (conns cs c) \<and> epoll_set cs' = epoll_set cs"
proof -
  have v: "valid_conn (accepted f c l cs) c" using a by (simp add: can_accept_def accepted_def valid_conn_def)
  show ?thesis
    unfolding accept_upto_registration [OF a] opr_event_explicit [OF v]
    using e f v
    by (auto simp: ngx_close_connection_def ngx_free_connection_def conn_upd_def conn_put_def valid_conn_def delete_obj_def
        accepted_def accepted_conn_def handed_out_def)
qed

theorem failed_registration_stays_counted_witness:
  "\<exists>cs'. ngx_event_accept (sample_aenv\<lparr>a_env := sample_env\<lparr>e_epoll_ok := False\<rparr>\<rparr>) (0, 0) [A_fd 9] sample_listener = Inr cs' \<and>
     m_onlineUserCount cs' = 1 \<and> m_pfree_connections cs' = Some (0, 1)"
proof -
  let ?ae = "sample_aenv\<lparr>a_env := sample_env\<lparr>e_epoll_ok := False\<rparr>\<rparr>"
  have e: "\<not> e_epoll_ok (a_env ?ae)" "(9 :: int) \<noteq> - 1" and o: "m_onlineUserCount sample_listener = 0"
    by (simp_all add: sample_listener_def sample_socket_def)
  show ?thesis
    using failed_registration_stays_counted [OF sample_listener_can e, of "[]"] o by auto
qed

end
