(* ===== verification/HttpCond.thy ===== *)
theory HttpCond
  imports HttpReply
begin

text \<open>
  Requests with conditions: the header fields that decide about a reply (\<^verbatim>\<open>If-Modified-Since\<close>, \<^verbatim>\<open>Range\<close>, \<^verbatim>\<open>Cookie\<close>)
  beside those that do not, the code that \<^verbatim>\<open>do_request\<close> gives under the conditions, and the replies 200, 206 and 304
  with the lines that the callbacks write (\<^verbatim>\<open>logic/ngx_c_http_parheader.cpp\<close>, \<^verbatim>\<open>logic/ngx_c_http_callback.cpp\<close>,
  \<^verbatim>\<open>logic/ngx_c_http_mothodfunc.cpp\<close>).
\<close>

section \<open>Header fields\<close>

datatype field =
    Host_field string
  | Connection_field string
  | Accept_field string
  | Since_field string
  | Range_field nat nat
  | Cookie_field string string

fun render :: "field \<Rightarrow> string \<times> string" where
  "render (Host_field v) = (''Host'', v)"
| "render (Connection_field v) = (''Connection'', v)"
| "render (Accept_field v) = (''Accept'', v)"
| "render (Since_field d) = (''If-Modified-Since'', SP # d)"
| "render (Range_field a b) = (''Range'', '' bytes='' @ to_string (int a) @ ''-'' @ to_string (int b))"
| "render (Cookie_field n v) = (''Cookie'', SP # n @ ''='' @ v)"

definition text_ok :: "string \<Rightarrow> bool" where
  "text_ok s \<longleftrightarrow> set s \<inter> {NUL, CR, LF} = {}"

definition word_ok :: "string \<Rightarrow> bool" where
  "word_ok s \<longleftrightarrow> text_ok s \<and> (s = [] \<or> hd s \<notin> {SP, TAB})"

fun field_ok :: "field \<Rightarrow> bool" where
  "field_ok (Host_field v) \<longleftrightarrow> text_ok v"
| "field_ok (Connection_field v) \<longleftrightarrow> text_ok v"
| "field_ok (Accept_field v) \<longleftrightarrow> text_ok v \<and> CHR '';'' \<notin> set v"
| "field_ok (Since_field d) \<longleftrightarrow> word_ok d"
| "field_ok (Range_field a b) \<longleftrightarrow> int a \<le> INT_MAX \<and> int b \<le> INT_MAX"
| "field_ok (Cookie_field n v) \<longleftrightarrow> word_ok n \<and> n \<noteq> [] \<and> CHR ''='' \<notin> set n \<and> text_ok v"

text \<open>What a field does to the conditions of the request.\<close>

fun field_eff :: "http_env \<Rightarrow> field \<Rightarrow> conditions \<Rightarrow> conditions" where
  "field_eff env (Since_field d) c = c\<lparr>since := strtime_convert_time_t env d\<rparr>"
| "field_eff env (Range_field a b) c = c\<lparr>r_start := int a, r_end := int b, cond_cbs := cond_cbs c @ [CB_range]\<rparr>"
| "field_eff env (Cookie_field n v) c = c\<lparr>cookie := True\<rparr>"
| "field_eff env _ c = c"

section \<open>Lemmas: the functions of the fields\<close>

lemma since_handled:
  assumes "m_read_buffer h = pre @ (SP # d) @ NUL # post" "word_ok d"
  shows "If_Modified_Since_func env (length pre) h =
    Inr (NO_REQUEST, h\<lparr>m_if_modified_since_time := strtime_convert_time_t env d\<rparr>)"
  using value_str [of h pre "[SP]" d post] assms by (simp add: If_Modified_Since_func_def word_ok_def text_ok_def)

lemma accept_handled:
  assumes "m_read_buffer h = pre @ v @ NUL # post" "text_ok v" "CHR '';'' \<notin> set v"
  shows "Accept_func env (length pre) h = Inr (NO_REQUEST, h)"
proof -
  obtain bl s where v: "v = bl @ s" "set bl \<subseteq> {SP, TAB}" "s = [] \<or> hd s \<notin> {SP, TAB}" by (rule value_blanks)
  have s: "NUL \<notin> set s" "CHR '';'' \<notin> set s" using assms(2,3) v(1) by (auto simp: text_ok_def)
  have "skip_blanks h (length pre) = length pre + length bl"
    using value_str(1) [of h pre bl s post] assms(1) v s by simp
  moreover have "strchr (m_read_buffer h) (length pre + length bl) (CHR '';'') = None"
    using strchr_line_None [of "m_read_buffer h" "pre @ bl" s post] assms(1) v(1) s by simp
  ultimately show ?thesis by (simp add: Accept_func_def)
qed

lemma cookie_handled:
  assumes b: "m_read_buffer h = pre @ (SP # n @ ''='' @ v) @ NUL # post" and n: "word_ok n" "n \<noteq> []" "CHR ''='' \<notin> set n" "text_ok v"
  shows "Cookie_func (length pre) h =
    Inr (NO_REQUEST, h\<lparr>m_read_buffer := pre @ (SP # n @ NUL # v) @ NUL # post,
      m_cookie_value := Some (length pre + 1 + length n + 1), m_cookie_name := Some (length pre + 1)\<rparr>)"
proof -
  have nn: "NUL \<notin> set (n @ CHR ''='' # v)" using n by (auto simp: word_ok_def text_ok_def)
  have "skip_blanks h (length pre) = length pre + 1"
    using value_str(1) [of h pre "[SP]" "n @ ''='' @ v" post] b n(1,2) nn by (simp add: word_ok_def)
  moreover have "strchr (m_read_buffer h) (length pre + 1) (CHR ''='') = Some (length pre + 1 + length n)"
    using strchr_line [of "m_read_buffer h" "pre @ [SP]" n "CHR ''=''" v post "length pre + 1"] b n(3) nn by simp
  moreover have "put_nul (length pre + 1 + length n) h = Inr (h\<lparr>m_read_buffer := pre @ (SP # n @ NUL # v) @ NUL # post\<rparr>)"
    using put_nul_at [of h "pre @ SP # n" "CHR ''=''" "v @ NUL # post" "length pre + 1 + length n"] b by simp
  ultimately show ?thesis by (simp add: Cookie_func_def)
qed

lemma to_string_nat_chars: "c \<in> set (to_string (int n)) \<Longrightarrow> isdigit c"
  using nat_to_string_digits [of n] by (simp add: to_string_def)

lemma range_handled:
  assumes b: "m_read_buffer h = pre @ ('' bytes='' @ to_string (int x) @ ''-'' @ to_string (int y)) @ NUL # post"
    and i: "int x \<le> INT_MAX" "int y \<le> INT_MAX"
  shows "Range_func (length pre) h =
    Inr (NO_REQUEST, h\<lparr>m_read_buffer := pre @ ('' bytes='' @ to_string (int x) @ NUL # to_string (int y)) @ NUL # post,
      m_range_start := int x, m_range_end := int y, m_header_func_vec := m_header_func_vec h @ [CB_range]\<rparr>)"
proof -
  let ?a = "to_string (int x)" and ?b = "to_string (int y)"
  let ?t = "length pre + 7 + length ?a"
  let ?h1 = "h\<lparr>m_read_buffer := pre @ ('' bytes='' @ ?a @ NUL # ?b) @ NUL # post\<rparr>"
  have nn: "NUL \<notin> set ?a" "NUL \<notin> set ?b" by simp_all
  have m: "CHR ''-'' \<notin> set ?a" using to_string_nat_chars [of "CHR ''-''" x] by (auto simp: isdigit_def)
  have v: "skip_blanks h (length pre) = length pre + 1" "str_at h (length pre + 1) = Inr (''bytes='' @ ?a @ ''-'' @ ?b)"
    using value_str [of h pre "[SP]" "''bytes='' @ ?a @ ''-'' @ ?b" post] b nn by simp_all
  have s: "strchr (m_read_buffer h) (length pre + 7) (CHR ''-'') = Some ?t"
    using strchr_line [of "m_read_buffer h" "pre @ '' bytes=''" ?a "CHR ''-''" ?b post "length pre + 7"] b m nn by simp
  have p: "put_nul ?t h = Inr ?h1"
    using put_nul_at [of h "pre @ '' bytes='' @ ?a" "CHR ''-''" "?b @ NUL # post" ?t] b by simp
  have a: "str_at ?h1 (length pre + 7) = Inr ?a" "str_at ?h1 (?t + 1) = Inr ?b"
    using str_at_line [of ?h1 "pre @ '' bytes=''" ?a "?b @ NUL # post" "length pre + 7"]
      str_at_line [of ?h1 "pre @ '' bytes='' @ ?a @ [NUL]" ?b post "?t + 1"] nn by simp_all
  have n: "stoi ?a = Inr (int x)" "stoi ?b = Inr (int y)"
    using stoi_to_string [of "int x" "[]"] stoi_to_string [of "int y" "[]"] i by (simp_all add: INT_MIN_def)
  have "strncasecmp0 (''bytes='' @ ?a @ ''-'' @ ?b) ''bytes='' 6" by (simp add: strncasecmp0_def)
  then show ?thesis
    unfolding Range_func_def Let_def using v s p a n by (simp add: eval_nat_numeral)
qed

lemma text_ok_simps [simp]:
  "text_ok (a @ b) \<longleftrightarrow> text_ok a \<and> text_ok b" "text_ok (c # a) \<longleftrightarrow> c \<notin> {NUL, CR, LF} \<and> text_ok a" "text_ok []"
  by (auto simp: text_ok_def)

lemma text_ok_to_string [simp]: "text_ok (to_string (int n))"
  using to_string_nat_chars [of _ n] by (fastforce simp: text_ok_def isdigit_def)

lemma field_chars:
  "field_ok f \<Longrightarrow> fst (render f) \<noteq> [] \<and> set (fst (render f)) \<inter> {NUL, CR, LF, CHR '':''} = {} \<and> text_ok (snd (render f))"
  by (cases f) (simp_all add: word_ok_def)

lemma table_entries:
  "parse_header_func_map env ''Accept'' = Some (Accept_func env)"
  "parse_header_func_map env ''If-Modified-Since'' = Some (If_Modified_Since_func env)"
  "parse_header_func_map env ''Range'' = Some Range_func" "parse_header_func_map env ''Cookie'' = Some Cookie_func"
  by (simp_all add: parse_header_func_map_def)

lemma handledI:
  assumes "parse_header_func_map env name = Some g" "g (length pre) h = Inr (NO_REQUEST, h')"
    "m_read_buffer h' = pre @ val' @ NUL # post" "length val' = length val"
    "line_view h' = line_view h" "idx_view h' = idx_view h" "conditions_of h' = c"
  shows "\<exists>g h' val'. parse_header_func_map env name = Some g \<and> g (length pre) h = Inr (NO_REQUEST, h') \<and>
        m_read_buffer h' = pre @ val' @ NUL # post \<and> length val' = length val \<and>
        line_view h' = line_view h \<and> idx_view h' = idx_view h \<and> conditions_of h' = c"
  using assms by blast

lemma field_handled:
  assumes ok: "field_ok f" and b: "m_read_buffer h = pre @ snd (render f) @ NUL # post"
  shows "\<exists>g h' val'. parse_header_func_map env (fst (render f)) = Some g \<and> g (length pre) h = Inr (NO_REQUEST, h') \<and>
        m_read_buffer h' = pre @ val' @ NUL # post \<and> length val' = length (snd (render f)) \<and>
        line_view h' = line_view h \<and> idx_view h' = idx_view h \<and> conditions_of h' = field_eff env f (conditions_of h)"
proof (cases f)
  case (Host_field v)
  then show ?thesis using inert_value_func [of "''Host''" h pre v post env] ok b by (force simp: text_ok_def)
next
  case (Connection_field v)
  then show ?thesis using inert_value_func [of "''Connection''" h pre v post env] ok b by (force simp: text_ok_def)
next
  case (Accept_field v)
  have f: "Accept_func env (length pre) h = Inr (NO_REQUEST, h)"
    by (rule accept_handled) (use Accept_field ok b in auto)
  show ?thesis
    unfolding Accept_field using Accept_field b by (intro handledI [where g = "Accept_func env", OF _ f _ refl]) (simp_all add: table_entries)
next
  case (Since_field d)
  have f: "If_Modified_Since_func env (length pre) h =
      Inr (NO_REQUEST, h\<lparr>m_if_modified_since_time := strtime_convert_time_t env d\<rparr>)"
    by (rule since_handled) (use Since_field ok b in auto)
  show ?thesis
    unfolding Since_field using Since_field b
    by (intro handledI [where g = "If_Modified_Since_func env", OF _ f _ refl]) (simp_all add: table_entries line_view_def idx_view_def conditions_of_def)
next
  case (Range_field x y)
  have f: "Range_func (length pre) h = Inr (NO_REQUEST,
      h\<lparr>m_read_buffer := pre @ ('' bytes='' @ to_string (int x) @ NUL # to_string (int y)) @ NUL # post,
        m_range_start := int x, m_range_end := int y, m_header_func_vec := m_header_func_vec h @ [CB_range]\<rparr>)"
    by (rule range_handled) (use Range_field ok b in \<open>simp_all\<close>)
  show ?thesis
    unfolding Range_field
    by (rule handledI [where g = Range_func and val' = "'' bytes='' @ to_string (int x) @ NUL # to_string (int y)", OF _ f]) (simp_all add: table_entries line_view_def idx_view_def conditions_of_def)
next
  case (Cookie_field n v)
  have f: "Cookie_func (length pre) h = Inr (NO_REQUEST,
      h\<lparr>m_read_buffer := pre @ (SP # n @ NUL # v) @ NUL # post,
        m_cookie_value := Some (length pre + 1 + length n + 1), m_cookie_name := Some (length pre + 1)\<rparr>)"
    by (rule cookie_handled) (use Cookie_field ok b in auto)
  show ?thesis
    unfolding Cookie_field
    by (rule handledI [where g = Cookie_func and val' = "SP # n @ NUL # v", OF _ f]) (simp_all add: table_entries line_view_def idx_view_def conditions_of_def)
qed

interpretation http_fields: header_fields field_ok render field_eff
proof
  fix f :: field and name val :: string and h :: HttpServer and pre post :: string and env :: http_env
  assume f: "field_ok f" "render f = (name, val)"
  show "name \<noteq> [] \<and> set name \<inter> {NUL, CR, LF, CHR '':''} = {} \<and> set val \<inter> {NUL, CR, LF} = {}"
    using field_chars [OF f(1)] f(2) by (simp add: text_ok_def)
  assume "m_read_buffer h = pre @ val @ NUL # post"
  then show "\<exists>g h' val'. parse_header_func_map env name = Some g \<and> g (length pre) h = Inr (NO_REQUEST, h') \<and>
        m_read_buffer h' = pre @ val' @ NUL # post \<and> length val' = length val \<and>
        line_view h' = line_view h \<and> idx_view h' = idx_view h \<and> conditions_of h' = field_eff env f (conditions_of h)"
    using field_handled [OF f(1), of h pre post env] f(2) by simp
qed

section \<open>The specification of the code\<close>

text \<open>What \<^verbatim>\<open>do_request\<close> is to answer for a file under conditions, and the conditions a list of fields makes.\<close>

definition range_taken :: "conditions \<Rightarrow> file_info \<Rightarrow> bool" where
  "range_taken c st \<longleftrightarrow> r_start c \<noteq> 0 \<and> r_end c \<noteq> 0 \<and> 0 \<le> r_start c \<and> r_end c \<le> int (length (f_content st))"

definition respond :: "http_env \<Rightarrow> string \<Rightarrow> conditions \<Rightarrow> http_code" where
  "respond env path c =
     (case h_stat env (LOCAL_FILE_ADDR @ path) of
        None \<Rightarrow> NO_RESOURCE
      | Some st \<Rightarrow>
          if f_dir st then BAD_REQUEST
          else if \<not> f_other_readable st then FORBIDDEN_REQUEST
          else if since c \<noteq> 0 \<and> f_mtime st \<le> since c then NOT_MODIFIED
          else if \<not> f_opens st \<or> f_content st = [] then INTERNAL_ERROR
          else if range_taken c st then PARTIAL_CONTENT
          else FILE_REQUEST)"

definition conditions_for :: "http_env \<Rightarrow> field list \<Rightarrow> conditions" where
  "conditions_for env fs = fold (field_eff env) fs no_conditions"

text \<open>The fields never touch the buffers.\<close>

lemma field_eff_steady:
  "unsince (field_eff env f c) = unsince c" "fname (field_eff env f c) = fname c" "wbuf (field_eff env f c) = wbuf c"
  "widx (field_eff env f c) = widx c"
  by (cases f; simp)+

lemma conditions_for_steady [simp]:
  "unsince (conditions_for env fs) = 0" "fname (conditions_for env fs) = replicate FILENAME_LEN NUL"
  "wbuf (conditions_for env fs) = replicate WRITE_BUFFER_SIZE NUL" "widx (conditions_for env fs) = 0"
proof -
  have "unsince (fold (field_eff env) fs c) = unsince c \<and> fname (fold (field_eff env) fs c) = fname c \<and>
      wbuf (fold (field_eff env) fs c) = wbuf c \<and> widx (fold (field_eff env) fs c) = widx c" for c
    by (induction fs arbitrary: c) (simp_all add: field_eff_steady)
  then show "unsince (conditions_for env fs) = 0" "fname (conditions_for env fs) = replicate FILENAME_LEN NUL"
    "wbuf (conditions_for env fs) = replicate WRITE_BUFFER_SIZE NUL" "widx (conditions_for env fs) = 0"
    by (simp_all add: conditions_for_def no_conditions_def)
qed

lemma conditions_of_iff:
  "conditions_of h = c \<longleftrightarrow> m_if_modified_since_time h = since c \<and> m_if_unmodified_since_time h = unsince c \<and>
     m_range_start h = r_start c \<and> m_range_end h = r_end c \<and> (m_cookie_value h \<noteq> None) = cookie c \<and>
     m_header_func_vec h = cond_cbs c \<and> m_filename h = fname c \<and> m_write_buffer h = wbuf c \<and> m_write_idx h = widx c"
  by (cases c) (simp add: conditions_of_def)

text \<open>The callbacks after \<^verbatim>\<open>do_request\<close>: that of the date comes last.\<close>

definition all_cbs :: "conditions \<Rightarrow> header_cb list" where
  "all_cbs c = cond_cbs c @ (if since c \<noteq> 0 then [CB_if_modified_since_func] else [])"

text \<open>What the reply is made from.\<close>

definition sent_len :: "conditions \<Rightarrow> http_code \<Rightarrow> file_info \<Rightarrow> int" where
  "sent_len c code st =
     wrap32 (if code = PARTIAL_CONTENT then r_end c - r_start c + 1 else int (length (f_content st)))"

lemma do_request_responds:
  assumes u: "m_url h = Some u" "str_at h u = Inr path" "m_method h \<noteq> OPTIONS" "m_content_length h = 0"
    and c: "conditions_of h = c" "unsince c = 0" "fname c = replicate FILENAME_LEN NUL"
    and p: "NUL \<notin> set path" "10 + length path < 200"
  shows "\<exists>h'. do_request env h = Inr (respond env path c, h') \<and> m_method h' = m_method h \<and>
     m_write_buffer h' = wbuf c \<and> m_write_idx h' = widx c \<and> m_range_start h' = r_start c \<and> m_range_end h' = r_end c \<and>
     (m_cookie_value h' \<noteq> None) = cookie c \<and> m_check_idx h' = m_check_idx h \<and>
     (if respond env path c \<in> {FILE_REQUEST, PARTIAL_CONTENT}
      then \<exists>st. h_stat env (LOCAL_FILE_ADDR @ path) = Some st \<and> m_stat h' = Some st \<and> m_file_ptr h' = Some (f_content st) \<and>
        m_content_length h' = sent_len c (respond env path c) st \<and> m_header_func_vec h' = all_cbs c
      else m_content_length h' = 0)"
proof -
  obtain fn where fn: "poke 0 LOCAL_FILE_ADDR (m_filename h) = Inr (LOCAL_FILE_ADDR @ replicate 190 NUL)"
    "poke 10 path (LOCAL_FILE_ADDR @ replicate 190 NUL) = Inr fn" "NUL \<in> set fn" "cstr fn = LOCAL_FILE_ADDR @ path"
    using cstr_filename [OF p] c by (auto simp: conditions_of_iff)
  have cs: "m_if_modified_since_time h = since c" "m_if_unmodified_since_time h = 0" "m_range_start h = r_start c"
    "m_range_end h = r_end c" "(m_cookie_value h \<noteq> None) = cookie c" "m_header_func_vec h = cond_cbs c"
    "m_write_buffer h = wbuf c" "m_write_idx h = widx c"
    using c by (auto simp: conditions_of_iff)
  show ?thesis
  proof (cases "h_stat env (LOCAL_FILE_ADDR @ path)")
    case None
    then show ?thesis using u fn cs by (simp add: do_request_def respond_def)
  next
    case (Some st)
    then show ?thesis
      using u fn cs
      by (simp add: do_request_def respond_def Let_def all_cbs_def sent_len_def range_taken_def not_le not_less)
  qed
qed


section \<open>The specification of the reply\<close>

text \<open>
  The lines of the callbacks for the range from \<open>s\<close> to \<open>e\<close>; a range that the file does not cover is refused with
  one line and taken for the whole file by the callbacks behind.
\<close>

fun cb_text :: "http_env \<Rightarrow> file_info \<Rightarrow> int \<Rightarrow> int \<Rightarrow> header_cb list \<Rightarrow> string" where
  "cb_text env st s e [] = []"
| "cb_text env st s e (CB_if_modified_since_func # cbs) =
     ''Last-Modified: '' @ h_strftime env (f_mtime st) @ CRLF @ cb_text env st s e cbs"
| "cb_text env st s e (CB_range # cbs) =
     (if 0 \<le> s \<and> e \<le> int (length (f_content st))
      then ''Accept: bytes '' @ to_string s @ ''-'' @ to_string e @ [CHR 0x5C] @ to_string (wrap32 (e - s + 1)) @ CRLF @
           cb_text env st s e cbs
      else ''Accept: none'' @ CRLF @ cb_text env st 0 (wrap32 (int (length (f_content st)))) cbs)"

definition cookie_text :: "http_env \<Rightarrow> string" where
  "cookie_text env =
     ''Set-Cookie: sid61'' @ to_string (h_now env) @ ''zyf; expirse='' @ h_strftime env (h_now env + 300) @
     ''; path=/; domain=192.168.138.135'' @ CRLF"

text \<open>The text for a file, with status line \<open>line\<close>.\<close>

definition file_text :: "http_env \<Rightarrow> file_info \<Rightarrow> conditions \<Rightarrow> http_code \<Rightarrow> string" where
  "file_text env st c code =
     ''HTTP/1.1 '' @ (if code = PARTIAL_CONTENT then ''206 Partial Content'' else ''200 OK'') @ CRLF @
     ''Date: '' @ h_strftime env (h_now env) @ CRLF @
     ''Connect-Length: '' @ to_string (sent_len c code st) @ CRLF @
     (if code = PARTIAL_CONTENT \<or> cookie c then [] else cookie_text env) @
     cb_text env st (r_start c) (r_end c) (all_cbs c) @ CRLF"

definition cond_text :: "http_env \<Rightarrow> string \<Rightarrow> conditions \<Rightarrow> string" where
  "cond_text env path c =
     (case respond env path c of
        NO_RESOURCE \<Rightarrow> error_text 404 ''Not Found'' error_404_form
      | BAD_REQUEST \<Rightarrow> error_text 400 ''Bad Request'' error_400_form
      | FORBIDDEN_REQUEST \<Rightarrow> error_text 403 ''Forbidden'' error_403_form
      | INTERNAL_ERROR \<Rightarrow> error_text 500 ''Internal Error'' error_500_form
      | NOT_MODIFIED \<Rightarrow> ''HTTP/1.1 304 Not Modified'' @ CRLF
      | code \<Rightarrow> (case h_stat env (LOCAL_FILE_ADDR @ path) of None \<Rightarrow> [] | Some st \<Rightarrow> file_text env st c code))"

text \<open>The bytes of the file behind the text: all of them, or those from the first to the last of the range.\<close>

definition cond_part :: "http_env \<Rightarrow> string \<Rightarrow> conditions \<Rightarrow> string" where
  "cond_part env path c =
     (case h_stat env (LOCAL_FILE_ADDR @ path) of
        None \<Rightarrow> []
      | Some st \<Rightarrow>
          if respond env path c = FILE_REQUEST then f_content st
          else if respond env path c = PARTIAL_CONTENT
          then take (nat (r_end c) + 1 - nat (r_start c)) (drop (nat (r_start c)) (f_content st))
          else [])"

text \<open>A file whose size fits \<^verbatim>\<open>int\<close>, and a range that lies within it when it is taken.\<close>

definition part_ok :: "http_env \<Rightarrow> string \<Rightarrow> conditions \<Rightarrow> bool" where
  "part_ok env path c \<longleftrightarrow>
     (case h_stat env (LOCAL_FILE_ADDR @ path) of
        None \<Rightarrow> True
      | Some st \<Rightarrow> int (length (f_content st)) < 2 ^ 31 \<and>
          (range_taken c st \<longrightarrow> r_start c \<le> r_end c \<and> r_end c < int (length (f_content st))))"

section \<open>Lemmas: the reply\<close>

definition put_range :: "int \<times> int \<Rightarrow> HttpServer \<Rightarrow> HttpServer" where
  "put_range r h = h\<lparr>m_range_start := fst r, m_range_end := snd r\<rparr>"

lemma put_range_fields [simp]:
  "m_range_start (put_range r h) = fst r" "m_range_end (put_range r h) = snd r" "m_stat (put_range r h) = m_stat h"
  "m_content_length (put_range r h) = m_content_length h" "m_file_ptr (put_range r h) = m_file_ptr h"
  "m_cookie_value (put_range r h) = m_cookie_value h" "m_header_func_vec (put_range r h) = m_header_func_vec h"
  by (simp_all add: put_range_def)

lemma put_range_put_text: "put_range r (put_text t h) = put_text t (put_range r h)"
  by (simp add: put_range_def put_text_def)

lemma put_range_self: "m_range_start h = s \<Longrightarrow> m_range_end h = e \<Longrightarrow> put_range (s, e) h = h"
  by (cases h) (simp add: put_range_def)

lemma put_range_twice [simp]: "put_range r (put_range r' h) = put_range r h"
  by (simp add: put_range_def)

text \<open>The range after the callbacks.\<close>

fun cb_range :: "file_info \<Rightarrow> int \<times> int \<Rightarrow> header_cb list \<Rightarrow> int \<times> int" where
  "cb_range st r [] = r"
| "cb_range st r (CB_if_modified_since_func # cbs) = cb_range st r cbs"
| "cb_range st r (CB_range # cbs) =
     cb_range st (if 0 \<le> fst r \<and> snd r \<le> int (length (f_content st)) then r else (0, wrap32 (int (length (f_content st))))) cbs"

lemma put_res_prefix: "\<not> length t \<le> WRITE_BUFFER_SIZE \<Longrightarrow> put_res (t @ u) h = Inl OutOfBounds"
  by (simp add: put_res_def)

lemma run_cbs_put:
  assumes "m_stat h = Some st" "length t \<le> WRITE_BUFFER_SIZE"
  shows "run_header_cbs env cbs (put_text t (put_range r h)) =
     put_res (t @ cb_text env st (fst r) (snd r) cbs) (put_range (cb_range st r cbs) h)"
  using assms(2)
proof (induction cbs arbitrary: t r)
  case Nil
  then show ?case by (simp add: put_res_def)
next
  case (Cons cb cbs)
  show ?case
  proof (cases cb)
    case CB_if_modified_since_func
    then show ?thesis
      using Cons assms(1) by (auto simp: if_modified_since_func_def put_res_prefix) (simp add: put_res_def)
  next
    case CB_range
    have z: "add_senddata args (put_text t (put_range r h)\<lparr>m_range_start := a, m_range_end := b\<rparr>) =
        put_res (t @ concat (map arg_text args)) (put_range (a, b) h)" for args a b
    proof -
      have "put_text t (put_range r h)\<lparr>m_range_start := a, m_range_end := b\<rparr> = put_text t (put_range (a, b) h)"
        by (simp add: put_text_def put_range_def)
      then show ?thesis using Cons.prems by simp
    qed
    show ?thesis
      using CB_range Cons assms(1) by (auto simp: range_cb_def z not_le put_res_prefix) (simp_all add: put_res_def)
  qed
qed


lemma cb_range_within: "0 \<le> s \<Longrightarrow> e \<le> int (length (f_content st)) \<Longrightarrow> cb_range st (s, e) cbs = (s, e)"
  by (induction st "(s, e)" cbs rule: cb_range.induct) simp_all

lemma file_put:
  assumes h: "put_text [] h = h" "m_stat h = Some st" "(m_cookie_value h \<noteq> None) = cookie c" "m_header_func_vec h = all_cbs c"
    "m_content_length h = sent_len c FILE_REQUEST st" "m_range_start h = r_start c" "m_range_end h = r_end c"
  shows "GET_func env FILE_REQUEST h =
    res_bind (put_res (file_text env st c FILE_REQUEST) (put_range (cb_range st (r_start c, r_end c) (all_cbs c)) h))
      (\<lambda>h. Inr (three_iov 0 (sent_len c FILE_REQUEST st) h))"
proof -
  have r: "put_range (r_start c, r_end c) h = h" using h(6,7) by (rule put_range_self)
  note cbs = run_cbs_put [OF h(2), of _ env _ "(r_start c, r_end c)", unfolded r]
  have "GET_func env FILE_REQUEST (put_text [] h) =
    res_bind (put_res (file_text env st c FILE_REQUEST) (put_range (cb_range st (r_start c, r_end c) (all_cbs c)) h))
      (\<lambda>h. Inr (three_iov 0 (sent_len c FILE_REQUEST st) h))"
    using h(3-5)
    by (auto simp: GET_func_def add_status_line_def add_date_def add_blank_line_def add_cookie_put get_cookie_value_def
      file_text_def cookie_text_def cbs put_res_def)
  then show ?thesis unfolding h(1) .
qed

lemma part_put:
  assumes h: "put_text [] h = h" "m_stat h = Some st" "m_header_func_vec h = all_cbs c"
    "m_range_start h = r_start c" "m_range_end h = r_end c" and t: "range_taken c st"
  shows "GET_func env PARTIAL_CONTENT h =
    res_bind (put_res (file_text env st c PARTIAL_CONTENT) h)
      (\<lambda>h. Inr (three_iov (r_start c) (sent_len c PARTIAL_CONTENT st) h))"
proof -
  have r: "put_range (r_start c, r_end c) h = h" using h(4,5) by (rule put_range_self)
  have w: "cb_range st (r_start c, r_end c) cbs = (r_start c, r_end c)" for cbs
    using t by (intro cb_range_within) (auto simp: range_taken_def)
  note cbs = run_cbs_put [OF h(2), of _ env _ "(r_start c, r_end c)", unfolded w r]
  have "GET_func env PARTIAL_CONTENT (put_text [] h) =
    res_bind (put_res (file_text env st c PARTIAL_CONTENT) h)
      (\<lambda>h. Inr (three_iov (r_start c) (sent_len c PARTIAL_CONTENT st) h))"
    using h(3-5)
    by (auto simp: GET_func_def add_status_line_def add_date_def add_blank_line_def
      file_text_def cbs put_res_def sent_len_def)
  then show ?thesis unfolding h(1) .
qed

lemma respond_file:
  assumes "respond env path c \<in> {FILE_REQUEST, PARTIAL_CONTENT}" "h_stat env (LOCAL_FILE_ADDR @ path) = Some st"
  shows "range_taken c st \<longleftrightarrow> respond env path c = PARTIAL_CONTENT"
  using assms by (auto simp: respond_def split: if_splits)

lemma respond_range:
  "respond env path c \<in> {NO_RESOURCE, BAD_REQUEST, FORBIDDEN_REQUEST, INTERNAL_ERROR, NOT_MODIFIED, FILE_REQUEST, PARTIAL_CONTENT}"
  by (simp add: respond_def split: option.split)

lemma respond_cases:
  obtains "respond env path c = NO_RESOURCE" | "respond env path c = BAD_REQUEST" | "respond env path c = FORBIDDEN_REQUEST"
    | "respond env path c = INTERNAL_ERROR" | "respond env path c = NOT_MODIFIED"
    | "respond env path c \<in> {FILE_REQUEST, PARTIAL_CONTENT}"
  using respond_range [of env path c] by blast

text \<open>The reply written, as text, or a text that the write buffer does not hold.\<close>

definition replied :: "string \<Rightarrow> string \<Rightarrow> HttpServer \<Rightarrow> HttpServer res \<Rightarrow> bool" where
  "replied t part h r \<longleftrightarrow>
     (if length t \<le> WRITE_BUFFER_SIZE
      then \<exists>h'. r = Inr h' \<and> m_write_buffer h' = m_write_buffer (put_text t h) \<and> m_content_length h' = int (length part) \<and>
        m_method h' = m_method h \<and> m_check_idx h' = m_check_idx h \<and> m_read_buffer h' = m_read_buffer h \<and>
        wire_text h' = take (length t) (m_write_buffer (put_text t h)) @ part \<and>
        iov_total h' = 8 + int (length t) + int (length part)
      else r = Inl OutOfBounds)"

lemma replied_two:
  "m_content_length h = 0 \<Longrightarrow> replied t [] h (res_bind (put_res t h) (\<lambda>h. Inr (two_iov h)))"
  by (auto simp: replied_def two_iov_def wire_text_def iov_total_def) (simp_all add: put_text_def)

lemma replied_three:
  assumes "m_file_ptr h = Some f" "m_content_length h = int (length part)" "0 \<le> s" "part = take (nat len) (drop (nat s) f)"
    "len = int (length part)"
  shows "replied t part h (res_bind (put_res t (put_range r h)) (\<lambda>h. Inr (three_iov s len h)))"
proof -
  let ?h = "put_text t (put_range r h)"
  let ?h' = "three_iov s len ?h"
  have b: "m_write_buffer ?h' = m_write_buffer (put_text t h)" by (simp add: three_iov_def put_text_def put_range_def)
  have "m_content_length ?h' = int (length part)" "m_method ?h' = m_method h" "m_check_idx ?h' = m_check_idx h"
    "m_read_buffer ?h' = m_read_buffer h"
    using assms(2) by (simp_all add: three_iov_def put_text_def put_range_def)
  moreover have "iov_total ?h' = 8 + int (length t) + int (length part)" using assms(5) by (simp add: three_iov_def iov_total_def)
  moreover have "m_file_ptr ?h' = Some f" "m_iov ?h' = [I_pkg_header, I_write (length t), I_file s len]"
    using assms(1) by (simp_all add: three_iov_def)
  then have "wire_text ?h' = take (length t) (m_write_buffer (put_text t h)) @ part"
    using b assms(4) by (simp add: wire_text_def)
  ultimately show ?thesis using b by (simp add: replied_def)
qed


text \<open>The object that \<^verbatim>\<open>do_request\<close> leaves for the reply.\<close>

definition answering :: "http_env \<Rightarrow> string \<Rightarrow> conditions \<Rightarrow> HttpServer \<Rightarrow> bool" where
  "answering env path c h \<longleftrightarrow>
     put_text [] h = h \<and> m_range_start h = r_start c \<and> m_range_end h = r_end c \<and> (m_cookie_value h \<noteq> None) = cookie c \<and>
     (if respond env path c \<in> {FILE_REQUEST, PARTIAL_CONTENT}
      then \<exists>st. h_stat env (LOCAL_FILE_ADDR @ path) = Some st \<and> m_stat h = Some st \<and> m_file_ptr h = Some (f_content st) \<and>
        m_content_length h = sent_len c (respond env path c) st \<and> m_header_func_vec h = all_cbs c
      else m_content_length h = 0)"

lemma cond_part_len:
  assumes "part_ok env path c" "h_stat env (LOCAL_FILE_ADDR @ path) = Some st" "respond env path c \<in> {FILE_REQUEST, PARTIAL_CONTENT}"
  shows "int (length (cond_part env path c)) = sent_len c (respond env path c) st"
proof -
  have "respond env path c = FILE_REQUEST \<or> range_taken c st \<and> respond env path c = PARTIAL_CONTENT"
    using respond_file [OF assms(3,2)] assms(3) by auto
  then show ?thesis
    using assms(1,2) by (elim disjE) (auto simp: cond_part_def sent_len_def part_ok_def range_taken_def wrap32_small)
qed

lemma error_replied:
  assumes a: "answering env path c h" and e: "respond env path c \<notin> {FILE_REQUEST, PARTIAL_CONTENT}"
  shows "replied (cond_text env path c) (cond_part env path c) h (GET_func env (respond env path c) h)"
proof -
  have p: "put_text [] h = h" and len: "m_content_length h = 0" using a e by (simp_all add: answering_def)
  have np: "cond_part env path c = []" using e by (simp add: cond_part_def split: option.split)
  note er = error_reply_put [of "[]" _ _ _ h, unfolded p, simplified]
  have nm: "add_status_line 304 ''Not Modified'' h = put_res (''HTTP/1.1 304 Not Modified'' @ CRLF) h"
    using add_senddata_put [of "[]" _ h, unfolded p] by (simp add: add_status_line_def)
  have "GET_func env (respond env path c) h = res_bind (put_res (cond_text env path c) h) (\<lambda>h. Inr (two_iov h))"
    by (rule respond_cases [of env path c]; use e in \<open>simp add: cond_text_def GET_func_def er nm del: bind_put_res\<close>)
  then show ?thesis using replied_two [OF len] np by simp
qed

lemma file_replied:
  assumes a: "answering env path c h" and ok: "part_ok env path c" and f: "respond env path c \<in> {FILE_REQUEST, PARTIAL_CONTENT}"
  shows "replied (cond_text env path c) (cond_part env path c) h (GET_func env (respond env path c) h)"
proof -
  obtain st where st: "h_stat env (LOCAL_FILE_ADDR @ path) = Some st" "m_stat h = Some st" "m_file_ptr h = Some (f_content st)"
      "m_content_length h = sent_len c (respond env path c) st" "m_header_func_vec h = all_cbs c"
    using a f by (auto simp: answering_def)
  have r: "put_text [] h = h" "m_range_start h = r_start c" "m_range_end h = r_end c" "(m_cookie_value h \<noteq> None) = cookie c"
    using a by (auto simp: answering_def)
  note len = cond_part_len [OF ok st(1) f]
  have t: "cond_text env path c = file_text env st c (respond env path c)"
    using f st(1) by (auto simp: cond_text_def)
  show ?thesis
  proof (cases "respond env path c = FILE_REQUEST")
    case True
    have p: "cond_part env path c = f_content st" using True st(1) by (simp add: cond_part_def)
    have g: "GET_func env FILE_REQUEST h =
        res_bind (put_res (file_text env st c FILE_REQUEST) (put_range (cb_range st (r_start c, r_end c) (all_cbs c)) h))
          (\<lambda>h. Inr (three_iov 0 (sent_len c FILE_REQUEST st) h))"
      using file_put [OF r(1) st(2) r(4) st(5) _ r(2,3)] st(4) True by simp
    have n: "nat (sent_len c FILE_REQUEST st) = length (f_content st)" using len p True by simp
    have q: "f_content st = take (nat (sent_len c FILE_REQUEST st)) (drop (nat 0) (f_content st))" by (simp add: n)
    show ?thesis
      unfolding t True g p by (rule replied_three [OF st(3) _ _ q]) (use st(4) len p True in simp_all)
  next
    case False
    then have P: "respond env path c = PARTIAL_CONTENT" "range_taken c st" using f respond_file [OF f st(1)] by auto
    have q: "0 \<le> r_start c" "r_start c \<le> r_end c" using P(2) ok st(1) by (auto simp: part_ok_def range_taken_def)
    have p: "cond_part env path c = take (nat (sent_len c PARTIAL_CONTENT st)) (drop (nat (r_start c)) (f_content st))"
      using P ok st(1) q
      by (auto simp: cond_part_def sent_len_def part_ok_def wrap32_small nat_diff_distrib nat_add_distrib intro!: arg_cong2 [where f = take])
    have g: "GET_func env PARTIAL_CONTENT h =
        res_bind (put_res (file_text env st c PARTIAL_CONTENT) (put_range (r_start c, r_end c) h))
          (\<lambda>h. Inr (three_iov (r_start c) (sent_len c PARTIAL_CONTENT st) h))"
      using part_put [OF r(1) st(2) st(5) r(2,3) P(2), of env] put_range_self [OF r(2,3)] by simp
    show ?thesis
      unfolding t P(1) g by (rule replied_three) (use st(3,4) len p P(1) q in simp_all)
  qed
qed

lemma GET_replied:
  assumes "answering env path c h" "part_ok env path c"
  shows "replied (cond_text env path c) (cond_part env path c) h (GET_func env (respond env path c) h)"
  using error_replied [OF assms(1)] file_replied [OF assms] by blast


lemma cb_text_NUL: "clock_ok env \<Longrightarrow> NUL \<notin> set (cb_text env st s e cbs)"
  by (induction env st s e cbs rule: cb_text.induct) (simp_all add: clock_ok_def)

lemma cond_text_NUL: "clock_ok env \<Longrightarrow> NUL \<notin> set (cond_text env path c)"
proof -
  assume c: "clock_ok env"
  have e: "NUL \<notin> set (error_text n title form)" if "NUL \<notin> set title" "NUL \<notin> set form" for n title form
    using that by (simp add: error_text_def)
  have f: "NUL \<notin> set (file_text env st c code)" for st code
    using c cb_text_NUL [OF c] by (simp add: file_text_def cookie_text_def clock_ok_def)
  show ?thesis
    by (rule respond_cases [of env path c]; use f e in \<open>auto simp: cond_text_def error_404_form_def error_400_form_def
      error_403_form_def error_500_form_def split: option.split\<close>)
qed

text \<open>From the request to the code and the object that \<^verbatim>\<open>do_request\<close> leaves.\<close>

lemma fields_read:
  assumes g: "good_line word host path" "list_all field_ok fs" "length path < 190" and o: "method_of word GET \<noteq> OPTIONS"
  shows "\<exists>h. process_read env (load_request (request word host path (map render fs)) (init_http old)) =
      Inr (respond env path (conditions_for env fs), h) \<and> m_method h = method_of word GET \<and>
      m_check_idx h = length (request word host path (map render fs)) \<and> answering env path (conditions_for env fs) h"
proof -
  let ?c = "conditions_for env fs"
  have pn: "NUL \<notin> set path" using g(1) by (auto simp: good_line_def plain_def)
  obtain h1 u where h1: "process_read env (load_request (request word host path (map render fs)) (init_http old)) = do_request env h1"
    "m_url h1 = Some u" "str_at h1 u = Inr path" "m_method h1 = method_of word GET"
    "m_check_idx h1 = length (request word host path (map render fs))" "m_content_length h1 = 0" "conditions_of h1 = ?c"
    using http_fields.parsed [OF g(1,2), of env old] by (auto simp: conditions_for_def)
  obtain h2 where h2: "do_request env h1 = Inr (respond env path ?c, h2)" "m_method h2 = m_method h1"
     "m_write_buffer h2 = wbuf ?c" "m_write_idx h2 = widx ?c" "m_range_start h2 = r_start ?c" "m_range_end h2 = r_end ?c"
     "(m_cookie_value h2 \<noteq> None) = cookie ?c" "m_check_idx h2 = m_check_idx h1"
     "if respond env path ?c \<in> {FILE_REQUEST, PARTIAL_CONTENT}
      then \<exists>st. h_stat env (LOCAL_FILE_ADDR @ path) = Some st \<and> m_stat h2 = Some st \<and> m_file_ptr h2 = Some (f_content st) \<and>
        m_content_length h2 = sent_len ?c (respond env path ?c) st \<and> m_header_func_vec h2 = all_cbs ?c
      else m_content_length h2 = 0"
    using do_request_responds [OF h1(2,3) _ h1(6,7), of env] h1(4) o g(3) pn by auto
  have "put_text [] h2 = h2" using h2(3,4) by (intro put_text_empty) simp_all
  then have "answering env path ?c h2" using h2(5-7,9) unfolding answering_def by blast
  then show ?thesis using h1 h2(1,2,8) by auto
qed

text \<open>A \<^verbatim>\<open>GET\<close> request with fields from the message to the parts of the reply.\<close>

lemma fields_business:
  assumes g: "good_line word host path" "list_all field_ok fs" "length path < 190" "method_of word GET = GET"
    and c: "clock_ok env" "part_ok env path (conditions_for env fs)"
  shows "case Business env (request word host path (map render fs)) (init_http old) of
      Inl e \<Rightarrow> e = OutOfBounds \<and> WRITE_BUFFER_SIZE \<le> length (cond_text env path (conditions_for env fs))
    | Inr (pkgLen, h') \<Rightarrow> length (cond_text env path (conditions_for env fs)) < WRITE_BUFFER_SIZE \<and>
        wire_text h' = cond_text env path (conditions_for env fs) @ cond_part env path (conditions_for env fs) \<and>
        iov_total h' = 8 + int (length (wire_text h')) \<and> uint pkgLen = iov_total h' mod 65536 \<and>
        length (m_read_buffer h') = length (request word host path (map render fs))"
proof -
  let ?c = "conditions_for env fs"
  let ?t = "cond_text env path ?c" and ?p = "cond_part env path ?c"
  let ?body = "request word host path (map render fs)"
  obtain h where h: "process_read env (load_request ?body (init_http old)) = Inr (respond env path ?c, h)" "m_method h = GET"
    "answering env path ?c h"
    using fields_read [OF g(1-3), of env old] g(4) by auto
  have w: "process_write env (respond env path ?c) h = GET_func env (respond env path ?c) h" using h(2) by (simp add: process_write_def)
  note r = GET_replied [OF h(3) c(2)]
  consider "WRITE_BUFFER_SIZE < length ?t" | "WRITE_BUFFER_SIZE = length ?t" | "length ?t < WRITE_BUFFER_SIZE" by linarith
  then show ?thesis
  proof cases
    case 1
    then show ?thesis using r h(1) w by (simp add: replied_def Business_def)
  next
    case 2
    then obtain h' where h': "GET_func env (respond env path ?c) h = Inr h'" "m_write_buffer h' = ?t"
      using r by (auto simp: replied_def put_text_def)
    then show ?thesis using 2 h(1) w cond_text_NUL [OF c(1)] by (simp add: Business_def)
  next
    case 3
    note fit = 3 cond_text_NUL [OF c(1), of path ?c]
    obtain h' where h': "GET_func env (respond env path ?c) h = Inr h'" "m_write_buffer h' = m_write_buffer (put_text ?t h)"
      "m_content_length h' = int (length ?p)" "wire_text h' = ?t @ ?p" "iov_total h' = 8 + int (length ?t) + int (length ?p)"
      "m_read_buffer h' = m_read_buffer h"
      using r 3 put_text_cstr(3) [OF fit, of h] by (auto simp: replied_def)
    have "length (m_read_buffer h') = length ?body"
      using process_read_loop_len [OF h(1) [unfolded process_read_def]] h'(6) by (simp add: load_request_def)
    then show ?thesis
      using Business_put [OF h(1) _ h'(2) fit] w h' 3 by (auto simp: algebra_simps)
  qed
qed


text \<open>
  How long a text can get: an \<^verbatim>\<open>int\<close> has at most 20 characters here, so every callback writes at most 100.
\<close>

definition int32 :: "int \<Rightarrow> bool" where
  "int32 i \<longleftrightarrow> - (2 ^ 31) \<le> i \<and> i < 2 ^ 31"

lemma int32_wrap32 [simp]: "int32 (wrap32 i)"
  using pos_mod_bound [of "2 ^ 32" "i + 2 ^ 31"] pos_mod_sign [of "2 ^ 32" "i + 2 ^ 31"] by (simp add: int32_def wrap32_def)

lemma int32_string: "int32 i \<Longrightarrow> length (to_string i) \<le> 20"
  by (rule length_to_string) (auto simp: int32_def abs_if)

lemma cb_text_length:
  "clock_ok env \<Longrightarrow> int32 s \<Longrightarrow> int32 e \<Longrightarrow> length (cb_text env st s e cbs) \<le> 100 * length cbs"
proof (induction env st s e cbs rule: cb_text.induct)
  case (2 env st s e cbs)
  have "length (h_strftime env (f_mtime st)) \<le> 29" using 2(2) by (simp add: clock_ok_def)
  then show ?case using 2 by simp
next
  case (3 env st s e cbs)
  note l = int32_string [OF 3(4)] int32_string [OF 3(5)] int32_string [of "wrap32 (e - s + 1)"]
  have z: "int32 0" by (simp add: int32_def)
  show ?case
  proof (cases "0 \<le> s \<and> e \<le> int (length (f_content st))")
    case True
    then show ?thesis using 3(1) [OF True 3(3-5)] l by simp
  next
    case False
    then show ?thesis using 3(2) [OF False 3(3) z] by auto
  qed
qed simp

fun ranges :: "field list \<Rightarrow> nat" where
  "ranges [] = 0"
| "ranges (Range_field a b # fs) = Suc (ranges fs)"
| "ranges (_ # fs) = ranges fs"

lemma conditions_for_ranges:
  assumes "list_all field_ok fs"
  shows "length (cond_cbs (conditions_for env fs)) = ranges fs" "int32 (r_start (conditions_for env fs))" "int32 (r_end (conditions_for env fs))"
proof -
  have "length (cond_cbs (fold (field_eff env) fs c)) = length (cond_cbs c) + ranges fs \<and>
     (int32 (r_start c) \<longrightarrow> int32 (r_start (fold (field_eff env) fs c))) \<and>
     (int32 (r_end c) \<longrightarrow> int32 (r_end (fold (field_eff env) fs c)))" for c
    using assms
  proof (induction fs arbitrary: c rule: ranges.induct)
    case (2 a b fs)
    then show ?case using 2(1) [of "field_eff env (Range_field a b) c"] by (simp add: int32_def INT_MAX_def)
  qed simp_all
  from this [of no_conditions]
  show "length (cond_cbs (conditions_for env fs)) = ranges fs" "int32 (r_start (conditions_for env fs))" "int32 (r_end (conditions_for env fs))"
    by (simp_all add: conditions_for_def no_conditions_def int32_def)
qed

lemma cond_text_length:
  assumes c: "clock_ok env" and f: "list_all field_ok fs"
  shows "length (cond_text env path (conditions_for env fs)) < 1100 + 100 * ranges fs"
proof -
  let ?c = "conditions_for env fs"
  note er = error_text_fits [of error_404_form "''Not Found''" 404] error_text_fits [of error_400_form "''Bad Request''" 400]
    error_text_fits [of error_403_form "''Forbidden''" 403] error_text_fits [of error_500_form "''Internal Error''" 500]
  have d: "length (h_strftime env t) \<le> 29" for t using c by (simp add: clock_ok_def)
  have n: "length (to_string (h_now env)) \<le> 20" by (rule length_to_string) (use c in \<open>auto simp: clock_ok_def\<close>)
  have "length (file_text env st ?c code) < 1100 + 100 * ranges fs" for st code
    using cb_text_length [OF c conditions_for_ranges(2,3) [OF f, of env], of st "all_cbs ?c"] conditions_for_ranges(1) [OF f, of env]
      d [of "h_now env"] d [of "h_now env + 300"] n int32_string [of "sent_len ?c code st"]
    by (simp add: file_text_def cookie_text_def all_cbs_def sent_len_def split: if_splits)
  then show ?thesis
    by (cases rule: respond_cases [of env path ?c]) (use er in \<open>auto simp: cond_text_def
      error_404_form_def error_400_form_def error_403_form_def error_500_form_def split: option.split\<close>)
qed


text \<open>Texts that do not fit: every repetition of a range that is taken adds its line.\<close>

lemma repeated_range:
  "fold (field_eff env) (replicate n (Range_field a b)) c =
     (if n = 0 then c else c\<lparr>r_start := int a, r_end := int b, cond_cbs := cond_cbs c @ replicate n CB_range\<rparr>)"
  by (induction n arbitrary: c) (auto simp: replicate_append_same)

lemma cb_text_repeated:
  "0 \<le> s \<Longrightarrow> e \<le> int (length (f_content st)) \<Longrightarrow> 17 * n \<le> length (cb_text env st s e (replicate n CB_range))"
  by (induction n) simp_all

section \<open>Properties\<close>

text \<open>An environment in which every date is read as the time 9, later than the sample file.\<close>

definition dated_env :: http_env where
  "dated_env = sample_http_env\<lparr>h_strptime := (\<lambda>_. Some 9)\<rparr>"

lemma sample_stat [simp]:
  "h_stat sample_http_env (LOCAL_FILE_ADDR @ ''/a'') = Some sample_file" "h_stat dated_env (LOCAL_FILE_ADDR @ ''/a'') = Some sample_file"
  "clock_ok sample_http_env"
  by (simp_all add: dated_env_def sample_http_env_def LOCAL_FILE_ADDR_def clock_ok_def)

lemma sample_line [simp]:
  "good_line ''GET'' ''h'' ''/a''" "method_of ''GET'' GET = GET"
  by (auto simp: good_line_def plain_def method_of_def strcasecmp0_def)

text \<open>
  C6. A well formed request is decided as specified, with all the conditions its fields state. On an object fresh
  from its constructor, a request in absolute form (any method word but \<^verbatim>\<open>OPTIONS\<close>, any host, a path of fewer than
  190 characters) with any number of \<^verbatim>\<open>Host\<close>, \<^verbatim>\<open>Connection\<close>, \<^verbatim>\<open>Accept\<close>, \<^verbatim>\<open>If-Modified-Since\<close>, \<^verbatim>\<open>Range\<close> and \<^verbatim>\<open>Cookie\<close>
  fields, in any order, makes \<^verbatim>\<open>process_read\<close> return, with no fault, the code that \<open>respond\<close> gives for the file
  \<^verbatim>\<open>./Resource\<close> followed by the path under the conditions of the fields: missing, a directory, not readable, not
  modified since the date, not to be opened, a part of it, or all of it. For a file that is to be sent, its contents
  are mapped and the content length is the number of bytes to be sent.
\<close>

theorem request_refines_respond:
  assumes "good_line word host path" "list_all field_ok fs" "length path < 190" "method_of word GET \<noteq> OPTIONS"
  shows "\<exists>h. process_read env (load_request (request word host path (map render fs)) (init_http old)) =
      Inr (respond env path (conditions_for env fs), h) \<and> m_method h = method_of word GET \<and>
      (respond env path (conditions_for env fs) \<in> {FILE_REQUEST, PARTIAL_CONTENT} \<longrightarrow>
        (\<exists>st. h_stat env (LOCAL_FILE_ADDR @ path) = Some st \<and> m_file_ptr h = Some (f_content st) \<and>
          m_content_length h = sent_len (conditions_for env fs) (respond env path (conditions_for env fs)) st))"
  using fields_read [OF assms, of env old] by (auto simp: answering_def)

theorem request_refines_respond_witness:
  "\<exists>h. process_read dated_env (load_request (request ''GET'' ''h'' ''/a'' (map render [Range_field 1 3, Since_field ''Tue'']))
      (init_http blank_http)) = Inr (NOT_MODIFIED, h)"
proof -
  have r: "respond dated_env ''/a'' (conditions_for dated_env [Range_field 1 3, Since_field ''Tue'']) = NOT_MODIFIED"
    by (simp add: respond_def conditions_for_def no_conditions_def strtime_convert_time_t_def)
      (simp add: dated_env_def sample_file_def)
  show ?thesis
    using request_refines_respond [of "''GET''" "''h''" "''/a''" "[Range_field 1 3, Since_field ''Tue'']" dated_env blank_http] r
    by (auto simp: word_ok_def INT_MAX_def)
qed

text \<open>
  C7. A \<^verbatim>\<open>GET\<close> request with conditions is answered with exactly the specified reply, or the write buffer is
  overrun. On a fresh object, for a well formed request with any fields, a path of fewer than 190 characters, a file
  of fewer than 2 GiB and a range that lies within the file when it is taken: when the specified text is shorter than
  the write buffer, \<^verbatim>\<open>Business\<close> returns, and what goes on the wire behind the package header is this text (an error,
  304, or the header of a 200 or 206 reply with its date, cookie and the lines of the callbacks) followed by all of
  the file or exactly the bytes of the range, with the number of bytes sent as the length, reduced to 16 bits;
  otherwise, and only then, \<^verbatim>\<open>Business\<close> writes or reads behind the end of the buffer.
\<close>

theorem conditional_get_answered:
  assumes "good_line word host path" "list_all field_ok fs" "length path < 190" "method_of word GET = GET"
    and "clock_ok env" "part_ok env path (conditions_for env fs)"
  shows "case Business env (request word host path (map render fs)) (init_http old) of
      Inl e \<Rightarrow> e = OutOfBounds \<and> WRITE_BUFFER_SIZE \<le> length (cond_text env path (conditions_for env fs))
    | Inr (pkgLen, h') \<Rightarrow> length (cond_text env path (conditions_for env fs)) < WRITE_BUFFER_SIZE \<and>
        wire_text h' = cond_text env path (conditions_for env fs) @ cond_part env path (conditions_for env fs) \<and>
        iov_total h' = 8 + int (length (wire_text h')) \<and> uint pkgLen = iov_total h' mod 65536"
  using fields_business [OF assms, of old] by (auto split: sum.splits)

lemma sample_range:
  "respond sample_http_env ''/a'' (conditions_for sample_http_env [Range_field 1 3]) = PARTIAL_CONTENT"
  "part_ok sample_http_env ''/a'' (conditions_for sample_http_env [Range_field 1 3])"
  "cond_part sample_http_env ''/a'' (conditions_for sample_http_env [Range_field 1 3]) = ''ell''"
proof -
  have c: "conditions_for sample_http_env [Range_field 1 3] = no_conditions\<lparr>r_start := 1, r_end := 3, cond_cbs := [CB_range]\<rparr>"
    by (simp add: conditions_for_def no_conditions_def)
  have t: "range_taken (conditions_for sample_http_env [Range_field 1 3]) sample_file"
    unfolding c by (simp add: range_taken_def sample_file_def)
  show r: "respond sample_http_env ''/a'' (conditions_for sample_http_env [Range_field 1 3]) = PARTIAL_CONTENT"
    using t unfolding respond_def sample_stat(1) c by (simp add: no_conditions_def sample_file_def)
  show "part_ok sample_http_env ''/a'' (conditions_for sample_http_env [Range_field 1 3])"
    unfolding part_ok_def sample_stat(1) c by (simp add: sample_file_def)
  show "cond_part sample_http_env ''/a'' (conditions_for sample_http_env [Range_field 1 3]) = ''ell''"
    unfolding cond_part_def sample_stat(1) r unfolding c by (simp add: sample_file_def numeral_3_eq_3)
qed

theorem conditional_get_answered_witness:
  "\<exists>pkgLen h'. Business sample_http_env (request ''GET'' ''h'' ''/a'' (map render [Range_field 1 3])) (init_http blank_http) = Inr (pkgLen, h') \<and>
     wire_text h' = cond_text sample_http_env ''/a'' (conditions_for sample_http_env [Range_field 1 3]) @ ''ell''"
proof -
  have f: "list_all field_ok [Range_field 1 3]" by (simp add: INT_MAX_def)
  have "length (cond_text sample_http_env ''/a'' (conditions_for sample_http_env [Range_field 1 3])) < WRITE_BUFFER_SIZE"
    using cond_text_length [OF sample_stat(3) f, of "''/a''"] by (simp add: WRITE_BUFFER_SIZE_def)
  then show ?thesis
    using conditional_get_answered [of "''GET''" "''h''" "''/a''" "[Range_field 1 3]" sample_http_env blank_http] f sample_range
    by (auto split: sum.splits)
qed

text \<open>
  C19. Replies with few \<^verbatim>\<open>Range\<close> fields fit. For every file, every date and every other field, a request with at most
  29 \<^verbatim>\<open>Range\<close> fields never overruns the write buffer of \<^verbatim>\<open>WRITE_BUFFER_SIZE\<close> bytes: \<^verbatim>\<open>Business\<close> returns.
\<close>

theorem few_ranges_answered:
  assumes "good_line word host path" "list_all field_ok fs" "length path < 190" "method_of word GET = GET"
    and "clock_ok env" "part_ok env path (conditions_for env fs)" and r: "ranges fs < 30"
  shows "\<exists>pkgLen h'. Business env (request word host path (map render fs)) (init_http old) = Inr (pkgLen, h')"
  using fields_business [OF assms(1-6), of old] cond_text_length [OF assms(5,2), of path] r
  by (auto simp: WRITE_BUFFER_SIZE_def split: sum.splits)

theorem few_ranges_answered_witness:
  "\<exists>pkgLen h'. Business sample_http_env (request ''GET'' ''h'' ''/a'' (map render [Range_field 1 3])) (init_http blank_http) = Inr (pkgLen, h')"
  using few_ranges_answered [of "''GET''" "''h''" "''/a''" "[Range_field 1 3]" sample_http_env blank_http] sample_range(2)
  by (simp add: INT_MAX_def)

text \<open>
  C34. Many \<^verbatim>\<open>Range\<close> fields overrun the write buffer. Every \<^verbatim>\<open>Range\<close> field leaves a callback that writes a line of at
  least 17 characters, without a test of the room: a request for a file that is served in part, with the same range
  repeated so often that these lines alone fill the buffer, makes \<^verbatim>\<open>Business\<close> write behind its end.
\<close>

theorem many_ranges_overrun:
  assumes "good_line word host path" "length path < 190" "method_of word GET = GET" "clock_ok env"
    and st: "h_stat env (LOCAL_FILE_ADDR @ path) = Some st" "\<not> f_dir st" "f_other_readable st" "f_opens st"
    and r: "0 < a" "a \<le> b" "b < length (f_content st)" "length (f_content st) < 2 ^ 31" and n: "WRITE_BUFFER_SIZE \<le> 17 * n"
  shows "Business env (request word host path (map render (replicate n (Range_field a b)))) (init_http old) = Inl OutOfBounds"
proof -
  let ?fs = "replicate n (Range_field a b)"
  let ?c = "conditions_for env ?fs"
  have n0: "n \<noteq> 0" using n by (auto simp: WRITE_BUFFER_SIZE_def)
  have c: "?c = no_conditions\<lparr>r_start := int a, r_end := int b, cond_cbs := replicate n CB_range\<rparr>"
    unfolding conditions_for_def repeated_range using n0 by (simp add: no_conditions_def)
  have t: "range_taken ?c st" "part_ok env path ?c" using r st by (auto simp: c range_taken_def part_ok_def)
  have p: "respond env path ?c = PARTIAL_CONTENT" using t(1) st r by (auto simp: respond_def c no_conditions_def)
  have "17 * n \<le> length (cond_text env path ?c)"
    using cb_text_repeated [of "int a" "int b" st n env] r by (simp add: cond_text_def p st file_text_def all_cbs_def) (simp add: c no_conditions_def)
  moreover have "list_all field_ok ?fs" using r by (simp add: list_all_iff INT_MAX_def)
  ultimately show ?thesis
    using fields_business [OF assms(1) _ assms(2,3,4) t(2), of old] n by (auto split: sum.splits)
qed

theorem many_ranges_overrun_witness:
  "Business sample_http_env (request ''GET'' ''h'' ''/a'' (map render (replicate 250 (Range_field 1 3)))) (init_http blank_http) = Inl OutOfBounds"
  using many_ranges_overrun [of "''GET''" "''h''" "''/a''" sample_http_env sample_file 1 3 250 blank_http]
  by (simp add: WRITE_BUFFER_SIZE_def) (simp add: sample_file_def)

end
