(* ===== verification/Pipeline.thy ===== *)
theory Pipeline
  imports Accept HttpCond HttpSession
begin

text \<open>
  The path of a request through the program: the event loop accepts the connection and receives the message, the
  thread pool takes the queued task and runs it, \<^verbatim>\<open>HttpServer\<close> answers and the sender passes the reply to the kernel.
  The definitions join those of the components the way \<^verbatim>\<open>CThread::WorkThread\<close> does (\<^verbatim>\<open>misc/ngx_c_threadpool.cpp\<close>); the
  theorems are about the whole path.
\<close>

section \<open>Running tasks\<close>

text \<open>
  A stretch of the body of a task, as bound by the code that queues it: \<open>rs\<close> and \<open>ws\<close> are the answers of the kernel to
  reads and writes. The result says whether the task has returned. The first three bodies run to their end. The two
  checking tasks are \<^verbatim>\<open>while(true)\<close> loops: a stretch of them is one round, and they return in a round that finds
  \<^verbatim>\<open>m_shutdown\<close> set, and in no other.
\<close>

definition returned :: "csocket res \<Rightarrow> (bool \<times> csocket) res" where
  "returned r = res_bind r (\<lambda>cs. Inr (True, cs))"

fun run_task :: "business_fun \<Rightarrow> env \<Rightarrow> read_ret list \<Rightarrow> write_ret list \<Rightarrow> task \<Rightarrow> csocket \<Rightarrow> (bool \<times> csocket) res" where
  "run_task business env rs ws (T_threadRecvProcFunc obj p) cs = returned (threadRecvProcFunc business env ws obj p cs)"
| "run_task business env rs ws (T_sendRemainMsg c) cs = returned (sendRemainMsg env ws c cs)"
| "run_task business env rs ws (T_recvproc_ET c) cs = returned (recvproc_ET business env ws c rs cs)"
| "run_task business env rs ws T_ngx_time_check cs =
     res_bind (ngx_time_check_round env cs) (\<lambda>(goes_on, cs). Inr (\<not> goes_on, cs))"
| "run_task business env rs ws T_ngx_timer_free_connection cs =
     res_bind (ngx_timer_free_connection_round cs) (\<lambda>cs'. Inr (m_shutdown cs, cs'))"

text \<open>
  A worker process: its socket object and the tasks that threads of the pool have taken from the queue and that have
  not returned. A thread takes the first task of the queue; a thread with a task runs a stretch of it, and gives the
  task up when it has returned. How many threads there are is the matter of \<^verbatim>\<open>ThreadPool\<close>; here there is always one more.
\<close>

type_synonym worker = "csocket \<times> task list"

fun take_task :: "worker \<Rightarrow> worker res" where
  "take_task (cs, running) =
     (case tasks cs of [] \<Rightarrow> Inl Blocked | t # ts \<Rightarrow> Inr (cs\<lparr>tasks := ts\<rparr>, t # running))"

fun run_started :: "business_fun \<Rightarrow> env \<Rightarrow> read_ret list \<Rightarrow> write_ret list \<Rightarrow> nat \<Rightarrow> worker \<Rightarrow> worker res" where
  "run_started business env rs ws i (cs, running) =
     (if i < length running then
        res_bind (run_task business env rs ws (running ! i) cs)
          (\<lambda>(ended, cs). Inr (cs, if ended then take i running @ drop (i + 1) running else running))
      else Inl Blocked)"

text \<open>A thread of the pool takes the first task and runs it at once, whatever other threads run.\<close>

definition run_next :: "business_fun \<Rightarrow> env \<Rightarrow> read_ret list \<Rightarrow> write_ret list \<Rightarrow> worker \<Rightarrow> worker res" where
  "run_next business env rs ws w = res_bind (take_task w) (run_started business env rs ws 0)"

section \<open>Lemmas\<close>

lemma framed_business:
  "framed cs c (pkg_header (of_nat (8 + length body)) CMD_BUSINESS crc @ map u8_of_char body) =
   business_block c (iCurrsequence (conns cs c)) crc body"
  by (simp add: framed_def business_block_def)

lemma same_reading_hdr:
  "same_reading (conns cs' c) (conns cs c) \<Longrightarrow> valid_conn cs' c = valid_conn cs c \<Longrightarrow> hdr_inv cs' c got = hdr_inv cs c got"
  by (simp add: same_reading_def hdr_inv_def)

text \<open>The task of a message with an answer, run from a queue that holds just it.\<close>

lemma run_answered:
  assumes "valid_conn cs c" "m_ETflag cs = ETCLOSE" "\<not> logicPorcMutex (conns cs c)"
    and "mem cs q = Some (business_block c (iCurrsequence (conns cs c)) crc body)" "body \<noteq> []" "length body < 65528"
    and "http_answer env objs ob body = Some n" "list_all (retried (ucast n)) rs"
    and t: "tasks cs = [T_threadRecvProcFunc (Some ob) (Some q)]"
  shows "\<exists>cs'. run_next (http_business env objs) e rd (rs @ W_sent (unat n) # ws) (cs, running) = Inr (cs', running) \<and>
     mem cs' = (mem cs)(q := None) \<and> \<not> logicPorcMutex (conns cs' c) \<and> isendlen (conns cs' c) = 0 \<and> tasks cs' = [] \<and>
     same_reading (conns cs' c) (conns cs c) \<and> valid_conn cs' c"
proof -
  let ?cs = "cs\<lparr>tasks := []\<rparr>"
  have "valid_conn ?cs c" "m_ETflag ?cs = ETCLOSE \<Longrightarrow> \<not> logicPorcMutex (conns ?cs c)"
    "mem ?cs q = Some (business_block c (iCurrsequence (conns ?cs c)) crc body)"
    using assms(1,3,4) by (simp_all add: valid_conn_def)
  from http.reply_taken [OF this assms(5-8), of e ws] show ?thesis
    using t assms(1) by (auto simp: run_next_def returned_def valid_conn_def)
qed

section \<open>Properties\<close>

text \<open>
  C1. A client is served. A client connects to port 80 of a level triggered worker that has room for it, and sends a
  well formed \<^verbatim>\<open>GET\<close> request with any fields in a business message of at most 29000 bytes, the package header in any
  pieces and the body in at most two. Then the connection is accepted, exactly one task is queued, and a thread of the
  pool that takes this task, whatever tasks the other threads run, and runs it with a kernel that takes the reply (after any
  number of interrupted attempts) sends the text that the specification gives for the file and the conditions of the
  fields, followed by the bytes of the file. Afterwards no task and no message memory is left over, the connection's mutex is
  free, and the connection waits for the next header. \<^verbatim>\<open>WriteData\<close> gives the answer of such a write when the first
  attempt is taken. (A later attempt can only be taken when the reply has no file, as the mapping is given up with the
  first one.)
\<close>

theorem client_served:
  assumes a: "can_accept cs oldc c l" "e_epoll_ok (a_env ae)" "\<not> m_PingMutex cs" "m_floodKickCount cs \<notin> {0, 1}"
      "m_ETflag cs = ETCLOSE" "tasks cs = []" "mem cs (mem_next cs + 1) = None"
    and o: "objs (obj_next cs) = init_http old"
    and g: "good_line word host path" "list_all field_ok fs" "length path < 190" "method_of word GET = GET"
    and c: "clock_ok henv" "part_ok henv path (conditions_for henv fs)"
    and body: "body = request word host path (map render fs)" "8 + length body \<le> 29000"
    and hs: "concat hs = pkg_header (of_nat (8 + length body)) CMD_BUSINESS crc" "[] \<notin> set hs"
    and bs: "concat bs = map u8_of_char body" "[] \<notin> set bs" "length bs \<le> 2"
    and reply: "reply = cond_text henv path (conditions_for henv fs) @ cond_part henv path (conditions_for henv fs)"
      "length (cond_text henv path (conditions_for henv fs)) < WRITE_BUFFER_SIZE" "8 + length reply < 65536"
    and rs: "list_all (retried (of_nat (8 + length reply))) rs"
  shows "\<exists>cs1 cs2 cs3 pkgLen h. ngx_event_accept ae oldc (A_fd f # fds) cs = Inr cs1 \<and>
     read_events env c (map R_data (hs @ bs)) cs1 = Inr cs2 \<and>
     tasks cs2 = [T_threadRecvProcFunc (Some (obj_next cs)) (Some (mem_next cs1))] \<and>
     Business henv body (objs (obj_next cs)) = Inr (pkgLen, h) \<and> wire_text h = reply \<and> unat pkgLen = 8 + length reply \<and>
     http_writes [K_take (8 + length reply)] True h = [W_sent (8 + length reply)] \<and>
     run_next (http_business henv objs) e rd (rs @ W_sent (8 + length reply) # ws) (cs2, running) = Inr (cs3, running) \<and>
     tasks cs3 = [] \<and> mem cs3 = mem cs1 \<and> hdr_inv cs3 c [] \<and> \<not> logicPorcMutex (conns cs3 c)"
proof -
  obtain cs1 where cs1: "ngx_event_accept ae oldc (A_fd f # fds) cs = Inr cs1" "hdr_inv cs1 c []" "no_flood cs1 c"
    "logicObj (conns cs1 c) = Some (obj_next cs)" "tasks cs1 = []" "m_ETflag cs1 = ETCLOSE" "mem_next cs1 = mem_next cs + 1"
    "mem cs1 = (mem cs)(mem_next cs := mem cs1 (mem_next cs))"
    using accept_ready [OF a(1-4), of f fds] a(5,6) by auto
  have m1: "mem cs1 (mem_next cs1) = None" using a(7) cs1(7,8) fun_upd_other by (metis n_not_Suc_n Suc_eq_plus1)
  let ?q = "mem_next cs1" and ?L = "of_nat (8 + length body) :: u16"
  have "unat ?L = (8 + length body) mod 2 ^ LENGTH(16)" by (rule unat_of_nat)
  then have u: "unat ?L = 8 + length body" using body(2) by simp
  have L: "8 \<le> unat ?L" "unat ?L \<le> 29000" "length (concat bs) = unat ?L - 8" using u body(2) bs(1) by simp_all
  obtain cs2 where cs2: "read_events env c (map R_data (hs @ bs)) cs1 = Inr cs2"
    "delivered cs1 c ?q (framed cs1 c (concat hs @ concat bs)) cs2"
    using message_delivered [OF cs1(2,3) L(1,2) hs(1,2) L(3) bs(2,3), of env] by blast
  have d: "tasks cs2 = [T_threadRecvProcFunc (Some (obj_next cs)) (Some ?q)]" "hdr_inv cs2 c []" "m_ETflag cs2 = ETCLOSE"
    "mem cs2 = (mem cs1)(?q \<mapsto> business_block c (iCurrsequence (conns cs2 c)) crc body)" "\<not> logicPorcMutex (conns cs2 c)"
    using cs2(2) cs1(3-6) framed_business [of cs1 c body crc] hs(1) bs(1) by (auto simp: delivered_def no_flood_def)
  have v: "valid_conn cs2 c" using d(2) by (simp add: hdr_inv_def)
  obtain pkgLen h where b: "Business henv body (objs (obj_next cs)) = Inr (pkgLen, h)" "wire_text h = reply"
    "iov_total h = 8 + int (length (wire_text h))" "uint pkgLen = iov_total h mod 65536" "length (m_read_buffer h) = length body"
    using fields_business [OF g c, of old] reply(1,2) o body(1) by (auto split: sum.splits)
  have "uint pkgLen = int (8 + length reply)" using b(2-4) reply(3) by simp
  then have n: "unat pkgLen = 8 + length reply" by (metis nat_int nat_uint_eq)
  then have "(of_nat (8 + length reply) :: u32) = ucast pkgLen" by (simp only: n [symmetric] of_nat_unat)
  then have rs': "list_all (retried (ucast pkgLen)) rs" using rs by simp
  have ans: "http_answer henv objs (obj_next cs) body = Some pkgLen" using b(1,5) by (simp add: http_answer_def)
  have ne: "body \<noteq> []" "length body < 65528" using body by (auto simp: request_def)
  have m2: "mem cs2 ?q = Some (business_block c (iCurrsequence (conns cs2 c)) crc body)" using d(4) by simp
  obtain cs3 where cs3: "run_next (http_business henv objs) e rd (rs @ W_sent (unat pkgLen) # ws) (cs2, running) = Inr (cs3, running)"
    "mem cs3 = (mem cs2)(?q := None)" "\<not> logicPorcMutex (conns cs3 c)" "tasks cs3 = []"
    "same_reading (conns cs3 c) (conns cs2 c)" "valid_conn cs3 c"
    using run_answered [OF v d(3,5) m2 ne ans rs' d(1), of e rd ws running] by blast
  have "mem cs3 = mem cs1" using cs3(2) d(4) m1 by auto
  moreover have "hdr_inv cs3 c []" using same_reading_hdr [OF cs3(5)] cs3(6) v d(2) by simp
  moreover have "http_writes [K_take (8 + length reply)] True h = [W_sent (8 + length reply)]"
    using http_write_all [of h "8 + length reply"] b(2,3) by (simp add: nat_add_distrib)
  ultimately show ?thesis using cs1(1) cs2(1) d(1) b(1,2) n cs3 by auto
qed


text \<open>A request for three bytes of the sample file, sent as two pieces to a level triggered worker.\<close>

definition sample_body :: string where
  "sample_body = request ''GET'' ''h'' ''/a'' (map render [Range_field 1 3])"

definition sample_reply :: string where
  "sample_reply = cond_text sample_http_env ''/a'' (conditions_for sample_http_env [Range_field 1 3]) @ ''ell''"

lemma sample_body_length: "length sample_body < 1000"
proof -
  have "length (to_string 1) \<le> 20" "length (to_string 3) \<le> 20" by (rule length_to_string; simp)+
  then show ?thesis by (simp add: sample_body_def request_def request_line_def header_block_def header_line_def)
qed

theorem client_served_witness:
  "\<exists>cs1 cs2 cs3. ngx_event_accept sample_aenv (0, 0) [A_fd 9] (sample_listener\<lparr>m_ETflag := ETCLOSE\<rparr>) = Inr cs1 \<and>
     read_events sample_env (0, 1)
       (map R_data [pkg_header (of_nat (8 + length sample_body)) CMD_BUSINESS 7, map u8_of_char sample_body]) cs1 = Inr cs2 \<and>
     run_next (http_business sample_http_env (\<lambda>_. init_http blank_http)) sample_env [] [W_sent (8 + length sample_reply)]
       (cs2, [T_ngx_time_check, T_ngx_timer_free_connection]) = Inr (cs3, [T_ngx_time_check, T_ngx_timer_free_connection]) \<and>
     tasks cs3 = [] \<and> mem cs3 = mem cs1 \<and> hdr_inv cs3 (0, 1) []"
proof -
  let ?cs = "sample_listener\<lparr>m_ETflag := ETCLOSE\<rparr>" and ?fs = "[Range_field 1 3]"
  have a: "can_accept ?cs (0, 0) (0, 1) 0" "e_epoll_ok (a_env sample_aenv)" "\<not> m_PingMutex ?cs" "m_floodKickCount ?cs \<notin> {0, 1}"
    "m_ETflag ?cs = ETCLOSE" "tasks ?cs = []" "mem ?cs (mem_next ?cs + 1) = None"
    using sample_listener_can
    by (simp_all add: can_accept_def valid_conn_def sample_aenv_def sample_env_def sample_listener_def sample_socket_def)
  have f: "list_all field_ok ?fs" "length ''/a'' < 190" by (simp_all add: INT_MAX_def)
  have t: "length (cond_text sample_http_env ''/a'' (conditions_for sample_http_env ?fs)) < 1200"
    using cond_text_length [OF sample_stat(3) f(1), of "''/a''"] by simp
  then have w: "length (cond_text sample_http_env ''/a'' (conditions_for sample_http_env ?fs)) < WRITE_BUFFER_SIZE"
    by (simp add: WRITE_BUFFER_SIZE_def)
  have r: "sample_reply = cond_text sample_http_env ''/a'' (conditions_for sample_http_env ?fs) @
      cond_part sample_http_env ''/a'' (conditions_for sample_http_env ?fs)" "8 + length sample_reply < 65536"
    using t by (simp_all add: sample_reply_def sample_range(3) del: One_nat_def)
  have l: "8 + length sample_body \<le> 29000" using sample_body_length by simp
  have h: "concat [pkg_header (of_nat (8 + length sample_body)) CMD_BUSINESS 7] = pkg_header (of_nat (8 + length sample_body)) CMD_BUSINESS 7"
    "[] \<notin> set [pkg_header (of_nat (8 + length sample_body)) CMD_BUSINESS 7]"
    by (simp_all add: pkg_header_def le16_def)
  have b: "concat [map u8_of_char sample_body] = map u8_of_char sample_body" "[] \<notin> set [map u8_of_char sample_body]"
    "length [map u8_of_char sample_body] \<le> 2" by (simp_all add: sample_body_def request_def)
  have rs: "list_all (retried (of_nat (8 + length sample_reply))) []" by simp
  show ?thesis
    using client_served [where objs = "\<lambda>_. init_http blank_http", OF a refl sample_line(1) f(1,2) sample_line(2) sample_stat(3) sample_range(2) sample_body_def l h b r(1) w r(2) rs,
      of 9 "[]" sample_env sample_env "[]" "[]" "[T_ngx_time_check, T_ngx_timer_free_connection]"]
    by (auto simp del: One_nat_def)
qed

end
