(* ===== verification/Worker.thy ===== *)
theory Worker
  imports Accept
begin

text \<open>
  A worker's start: what \<^verbatim>\<open>ngx_epoll_init\<close> (\<^verbatim>\<open>net/ngx_c_socket.cpp\<close>) establishes for the listening sockets. The
  definitions are those of the connection pool and of the event loop; this theory holds the lemmas that join them.
\<close>

section \<open>What linking leaves alone\<close>

lemma conn_upd_only: "conn_upd p f cs = Inr cs' \<Longrightarrow> \<exists>h. cs' = cs\<lparr>conns := h\<rparr>"
  by (auto simp: conn_upd_def conn_put_def split: if_splits)

lemma link_loop_only: "link_loop b i n cs = Inr cs' \<Longrightarrow> \<exists>h. cs' = cs\<lparr>conns := h\<rparr>"
proof (induction n arbitrary: i cs)
  case 0
  then show ?case by (intro exI [of _ "conns cs"]) simp
next
  case (Suc n)
  then obtain cs1 where "conn_upd (b, i) (\<lambda>t. t\<lparr>c_next := Some (b, i + 1), fd := - 1, c_instance := True, iCurrsequence := 0\<rparr>) cs = Inr cs1"
    "link_loop b (i + 1) n cs1 = Inr cs'" by auto
  then show ?case using Suc.IH conn_upd_only by fastforce
qed

lemma link_array_only: "link_array b n cs = Inr cs' \<Longrightarrow> \<exists>h. cs' = cs\<lparr>conns := h\<rparr>"
  by (auto simp: link_array_def dest!: link_loop_only conn_upd_only)

lemma init_pool_only:
  "init_pool cs = Inr cs' \<Longrightarrow> tasks cs' = tasks cs \<and> timers cs' = timers cs \<and> epoll_set cs' = epoll_set cs \<and>
     m_ListenSocketList cs' = m_ListenSocketList cs \<and> m_worker_connections cs' = m_worker_connections cs \<and>
     m_pconnections cs' = m_pconnections cs @ [nat (m_worker_connections cs)]"
  by (auto simp: init_pool_def Let_def split: if_splits dest!: link_array_only)

section \<open>Registering the listening sockets\<close>

text \<open>One listening socket: it takes the first free connection, which is not the last one.\<close>

definition listening_conn :: "int \<Rightarrow> nat \<Rightarrow> ngx_connection \<Rightarrow> ngx_connection" where
  "listening_conn f i old = (handed_out f old)\<lparr>listening := Some i, rhandler := Some H_ngx_event_accept\<rparr>"

definition registered :: "conn_ptr \<Rightarrow> epoll_reg" where
  "registered c = \<lparr>ev_in = True, ev_out = False, ev_et = False, ev_ptr = c\<rparr>"

definition listen_one :: "nat \<Rightarrow> ngx_listening \<Rightarrow> conn_ptr \<Rightarrow> csocket \<Rightarrow> csocket" where
  "listen_one i l c cs =
     cs\<lparr>m_pfree_connections := c_next (conns cs c), m_free_connection_n := m_free_connection_n cs - 1,
        m_ListenSocketList := (m_ListenSocketList cs)[i := l\<lparr>l_connection := Some c\<rparr>],
        conns := (conns cs)(c := listening_conn (l_fd l) i (conns cs c)),
        epoll_set := (epoll_set cs)(l_fd l \<mapsto> registered c)\<rparr>"

lemma listen_loop_step:
  assumes "pool_inv cs (c # q # ps)" "e_epoll_ok env"
  shows "listen_loop env i (l # ls) cs = listen_loop env (i + 1) ls (listen_one i l c cs)"
    and "pool_inv (listen_one i l c cs) (q # ps)"
proof -
  have c: "m_pfree_connections cs = Some c" "valid_conn cs c" "c_next (conns cs c) = Some q" "c \<notin> set (q # ps)"
    using assms(1) by (auto simp: pool_inv_def)
  have "ngx_get_connection (l_fd l) cs = Inr (Some c, conn_put c (handed_out (l_fd l) (conns cs c))
      (cs\<lparr>m_pfree_connections := c_next (conns cs c), m_free_connection_n := m_free_connection_n cs - 1\<rparr>))"
    using c by (simp add: ngx_get_connection_def handed_out_def Let_def)
  moreover have "fd (handed_out (l_fd l) (conns cs c)) = l_fd l" by (simp add: handed_out_def)
  ultimately show "listen_loop env i (l # ls) cs = listen_loop env (i + 1) ls (listen_one i l c cs)"
    using c(2) assms(2)
    by (simp add: conn_upd_def conn_put_def valid_conn_def listen_one_def listening_conn_def registered_def)
  show "pool_inv (listen_one i l c cs) (q # ps)"
    using assms(1) c by (auto simp: pool_inv_def listen_one_def valid_conn_def free_path_upd)
qed

text \<open>
  The loop as a whole: the listening sockets take the first free connections, in order, and nothing else
  changes of the connections, the registrations and the tasks.
\<close>

lemma listen_loop_registers:
  "pool_inv cs ps \<Longrightarrow> e_epoll_ok env \<Longrightarrow> length ls < length ps \<Longrightarrow> distinct (map l_fd ls) \<Longrightarrow>
   \<exists>cs'. listen_loop env i ls cs = Inr (Some cs') \<and> pool_inv cs' (drop (length ls) ps) \<and> tasks cs' = tasks cs \<and>
     timers cs' = timers cs \<and>
     (\<forall>p. p \<notin> set (take (length ls) ps) \<longrightarrow> conns cs' p = conns cs p) \<and>
     (\<forall>f. f \<notin> l_fd ` set ls \<longrightarrow> epoll_set cs' f = epoll_set cs f) \<and>
     (\<forall>k < length ls. epoll_set cs' (l_fd (ls ! k)) = Some (registered (ps ! k)) \<and>
        conns cs' (ps ! k) = listening_conn (l_fd (ls ! k)) (i + k) (conns cs (ps ! k)))"
proof (induction ls arbitrary: cs ps i)
  case Nil
  then show ?case by simp
next
  case (Cons l ls)
  then obtain c q qs where ps: "ps = c # q # qs"
    by (metis Suc_le_length_iff length_Cons less_Suc_eq_0_disj less_or_eq_imp_le list.exhaust list.size(3) not_less0)
  let ?cs = "listen_one i l c cs"
  note st = listen_loop_step [OF Cons.prems(1) [unfolded ps] Cons.prems(2)]
  obtain cs' where cs': "listen_loop env (i + 1) ls ?cs = Inr (Some cs')" "pool_inv cs' (drop (length ls) (q # qs))"
    "tasks cs' = tasks ?cs" "timers cs' = timers ?cs" "\<forall>p. p \<notin> set (take (length ls) (q # qs)) \<longrightarrow> conns cs' p = conns ?cs p"
    "\<forall>f. f \<notin> l_fd ` set ls \<longrightarrow> epoll_set cs' f = epoll_set ?cs f"
    "\<forall>k < length ls. epoll_set cs' (l_fd (ls ! k)) = Some (registered ((q # qs) ! k)) \<and>
        conns cs' ((q # qs) ! k) = listening_conn (l_fd (ls ! k)) (i + 1 + k) (conns ?cs ((q # qs) ! k))"
    using Cons.IH [OF st(2) [of i l] Cons.prems(2), of "i + 1"] Cons.prems(3,4) ps by auto
  have c: "c \<notin> set (q # qs)" using Cons.prems(1) ps by (auto simp: pool_inv_def)
  have ne: "(q # qs) ! k \<noteq> c" if "k < length ls" for k
    using c that Cons.prems(3) ps nth_mem [of k "q # qs"] by auto
  have "c \<notin> set (take (length ls) (q # qs))" using c set_take_subset [of "length ls" "q # qs"] by blast
  then have "conns cs' c = conns ?cs c" using cs'(5) by blast
  then have hd: "conns cs' c = listening_conn (l_fd l) i (conns cs c)" "epoll_set cs' (l_fd l) = Some (registered c)"
    using cs'(6) Cons.prems(4) by (simp_all add: listen_one_def)
  have tl: "epoll_set cs' (l_fd (ls ! k)) = Some (registered ((q # qs) ! k)) \<and>
      conns cs' ((q # qs) ! k) = listening_conn (l_fd (ls ! k)) (Suc (i + k)) (conns cs ((q # qs) ! k))" if "k < length ls" for k
    using cs'(7) that ne [OF that] by (simp add: listen_one_def)
  have "epoll_set cs' (l_fd ((l # ls) ! k)) = Some (registered (ps ! k)) \<and>
      conns cs' (ps ! k) = listening_conn (l_fd ((l # ls) ! k)) (i + k) (conns cs (ps ! k))" if "k < length (l # ls)" for k
    using hd tl that ps by (cases k) auto
  moreover have "\<forall>p. p \<notin> set (take (length (l # ls)) ps) \<longrightarrow> conns cs' p = conns cs p"
    using cs'(5) ps by (auto simp: listen_one_def)
  moreover have "\<forall>f. f \<notin> l_fd ` set (l # ls) \<longrightarrow> epoll_set cs' f = epoll_set cs f"
    using cs'(6) by (auto simp: listen_one_def)
  ultimately show ?case
    using st(1) cs'(1-4) ps by (intro exI [of _ cs']) (simp add: listen_one_def)
qed

section \<open>The start of epoll\<close>

definition listens_on :: "csocket \<Rightarrow> nat \<Rightarrow> ngx_listening \<Rightarrow> bool" where
  "listens_on cs k l \<longleftrightarrow>
     (case epoll_set cs (l_fd l) of
        None \<Rightarrow> False
      | Some r \<Rightarrow> ev_in r \<and> \<not> ev_et r \<and> fd (conns cs (ev_ptr r)) = l_fd l \<and>
          rhandler (conns cs (ev_ptr r)) = Some H_ngx_event_accept \<and> listening (conns cs (ev_ptr r)) = Some k)"

lemma epoll_init_listens:
  assumes "m_pconnections cs = []" "1 \<le> m_worker_connections cs"
    and "m_connection_n_max cs = m_worker_connections cs + m_worker_connections cs div 2"
    and "(m_worker_connections cs div 2) mod 16 = 0" and e: "e_epoll_ok env"
    and l: "int (length (m_ListenSocketList cs)) < m_worker_connections cs" "distinct (map l_fd (m_ListenSocketList cs))"
  shows "\<exists>cs'. ngx_epoll_init env cs = Inr (Some cs') \<and>
     tasks cs' = tasks cs @ [T_ngx_time_check, T_ngx_timer_free_connection] \<and>
     (\<forall>k < length (m_ListenSocketList cs). listens_on cs' k (m_ListenSocketList cs ! k))"
proof -
  let ?cs = "cs\<lparr>tasks := tasks cs @ [T_ngx_time_check, T_ngx_timer_free_connection],
     timers := AddTimer (e_steady env) 20000 (- 1) CB_ngx_time_tocheck None (timers cs)\<rparr>"
  obtain cs1 where i: "init_pool ?cs = Inr cs1" "pool_inv cs1 (all_ptrs (m_pconnections cs1))"
    using init_pool_result [of ?cs] assms(1-4) by (auto simp: cp.session_def)
  have o: "tasks cs1 = tasks ?cs" "m_ListenSocketList cs1 = m_ListenSocketList cs"
    "m_pconnections cs1 = [nat (m_worker_connections cs)]"
    using init_pool_only [OF i(1)] assms(1) by simp_all
  have "length (m_ListenSocketList cs1) < length (all_ptrs (m_pconnections cs1))"
    using l(1) assms(2) o by (simp add: all_ptrs_def)
  then obtain cs' where "listen_loop env 0 (m_ListenSocketList cs1) cs1 = Inr (Some cs')" "tasks cs' = tasks cs1"
    "\<forall>k < length (m_ListenSocketList cs1). epoll_set cs' (l_fd (m_ListenSocketList cs1 ! k)) =
        Some (registered (all_ptrs (m_pconnections cs1) ! k)) \<and>
      conns cs' (all_ptrs (m_pconnections cs1) ! k) =
        listening_conn (l_fd (m_ListenSocketList cs1 ! k)) (0 + k) (conns cs1 (all_ptrs (m_pconnections cs1) ! k))"
    using listen_loop_registers [OF i(2) e, of "m_ListenSocketList cs1" 0] l(2) o(2) by metis
  then show ?thesis
    using i(1) o by (auto simp: ngx_epoll_init_def listens_on_def registered_def listening_conn_def handed_out_def)
qed

end
