(* ===== verification/WorkerSafe.thy ===== *)
theory WorkerSafe
  imports Pipeline Worker
begin

text \<open>
  A worker as a state machine, and the soundness of its connection pointers: wherever the program stores a pointer to
  a connection (the free list, the registrations with epoll, queued tasks, timers, the list of connections to release,
  the headers of messages and heartbeat entries, the listening sockets), it names a cell of an allocated array, in
  every state that completed rounds of the event loop and completed tasks of the pool can reach. The theorems cover all handlers and tasks of
  \<^verbatim>\<open>net/\<close> and \<^verbatim>\<open>logic/ngx_c_slogic.cpp\<close>.
\<close>

section \<open>Stored pointers\<close>

definition opt_ok :: "(conn_ptr \<Rightarrow> bool) \<Rightarrow> conn_ptr option \<Rightarrow> bool" where
  "opt_ok V p \<longleftrightarrow> (case p of None \<Rightarrow> True | Some c \<Rightarrow> V c)"

fun task_ok :: "(conn_ptr \<Rightarrow> bool) \<Rightarrow> task \<Rightarrow> bool" where
  "task_ok V (T_recvproc_ET c) \<longleftrightarrow> V c"
| "task_ok V (T_sendRemainMsg c) \<longleftrightarrow> V c"
| "task_ok V _ \<longleftrightarrow> True"

definition block_ok :: "(conn_ptr \<Rightarrow> bool) \<Rightarrow> msg_block option \<Rightarrow> bool" where
  "block_ok V b \<longleftrightarrow> (\<forall>m h. b = Some m \<longrightarrow> mb_header m = Some h \<longrightarrow> V (pConn h))"

definition reg_ok :: "(conn_ptr \<Rightarrow> bool) \<Rightarrow> epoll_reg option \<Rightarrow> bool" where
  "reg_ok V r \<longleftrightarrow> (case r of None \<Rightarrow> True | Some e \<Rightarrow> V (ev_ptr e))"

text \<open>The pointers outside the arrays, and those of the free list inside.\<close>

definition roots_ok :: "(conn_ptr \<Rightarrow> bool) \<Rightarrow> csocket \<Rightarrow> bool" where
  "roots_ok V cs \<longleftrightarrow>
     opt_ok V (m_pfree_connections cs) \<and> (\<forall>f. reg_ok V (epoll_set cs f)) \<and> list_all (task_ok V) (tasks cs) \<and>
     list_all V (m_recyconnectionList cs) \<and> (\<forall>q. block_ok V (mem cs q)) \<and>
     list_all (\<lambda>t. opt_ok V (t_arg t)) (Timer_buf (timers cs)) \<and>
     list_all (\<lambda>l. opt_ok V (l_connection l)) (m_ListenSocketList cs)"

definition nexts_ok :: "csocket \<Rightarrow> bool" where
  "nexts_ok cs \<longleftrightarrow> (\<forall>p. valid_conn cs p \<longrightarrow> opt_ok (valid_conn cs) (c_next (conns cs p)))"

definition refs_ok :: "csocket \<Rightarrow> bool" where
  "refs_ok cs \<longleftrightarrow> roots_ok (valid_conn cs) cs \<and> nexts_ok cs"

text \<open>A step that keeps stored pointers sound, and valid pointers valid.\<close>

definition wider :: "csocket \<Rightarrow> csocket \<Rightarrow> bool" where
  "wider cs cs' \<longleftrightarrow> (\<forall>p. valid_conn cs p \<longrightarrow> valid_conn cs' p)"

definition sound_step :: "csocket \<Rightarrow> csocket \<Rightarrow> bool" where
  "sound_step cs cs' \<longleftrightarrow> refs_ok cs' \<and> wider cs cs'"

section \<open>Elementary steps\<close>

named_theorems sound \<open>steps that keep connection pointers sound\<close>

lemma opt_ok_simps [simp]: "opt_ok V None" "opt_ok V (Some c) = V c"
  by (simp_all add: opt_ok_def)

lemma reg_ok_simps [simp]: "reg_ok V None" "reg_ok V (Some e) = V (ev_ptr e)"
  by (simp_all add: reg_ok_def)

lemma block_ok_simps [simp]:
  "block_ok V None" "block_ok V (Some m) \<longleftrightarrow> (case mb_header m of None \<Rightarrow> True | Some h \<Rightarrow> V (pConn h))"
  by (auto simp: block_ok_def split: option.splits)

lemma widerD: "wider cs cs' \<Longrightarrow> valid_conn cs p \<Longrightarrow> valid_conn cs' p"
  unfolding wider_def by blast

lemma wider_same [simp]: "valid_conn cs' = valid_conn cs \<Longrightarrow> wider cs cs'"
  by (simp add: wider_def)

lemma wider_trans: "wider cs cs1 \<Longrightarrow> wider cs1 cs2 \<Longrightarrow> wider cs cs2"
  unfolding wider_def by blast

lemma sound_refl [simp]: "refs_ok cs \<Longrightarrow> sound_step cs cs"
  by (simp add: sound_step_def)

lemma sound_trans: "sound_step cs cs1 \<Longrightarrow> sound_step cs1 cs2 \<Longrightarrow> sound_step cs cs2"
  unfolding sound_step_def using wider_trans by blast

lemma sound_stepD: "sound_step cs cs' \<Longrightarrow> refs_ok cs'" "sound_step cs cs' \<Longrightarrow> valid_conn cs p \<Longrightarrow> valid_conn cs' p"
  unfolding sound_step_def using widerD by blast+

text \<open>Fields that hold no pointers to connections, or new contents that are sound.\<close>

lemma valid_conn_upds [simp]:
  "valid_conn (cs\<lparr>closed_fds := x1\<rparr>) = valid_conn cs" "valid_conn (cs\<lparr>m_onlineUserCount := x2\<rparr>) = valid_conn cs"
  "valid_conn (cs\<lparr>timers := x3\<rparr>) = valid_conn cs" "valid_conn (cs\<lparr>tasks := x4\<rparr>) = valid_conn cs"
  "valid_conn (cs\<lparr>epoll_set := x5\<rparr>) = valid_conn cs" "valid_conn (cs\<lparr>m_timerQueuemap := x6\<rparr>) = valid_conn cs"
  "valid_conn (cs\<lparr>m_PingMutex := x7\<rparr>) = valid_conn cs" "valid_conn (cs\<lparr>m_recyconnectionList := x8\<rparr>) = valid_conn cs"
  "valid_conn (cs\<lparr>mem := x9\<rparr>) = valid_conn cs" "valid_conn (cs\<lparr>mem_next := x10\<rparr>) = valid_conn cs"
  "valid_conn (cs\<lparr>obj_live := x11\<rparr>) = valid_conn cs" "valid_conn (cs\<lparr>obj_next := x12\<rparr>) = valid_conn cs"
  "valid_conn (cs\<lparr>m_pfree_connections := x13\<rparr>) = valid_conn cs" "valid_conn (cs\<lparr>m_free_connection_n := x14\<rparr>) = valid_conn cs"
  "valid_conn (cs\<lparr>m_connection_n := x15\<rparr>) = valid_conn cs" "valid_conn (cs\<lparr>m_ListenSocketList := x16\<rparr>) = valid_conn cs"
  "valid_conn (cs\<lparr>conns := x17\<rparr>) = valid_conn cs" "valid_conn (conn_put c t cs) = valid_conn cs"
  "valid_conn (mem_put q b cs) = valid_conn cs"
  by (simp_all add: valid_conn_def fun_eq_iff conn_put_def mem_put_def)

lemma refs_ok_plain [simp]:
  "refs_ok (cs\<lparr>closed_fds := x1\<rparr>) = refs_ok cs" "refs_ok (cs\<lparr>m_onlineUserCount := x2\<rparr>) = refs_ok cs"
  "refs_ok (cs\<lparr>m_timerQueuemap := x6\<rparr>) = refs_ok cs" "refs_ok (cs\<lparr>m_PingMutex := x7\<rparr>) = refs_ok cs"
  "refs_ok (cs\<lparr>mem_next := x10\<rparr>) = refs_ok cs" "refs_ok (cs\<lparr>obj_live := x11\<rparr>) = refs_ok cs"
  "refs_ok (cs\<lparr>obj_next := x12\<rparr>) = refs_ok cs" "refs_ok (cs\<lparr>m_free_connection_n := x14\<rparr>) = refs_ok cs"
  "refs_ok (cs\<lparr>m_connection_n := x15\<rparr>) = refs_ok cs"
  by (simp_all add: refs_ok_def roots_ok_def nexts_ok_def)

lemma sound_plain [simp]: "sound_step cs cs' \<longleftrightarrow> refs_ok cs'" if "valid_conn cs' = valid_conn cs"
  using that by (simp add: sound_step_def)

lemma refs_ok_stored:
  assumes "refs_ok cs"
  shows "list_all (task_ok (valid_conn cs)) ts \<Longrightarrow> refs_ok (cs\<lparr>tasks := ts\<rparr>)"
    "list_all (valid_conn cs) rs \<Longrightarrow> refs_ok (cs\<lparr>m_recyconnectionList := rs\<rparr>)"
    "opt_ok (valid_conn cs) p \<Longrightarrow> refs_ok (cs\<lparr>m_pfree_connections := p\<rparr>)"
    "reg_ok (valid_conn cs) r \<Longrightarrow> refs_ok (cs\<lparr>epoll_set := (epoll_set cs)(f := r)\<rparr>)"
    "block_ok (valid_conn cs) b \<Longrightarrow> refs_ok (cs\<lparr>mem := (mem cs)(q := b)\<rparr>)"
    "list_all (\<lambda>t. opt_ok (valid_conn cs) (t_arg t)) (Timer_buf tm) \<Longrightarrow> refs_ok (cs\<lparr>timers := tm\<rparr>)"
    "list_all (\<lambda>l. opt_ok (valid_conn cs) (l_connection l)) ls \<Longrightarrow> refs_ok (cs\<lparr>m_ListenSocketList := ls\<rparr>)"
    "opt_ok (valid_conn cs) (c_next t) \<Longrightarrow> refs_ok (conn_put c t cs)"
  using assms by (simp_all add: refs_ok_def roots_ok_def nexts_ok_def conn_put_def)

lemma refs_ok_next: "refs_ok cs \<Longrightarrow> valid_conn cs c \<Longrightarrow> opt_ok (valid_conn cs) (c_next (conns cs c))"
  unfolding refs_ok_def nexts_ok_def by blast

lemma refs_ok_mem: "refs_ok cs \<Longrightarrow> mem cs q = Some b \<Longrightarrow> mb_header b = Some h \<Longrightarrow> valid_conn cs (pConn h)"
  by (auto simp: refs_ok_def roots_ok_def block_ok_def)

lemma refs_ok_header: "refs_ok cs \<Longrightarrow> msg_header_of q cs = Inr h \<Longrightarrow> valid_conn cs (pConn h)"
  by (auto simp: msg_header_of_def mem_get_def of_option_Inr_iff dest: refs_ok_mem)

text \<open>An update of a connection that keeps its place in the free list.\<close>

lemma upd_sound [sound]:
  assumes "refs_ok cs" "conn_upd c f cs = Inr cs'" "\<And>t. c_next (f t) = c_next t"
  shows "sound_step cs cs'"
  using assms refs_ok_next [OF assms(1), of c] by (auto simp: conn_upd_Inr_iff intro!: refs_ok_stored)


section \<open>The connection pool\<close>

lemma link_loop_next:
  "link_loop b i n cs = Inr cs' \<Longrightarrow>
   (\<forall>j. c_next (conns cs' (b, j)) = (if i \<le> j \<and> j < i + n then Some (b, j + 1) else c_next (conns cs (b, j)))) \<and>
   (\<forall>p. fst p \<noteq> b \<longrightarrow> conns cs' p = conns cs p) \<and> (\<exists>h. cs' = cs\<lparr>conns := h\<rparr>)"
proof (induction n arbitrary: i cs)
  case 0
  then show ?case by (auto intro: exI [of _ "conns cs'"])
next
  case (Suc n)
  let ?f = "\<lambda>t. t\<lparr>c_next := Some (b, i + 1), fd := - 1, c_instance := True, iCurrsequence := 0\<rparr>"
  obtain cs1 where c: "conn_upd (b, i) ?f cs = Inr cs1" "link_loop b (i + 1) n cs1 = Inr cs'" using Suc.prems by auto
  then have "cs1 = cs\<lparr>conns := (conns cs)((b, i) := ?f (conns cs (b, i)))\<rparr>" by (simp add: conn_upd_Inr_iff conn_put_def)
  then show ?case using Suc.IH [OF c(2)] by auto
qed

lemma link_array_next:
  assumes "link_array b n cs = Inr cs'" "0 < n"
  shows "(\<forall>j<n. c_next (conns cs' (b, j)) = (if j < n - 1 then Some (b, j + 1) else None)) \<and>
    (\<forall>p. fst p \<noteq> b \<longrightarrow> conns cs' p = conns cs p) \<and> (\<exists>h. cs' = cs\<lparr>conns := h\<rparr>)"
proof -
  obtain cs1 where c: "link_loop b 0 (n - 1) cs = Inr cs1" "conn_upd (b, n - 1) (\<lambda>t. t\<lparr>c_next := None\<rparr>) cs1 = Inr cs'"
    using assms(1) by (auto simp: link_array_def)
  then show ?thesis using link_loop_next [OF c(1)] by (auto simp: conn_upd_Inr_iff conn_put_def)
qed

lemma opt_ok_mono: "opt_ok V p \<Longrightarrow> (\<And>c. V c \<Longrightarrow> W c) \<Longrightarrow> opt_ok W p"
  by (cases p) auto

lemma roots_ok_mono:
  assumes r: "roots_ok V cs" and m: "\<And>c. V c \<Longrightarrow> W c"
  shows "roots_ok W cs"
proof -
  have t: "task_ok V t \<Longrightarrow> task_ok W t" for t using m by (cases t) auto
  have e: "reg_ok V x \<Longrightarrow> reg_ok W x" for x using m by (cases x) auto
  have b: "block_ok V x \<Longrightarrow> block_ok W x" for x using m by (auto simp: block_ok_def)
  note o = opt_ok_mono [OF _ m]
  show ?thesis
    using r unfolding roots_ok_def by (auto simp: list_all_iff intro: t e b o m)
qed

text \<open>The array of a new block: what is valid then, and the cells it does not touch.\<close>

lemma valid_new: "valid_conn (new_connections n cs) p \<longleftrightarrow> valid_conn cs p \<or> fst p = length (m_pconnections cs) \<and> snd p < n"
  by (auto simp: valid_conn_def new_connections_def nth_append)

lemma roots_new: "roots_ok V (new_connections n cs) = roots_ok V cs"
  by (simp add: roots_ok_def new_connections_def)

lemma conns_new: "valid_conn cs p \<Longrightarrow> conns (new_connections n cs) p = conns cs p"
  by (auto simp: valid_conn_def new_connections_def)

lemma roots_conns [simp]: "roots_ok V (cs\<lparr>conns := h\<rparr>) = roots_ok V cs" "roots_ok V (conn_put c t cs) = roots_ok V cs"
  by (simp_all add: roots_ok_def conn_put_def)

lemma linked_sound:
  assumes r: "refs_ok cs" and v: "valid_conn cs c" and k: "0 < k"
    and u: "conn_upd c (\<lambda>t. t\<lparr>c_next := Some (length (m_pconnections cs), 0)\<rparr>) (new_connections k cs) = Inr cs1"
    and l: "link_array (length (m_pconnections cs)) k cs1 = Inr cs2"
  shows "sound_step cs cs2"
proof -
  let ?b = "length (m_pconnections cs)"
  have cs1: "cs1 = conn_put c ((conns cs c)\<lparr>c_next := Some (?b, 0)\<rparr>) (new_connections k cs)"
    using u conns_new [OF v] by (simp add: conn_upd_Inr_iff)
  obtain h where h: "cs2 = cs1\<lparr>conns := h\<rparr>" "\<forall>j<k. c_next (h (?b, j)) = (if j < k - 1 then Some (?b, j + 1) else None)"
    "\<forall>p. fst p \<noteq> ?b \<longrightarrow> h p = conns cs1 p"
    using link_array_next [OF l k] by auto
  have V: "valid_conn cs2 p \<longleftrightarrow> valid_conn cs p \<or> fst p = ?b \<and> snd p < k" for p
    unfolding h(1) cs1 by (simp add: valid_new)
  have nb: "valid_conn cs p \<Longrightarrow> fst p \<noteq> ?b" for p by (simp add: valid_conn_def)
  have "opt_ok (valid_conn cs2) (c_next (conns cs2 p))" if "valid_conn cs2 p" for p
  proof (cases "fst p = ?b")
    case True
    then have "snd p < k" using that nb [of p] unfolding V by auto
    then show ?thesis using True h(2) V by (cases p) (auto simp: h(1))
  next
    case False
    then have p: "valid_conn cs p" using that unfolding V by auto
    then have "c_next (conns cs2 p) = (if p = c then Some (?b, 0) else c_next (conns cs p))"
      using False h(1) h(3) [rule_format, of p] cs1 conns_new [OF p] by (auto simp: conn_put_def)
    then show ?thesis using refs_ok_next [OF r p] k V opt_ok_mono by (auto intro: opt_ok_mono)
  qed
  moreover have "roots_ok (valid_conn cs2) cs2"
    using r V roots_ok_mono [of "valid_conn cs" cs "valid_conn cs2"] by (simp add: refs_ok_def h(1) cs1 roots_new)
  ultimately show ?thesis using V by (auto simp: sound_step_def wider_def refs_ok_def nexts_ok_def)
qed

lemma grow_sound [sound]:
  assumes r: "refs_ok cs" "valid_conn cs c" "0 < k" and g: "More_Connection_Pool k c cs = Inr (x, cs')"
  shows "sound_step cs cs'"
proof -
  let ?n = "if m_connection_n cs + int k \<le> m_connection_n_max cs then int k else m_connection_n_max cs - m_connection_n cs"
  let ?b = "length (m_pconnections cs)"
  show ?thesis
  proof (cases "?n = 0")
    case True
    then show ?thesis using g r by (simp add: More_Connection_Pool_def split: if_splits)
  next
    case False
    then obtain cs1 cs2 where c: "conn_upd c (\<lambda>t. t\<lparr>c_next := Some (?b, 0)\<rparr>) (new_connections (nat ?n) cs) = Inr cs1"
      "link_array ?b k cs1 = Inr cs2" "cs' = cs2\<lparr>m_connection_n := m_connection_n cs2 + ?n\<rparr>" "0 < ?n"
      using g by (auto simp: More_Connection_Pool_def Let_def split: if_splits)
    have "m_pconnections cs1 ! ?b = nat ?n" "?b < length (m_pconnections cs1)"
      using c(1) by (auto simp: conn_upd_Inr_iff conn_put_def new_connections_def)
    then have "\<not> nat ?n < k" using link_array_over [of ?b cs1 k] c(2) by auto
    then have "nat ?n = k" using c(4) by (auto split: if_splits)
    then have "sound_step cs cs2" using linked_sound [OF r _ c(2)] c(1) by simp
    then show ?thesis using c(3) by (simp add: sound_step_def wider_def)
  qed
qed

lemma get_sound [sound]:
  assumes r: "refs_ok cs" and g: "ngx_get_connection isock cs = Inr (p, cs')"
  shows "sound_step cs cs'" "\<And>c. p = Some c \<Longrightarrow> valid_conn cs' c"
proof -
  have "sound_step cs cs' \<and> (\<forall>c. p = Some c \<longrightarrow> valid_conn cs' c)"
  proof (cases "m_pfree_connections cs")
    case None
    then show ?thesis using g r by (simp add: ngx_get_connection_def)
  next
    case (Some c)
    obtain x cs1 where v: "valid_conn cs c" and
      s: "(if c_next (conns cs c) = None then More_Connection_Pool CREATECONNUM c cs else Inr (False, cs)) = Inr (x, cs1)" and
      e: "p = Some c" "cs' = conn_put c (zero_connection\<lparr>fd := isock, c_instance := \<not> c_instance (conns cs1 c),
            iCurrsequence := iCurrsequence (conns cs1 c) + 1\<rparr>)
            (cs1\<lparr>m_pfree_connections := c_next (conns cs1 c), m_free_connection_n := m_free_connection_n cs1 - 1\<rparr>)"
      using g Some by (auto simp: ngx_get_connection_def Let_def split: if_splits)
    have s1: "sound_step cs cs1" using s grow_sound [OF r v, of CREATECONNUM x cs1] r by (auto simp: CREATECONNUM_def split: if_splits)
    have v1: "valid_conn cs1 c" by (rule sound_stepD(2) [OF s1 v])
    have "refs_ok (cs1\<lparr>m_pfree_connections := c_next (conns cs1 c)\<rparr>)"
      by (rule refs_ok_stored(3) [OF sound_stepD(1) [OF s1] refs_ok_next [OF sound_stepD(1) [OF s1] v1]])
    then have "refs_ok cs'" unfolding e(2) by (intro refs_ok_stored) (simp_all add: zero_connection_def)
    then show ?thesis using s1 v1 e by (auto simp: sound_step_def wider_def)
  qed
  then show "sound_step cs cs'" "\<And>c. p = Some c \<Longrightarrow> valid_conn cs' c" by auto
qed

lemma delete_sound [sound]: "refs_ok cs \<Longrightarrow> delete_obj ob cs = Inr cs' \<Longrightarrow> sound_step cs cs'"
  by (auto simp: delete_obj_def split: option.splits if_splits)

lemma free_sound [sound]:
  assumes r: "refs_ok cs" and f: "ngx_free_connection c cs = Inr cs'"
  shows "sound_step cs cs'"
proof -
  let ?t = "(conns cs c)\<lparr>c_next := m_pfree_connections cs, iCurrsequence := iCurrsequence (conns cs c) + 1\<rparr>"
  let ?cs = "(conn_put c ?t cs)\<lparr>m_pfree_connections := Some c, m_free_connection_n := m_free_connection_n cs + 1\<rparr>"
  have v: "valid_conn cs c" and d: "delete_obj (logicObj (conns cs c)) ?cs = Inr cs'"
    using f by (auto simp: ngx_free_connection_def conn_upd_Inr_iff sock_simps)
  have "refs_ok (conn_put c ?t cs)" using r by (intro refs_ok_stored) (simp_all add: refs_ok_def roots_ok_def)
  from refs_ok_stored(3) [OF this, of "Some c"] have "refs_ok ?cs" using v by simp
  then have "sound_step cs ?cs" by simp
  then show ?thesis using sound_trans delete_sound [OF sound_stepD(1) d] by blast
qed

lemma close_sound [sound]:
  assumes r: "refs_ok cs" and f: "ngx_close_connection c cs = Inr cs'"
  shows "sound_step cs cs'"
proof -
  let ?cs = "if fd (conns cs c) \<noteq> - 1 then cs\<lparr>closed_fds := fd (conns cs c) # closed_fds cs\<rparr> else cs"
  obtain cs1 where c: "conn_upd c (\<lambda>t. t\<lparr>FloodAttackCount := 0, fd := - 1\<rparr>) ?cs = Inr cs1" "ngx_free_connection c cs1 = Inr cs'"
    using f by (auto simp: ngx_close_connection_def)
  have "refs_ok ?cs" "sound_step cs ?cs" using r by simp_all
  moreover have u: "sound_step ?cs cs1" by (rule upd_sound [OF \<open>refs_ok ?cs\<close> c(1)]) simp
  moreover have "sound_step cs1 cs'" by (rule free_sound [OF sound_stepD(1) [OF u] c(2)])
  ultimately show ?thesis using sound_trans by blast
qed

section \<open>Registrations, timers and the flood test\<close>

lemma del_event_sound [sound]: "refs_ok cs \<Longrightarrow> sound_step cs (snd (ngx_epoll_del_event env c cs))"
  by (auto simp: ngx_epoll_del_event_def intro: refs_ok_stored)

lemma opr_event_sound [sound]:
  assumes r: "refs_ok cs" and f: "ngx_epoll_opr_event env c rd op cs = Inr (ok, cs')"
  shows "sound_step cs cs'"
proof -
  let ?f = "\<lambda>t. t\<lparr>rhandler := Some (if m_ETflag cs = ETOPEN then H_ngx_read_request_handler_ET else H_ngx_read_request_handler)\<rparr>"
  obtain cs1 where c: "conn_upd c ?f cs = Inr cs1"
    "(if e_epoll_ok env
      then Inr (True, cs1\<lparr>epoll_set := (epoll_set cs1)(fd (conns cs1 c) := (if op = EPOLL_CTL_DEL then None
        else Some \<lparr>ev_in = rd, ev_out = \<not> rd, ev_et = (\<not> rd \<or> m_ETflag cs = ETOPEN), ev_ptr = c\<rparr>))\<rparr>)
      else Inr (False, cs1)) = (Inr (ok, cs') :: (bool \<times> csocket) res)"
    using f unfolding ngx_epoll_opr_event_def Let_def res_bind_Inr_iff by blast
  have s1: "sound_step cs cs1" by (rule upd_sound [OF r c(1)]) simp
  have "valid_conn cs1 c" using c(1) by (auto simp: conn_upd_Inr_iff)
  then have "sound_step cs1 cs'"
    using c(2) refs_ok_stored(4) [OF sound_stepD(1) [OF s1]] sound_stepD(1) [OF s1] by (auto split: if_splits)
  with s1 show ?thesis by (rule sound_trans)
qed

text \<open>Timers name connections they were given.\<close>

definition args_ok :: "(conn_ptr \<Rightarrow> bool) \<Rightarrow> (timer_cb, conn_ptr option) Timer \<Rightarrow> bool" where
  "args_ok V T \<longleftrightarrow> list_all (\<lambda>t. opt_ok V (t_arg t)) (Timer_buf T)"

lemma args_ok_AddTimer: "args_ok V T \<Longrightarrow> opt_ok V arg \<Longrightarrow> args_ok V (AddTimer now msec cnt f arg T)"
  by (auto simp: args_ok_def AddTimer_def list_all_iff)

lemma args_ok_CheckTimer:
  "args_ok V T \<Longrightarrow> CheckTimer now T = Inr (cb, T') \<Longrightarrow> args_ok V T' \<and> (\<forall>x. cb = Some x \<longrightarrow> opt_ok V (snd x))"
  by (auto simp: args_ok_def CheckTimer_def AddTimerInfo_def DelTimer_def ms_erase_def list_all_iff Let_def
    split: list.splits if_splits)

lemma refs_ok_args: "refs_ok cs \<Longrightarrow> args_ok (valid_conn cs) (timers cs)"
  by (simp add: refs_ok_def roots_ok_def args_ok_def)

lemma refs_ok_timers: "refs_ok cs \<Longrightarrow> args_ok (valid_conn cs) T \<Longrightarrow> refs_ok (cs\<lparr>timers := T\<rparr>)"
  by (simp add: args_ok_def refs_ok_stored)

lemma add_free_timer_sound [sound]: "refs_ok cs \<Longrightarrow> valid_conn cs c \<Longrightarrow> sound_step cs (add_free_timer env msec c cs)"
  by (simp add: add_free_timer_def refs_ok_timers args_ok_AddTimer refs_ok_args)

lemma ping_erase_sound [sound]: "refs_ok cs \<Longrightarrow> ping_erase t cs = Inr cs' \<Longrightarrow> sound_step cs cs'"
  by (auto simp: ping_erase_def split: if_splits)

lemma tofree_sound [sound]: "refs_ok cs \<Longrightarrow> valid_conn cs c \<Longrightarrow> sound_step cs (ngx_time_tofree_connection c cs)"
  by (simp add: ngx_time_tofree_connection_def) (rule refs_ok_stored, simp, simp add: refs_ok_def roots_ok_def)

lemma free_round_sound [sound]:
  assumes "refs_ok cs" "ngx_timer_free_connection_round cs = Inr cs'"
  shows "sound_step cs cs'"
proof (cases "m_shutdown cs")
  case False
  then obtain c l where c: "m_recyconnectionList cs = c # l" "ngx_close_connection c (cs\<lparr>m_recyconnectionList := l\<rparr>) = Inr cs'"
    using assms(2) by (auto simp: ngx_timer_free_connection_round_def split: list.splits)
  have "refs_ok (cs\<lparr>m_recyconnectionList := l\<rparr>)"
    using assms(1) c(1) by (intro refs_ok_stored) (simp_all add: refs_ok_def roots_ok_def)
  then show ?thesis using close_sound [OF _ c(2)] by (auto simp: sound_step_def wider_def)
qed (use assms in \<open>simp add: ngx_timer_free_connection_round_def\<close>)

lemma free_self_sound [sound]:
  assumes r: "refs_ok cs" "valid_conn cs c" and f: "ngx_free_con_self env c cs = Inr cs'"
  shows "sound_step cs cs'"
proof -
  let ?cs1 = "snd (ngx_epoll_del_event env c cs)"
  have s1: "sound_step cs ?cs1" by (rule del_event_sound [OF r(1)])
  obtain cs2 where c: "(if fd (conns ?cs1 c) \<noteq> - 1
         then conn_upd c (\<lambda>t. t\<lparr>fd := - 1\<rparr>) (?cs1\<lparr>closed_fds := fd (conns ?cs1 c) # closed_fds ?cs1\<rparr>)
         else Inr ?cs1) = Inr cs2"
    "ping_erase (storePingTime (conns (add_free_timer env 30000 c (cs2\<lparr>m_onlineUserCount := m_onlineUserCount cs2 - 1\<rparr>)) c))
      (add_free_timer env 30000 c (cs2\<lparr>m_onlineUserCount := m_onlineUserCount cs2 - 1\<rparr>)) = Inr cs'"
    using f by (auto simp: ngx_free_con_self_def Let_def)
  have "sound_step (?cs1\<lparr>closed_fds := x\<rparr>) cs2" if "conn_upd c (\<lambda>t. t\<lparr>fd := - 1\<rparr>) (?cs1\<lparr>closed_fds := x\<rparr>) = Inr cs2" for x
    by (rule upd_sound [OF _ that]) (use sound_stepD(1) [OF s1] in simp_all)
  then have "sound_step ?cs1 cs2" using c(1) sound_stepD(1) [OF s1] by (auto simp: sound_step_def wider_def split: if_splits)
  then have s2: "sound_step cs (cs2\<lparr>m_onlineUserCount := m_onlineUserCount cs2 - 1\<rparr>)" using s1 sound_trans [of cs ?cs1 cs2] by (simp add: sound_step_def wider_def)
  have s3: "sound_step cs (add_free_timer env 30000 c (cs2\<lparr>m_onlineUserCount := m_onlineUserCount cs2 - 1\<rparr>))"
    by (rule sound_trans [OF s2 add_free_timer_sound]) (use sound_stepD [OF s2] r(2) in auto)
  show ?thesis by (rule sound_trans [OF s3 ping_erase_sound [OF sound_stepD(1) [OF s3] c(2)]])
qed

lemma evhup_sound [sound]:
  assumes r: "refs_ok cs" "valid_conn cs c" and f: "ngx_evhup_handler env c cs = Inr cs'"
  shows "sound_step cs cs'"
proof -
  let ?cs1 = "snd (ngx_epoll_del_event env c cs)"
  let ?cs2 = "?cs1\<lparr>m_onlineUserCount := m_onlineUserCount ?cs1 - 1\<rparr>"
  let ?cs3 = "add_free_timer env 10000 c ?cs2"
  have s1: "sound_step cs ?cs2" using del_event_sound [OF r(1), of env c] by (simp add: sound_step_def wider_def)
  have s2: "sound_step cs ?cs3"
    by (rule sound_trans [OF s1 add_free_timer_sound]) (use sound_stepD [OF s1] r(2) in auto)
  have "ping_erase (storePingTime (conns ?cs3 c)) ?cs3 = Inr cs'" using f by (simp add: ngx_evhup_handler_def Let_def)
  then show ?thesis using sound_trans [OF s2 ping_erase_sound [OF sound_stepD(1) [OF s2]]] by blast
qed

section \<open>Running operations\<close>

text \<open>
  \<open>keeps cs m st\<close>: when the operation \<open>m\<close> returns, the state in its result, which \<open>st\<close> selects, is reached by a sound
  step from \<open>cs\<close>. The rules follow the way operations are composed.
\<close>

definition whole :: "csocket \<Rightarrow> csocket" where
  "whole cs = cs"

definition keeps :: "csocket \<Rightarrow> 'a res \<Rightarrow> ('a \<Rightarrow> csocket) \<Rightarrow> bool" where
  "keeps cs m st \<longleftrightarrow> (\<forall>x. m = Inr x \<longrightarrow> sound_step cs (st x))"

lemma keepsI: "(\<And>x. m = Inr x \<Longrightarrow> sound_step cs (st x)) \<Longrightarrow> keeps cs m st"
  by (simp add: keeps_def)

lemma keepsD: "keeps cs m st \<Longrightarrow> m = Inr x \<Longrightarrow> sound_step cs (st x)"
  by (simp add: keeps_def)

lemma keeps_Inl [simp]: "keeps cs (Inl e) st"
  by (simp add: keeps_def)

lemma keeps_Inr [simp]: "keeps cs (Inr x) st = sound_step cs (st x)"
  by (simp add: keeps_def)

lemma sound_whole [simp]: "sound_step cs (whole cs') = sound_step cs cs'"
  by (simp add: whole_def)

lemma keeps_after: "sound_step cs cs1 \<Longrightarrow> keeps cs1 m st \<Longrightarrow> keeps cs m st"
  using sound_trans unfolding keeps_def by blast

lemma bind0: "(\<And>x. m = Inr x \<Longrightarrow> keeps cs (f x) st) \<Longrightarrow> keeps cs (res_bind m f) st"
  by (cases m) auto

lemma bind1:
  assumes "keeps cs m whole" "\<And>cs1. refs_ok cs1 \<Longrightarrow> wider cs cs1 \<Longrightarrow> keeps cs1 (f cs1) st"
  shows "keeps cs (res_bind m f) st"
proof (rule bind0)
  fix x
  assume "m = Inr x"
  then have "sound_step cs x" using assms(1) by (simp add: keeps_def whole_def)
  then show "keeps cs (f x) st" using assms(2) [of x] keeps_after unfolding sound_step_def by blast
qed

lemma bind2:
  assumes "keeps cs m snd" "\<And>a cs1. refs_ok cs1 \<Longrightarrow> wider cs cs1 \<Longrightarrow> keeps cs1 (f (a, cs1)) st"
  shows "keeps cs (res_bind m f) st"
proof (rule bind0)
  fix x
  assume "m = Inr x"
  then have "sound_step cs (snd x)" using assms(1) by (simp add: keeps_def)
  then show "keeps cs (f x) st" using assms(2) [of "snd x" "fst x"] keeps_after sound_step_def by (metis prod.collapse)
qed

lemma keeps_upd [sound]: "refs_ok cs \<Longrightarrow> (\<And>t. c_next (f t) = c_next t) \<Longrightarrow> keeps cs (conn_upd c f cs) whole"
  by (rule keepsI) (simp add: upd_sound whole_def)

lemma keeps_id: "(\<And>cs'. m = Inr cs' \<Longrightarrow> sound_step cs cs') \<Longrightarrow> keeps cs m whole"
  by (simp add: keeps_def whole_def)

lemma keeps_snd: "(\<And>a cs'. m = Inr (a, cs') \<Longrightarrow> sound_step cs cs') \<Longrightarrow> keeps cs m snd"
  by (simp add: keeps_def)

lemma keeps_if [intro]: "(b \<Longrightarrow> keeps cs m st) \<Longrightarrow> (\<not> b \<Longrightarrow> keeps cs n st) \<Longrightarrow> keeps cs (if b then m else n) st"
  by simp

text \<open>The operations of the sections above in this form.\<close>

lemmas keeps_pool =
  keeps_id [OF free_sound] keeps_id [OF close_sound] keeps_snd [OF opr_event_sound] keeps_id [OF ping_erase_sound]
  keeps_id [OF free_self_sound] keeps_id [OF evhup_sound] keeps_id [OF free_round_sound] keeps_snd [OF get_sound(1)]

section \<open>Memory and sending\<close>

lemma alloc_sound: "refs_ok cs \<Longrightarrow> sound_step cs (snd (AllocMemory n cs))"
  using refs_ok_stored(5) [of cs] by (simp add: AllocMemory_def)

lemma free_mem_keeps: "refs_ok cs \<Longrightarrow> keeps cs (FreeMemory p cs) whole"
  by (auto simp: FreeMemory_def split: option.split intro: refs_ok_stored)

lemma refs_ok_mem_put:
  "refs_ok cs \<Longrightarrow> (\<And>h. mb_header b = Some h \<Longrightarrow> valid_conn cs (pConn h)) \<Longrightarrow> refs_ok (mem_put q b cs)"
  using refs_ok_stored(5) [of cs "Some b" q] by (simp add: mem_put_def split: option.splits)

lemma mem_put_sound:
  "refs_ok cs \<Longrightarrow> (\<And>h. mb_header b = Some h \<Longrightarrow> valid_conn cs (pConn h)) \<Longrightarrow> sound_step cs (mem_put q b cs)"
  by (simp add: refs_ok_mem_put)

lemma flood_keeps: "refs_ok cs \<Longrightarrow> keeps cs (TestFlood env c cs) snd"
  unfolding TestFlood_def
  by (auto simp: flood_count_def intro!: bind1 keeps_upd)

lemma release_keeps: "refs_ok cs \<Longrightarrow> keeps cs (send_release c cs) whole"
  unfolding send_release_def by (rule bind1) (auto intro: free_mem_keeps keeps_upd)

lemma unlock_keeps: "refs_ok cs \<Longrightarrow> keeps cs (unlock_conn c cs) whole"
  unfolding unlock_conn_def by (rule keeps_upd) simp_all

lemma lock_keeps: "refs_ok cs \<Longrightarrow> keeps cs (lock_conn c cs) whole"
  unfolding lock_conn_def by (auto intro: keeps_upd)

lemma opr_keeps: "refs_ok cs \<Longrightarrow> keeps cs (ngx_epoll_opr_event env c rd op cs) snd"
  by (rule keeps_snd) (rule opr_event_sound)

lemma advance_keeps: "refs_ok cs \<Longrightarrow> keeps cs (conn_upd c (send_advance n) cs) whole"
  by (rule keeps_upd) (simp_all add: send_advance_def)

lemma opr_state_keeps: "refs_ok cs \<Longrightarrow> keeps cs (res_bind (ngx_epoll_opr_event env c rd op cs) (\<lambda>r. Inr (snd r))) whole"
  by (rule bind2) (simp_all add: opr_keeps)

lemma release_unlock_keeps: "refs_ok cs \<Longrightarrow> keeps cs (res_bind (send_release c cs) (unlock_conn c)) whole"
  by (rule bind1) (simp_all add: release_keeps unlock_keeps)

lemma send_loop_keeps: "refs_ok cs \<Longrightarrow> keeps cs (sendMsg_loop env c ws cs) whole"
proof (induction env c ws cs rule: sendMsg_loop.induct)
  case (2 env c n ws cs)
  then show ?case
    using release_unlock_keeps [of cs c] by (auto intro!: bind1 [OF advance_keeps] opr_state_keeps)
next
  case (3 env c e ws cs)
  then show ?case by (auto intro!: opr_state_keeps release_keeps)
qed simp

lemma sendMsg_keeps: "refs_ok cs \<Longrightarrow> keeps cs (sendMsg env ws q cs) whole"
  unfolding sendMsg_def by (rule bind0) (auto simp: Let_def intro: release_unlock_keeps send_loop_keeps)

lemma remain_loop_keeps: "refs_ok cs \<Longrightarrow> keeps cs (sendRemainMsg_loop env c ws cs) whole"
proof (induction ws arbitrary: cs)
  case Nil
  then show ?case by (simp add: sendRemainMsg_loop.simps)
next
  case (Cons w ws)
  show ?case
  proof (cases w)
    case (W_sent n)
    then show ?thesis
      using Cons
      by (subst sendRemainMsg_loop.simps)
        (auto intro!: bind1 [OF advance_keeps] bind2 [OF opr_keeps] bind1 [OF release_keeps] bind1 [OF unlock_keeps])
  next
    case (W_fail e)
    then show ?thesis
      using Cons by (subst sendRemainMsg_loop.simps) (auto intro!: release_unlock_keeps)
  qed
qed

lemma remain_keeps: "refs_ok cs \<Longrightarrow> keeps cs (sendRemainMsg env ws c cs) whole"
  unfolding sendRemainMsg_def
  by (auto split: option.split intro!: bind0 release_unlock_keeps remain_loop_keeps)

section \<open>Dispatch\<close>

lemma lock_LT_keeps: "refs_ok cs \<Longrightarrow> keeps cs (lock_if_LT c cs) whole"
  unfolding lock_if_LT_def by (auto intro: lock_keeps)

text \<open>The protocol's method is an argument: it has to keep pointers sound.\<close>

definition business_safe :: "business_fun \<Rightarrow> bool" where
  "business_safe business \<longleftrightarrow> (\<forall>obj c q n cs. refs_ok cs \<longrightarrow> keeps cs (business obj c q n cs) whole)"

lemma business_keeps:
  assumes r: "refs_ok cs" and b: "business_safe business"
  shows "keeps cs (HandleBusiness business env ws obj c q n cs) snd"
  unfolding HandleBusiness_def
proof (rule bind1 [OF lock_LT_keeps [OF r]])
  fix cs1
  assume "refs_ok cs1"
  then have "keeps cs1 (business obj c q n cs1) whole" using b unfolding business_safe_def by blast
  then show "keeps cs1 (res_bind (business obj c q n cs1) (\<lambda>cs. res_bind (sendMsg env ws q cs) (\<lambda>cs. Inr (True, cs)))) snd"
    by (rule bind1) (rule bind1 [OF sendMsg_keeps], simp_all)
qed

lemma ping_reply_keeps:
  assumes r: "refs_ok cs" "valid_conn cs (pConn h)"
  shows "keeps cs (res_bind (conn_upd (pConn h) (\<lambda>t. t\<lparr>psendMemPointer := Some q, psendbuf := Some (q, MSGHEADERLEN)\<rparr>) cs) (\<lambda>cs.
        res_bind (conn_upd (pConn h) (\<lambda>t. t\<lparr>isendlen := of_nat PKGHEADERLEN\<rparr>)
            (mem_put q \<lparr>mb_header = Some h, mb_bytes = d\<rparr> cs)) (\<lambda>cs.
        res_bind (conn_upd c (\<lambda>t. t\<lparr>deleteFlag := True\<rparr>) cs) (\<lambda>cs.
        res_bind (sendMsg env ws q cs) (\<lambda>cs. Inr (True, cs)))))) snd"
proof (rule bind1 [OF keeps_upd [OF r(1)]])
  fix cs1
  assume c: "refs_ok cs1" "wider cs cs1"
  let ?cs = "mem_put q \<lparr>mb_header = Some h, mb_bytes = d\<rparr> cs1"
  have s: "sound_step cs1 ?cs" by (rule mem_put_sound [OF c(1)]) (use widerD [OF c(2) r(2)] in simp)
  show "keeps cs1 (res_bind (conn_upd (pConn h) (\<lambda>t. t\<lparr>isendlen := of_nat PKGHEADERLEN\<rparr>) ?cs) (\<lambda>cs.
        res_bind (conn_upd c (\<lambda>t. t\<lparr>deleteFlag := True\<rparr>) cs) (\<lambda>cs. res_bind (sendMsg env ws q cs) (\<lambda>cs. Inr (True, cs))))) snd"
    by (rule keeps_after [OF s]; rule bind1 [OF keeps_upd [OF sound_stepD(1) [OF s]]]; (rule bind1 [OF keeps_upd]; (rule bind1 [OF sendMsg_keeps])?)?; simp)
qed simp

lemma ping_keeps:
  assumes r: "refs_ok cs"
  shows "keeps cs (HandlePing env ws c q n cs) snd"
  unfolding HandlePing_def
proof (rule keeps_if, use r in simp, rule bind1 [OF lock_LT_keeps [OF r]], rule bind1 [OF keeps_upd], assumption, simp, goal_cases)
  case (1 cs1 cs2)
  obtain tptr cs3 where al: "AllocMemory (MSGHEADERLEN + PKGHEADERLEN) cs2 = (tptr, cs3)" by fastforce
  have s3: "sound_step cs2 cs3" using alloc_sound [OF 1(4), of "MSGHEADERLEN + PKGHEADERLEN"] al by simp
  show ?case
    unfolding al Let_def prod.case
  proof (rule keeps_after [OF s3], rule bind0, rule keeps_if, simp, rule bind0, goal_cases)
    case (1 src h)
    then have v: "valid_conn cs3 (pConn h)" using refs_ok_mem [OF sound_stepD(1) [OF s3]] by (simp add: mem_get_def)
    then have s4: "sound_step cs3 (mem_put tptr \<lparr>mb_header = Some h, mb_bytes = take PKGHEADERLEN (mb_bytes src)\<rparr> cs3)"
      by (intro mem_put_sound [OF sound_stepD(1) [OF s3]]) simp
    show ?case by (rule keeps_after [OF s4 ping_reply_keeps [OF sound_stepD(1) [OF s4]]]) (use v in simp)
  qed
qed

lemma dispatch_keeps:
  assumes r: "refs_ok cs" and b: "business_safe business"
  shows "keeps cs (threadRecvProcFunc business env ws obj p cs) whole"
proof (cases p)
  case (Some q)
  have f: "keeps cs (res_bind m (\<lambda>r. FreeMemory (Some q) (snd r))) whole" if "keeps cs m snd" for m :: "(bool \<times> csocket) res"
    by (rule bind2 [OF that]) (simp add: free_mem_keeps)
  show ?thesis
    unfolding threadRecvProcFunc_def Some option.case Let_def
    by (intro bind0 keeps_if f) (use r b in \<open>auto intro: ping_keeps business_keeps\<close>)
qed (simp add: threadRecvProcFunc_def)

section \<open>Receiving\<close>

lemma store_keeps: "refs_ok cs \<Longrightarrow> keeps cs (recv_store c bs cs) whole"
  unfolding recv_store_def
  by (auto split: recv_ptr.split intro!: bind0 keeps_upd refs_ok_mem_put simp: Let_def mem_get_def split: if_splits)
    (blast intro: refs_ok_mem)+

lemma recvproc_keeps:
  assumes r: "refs_ok cs" "valid_conn cs c"
  shows "keeps cs (recvproc env c x cs) snd"
proof -
  let ?d = "snd (ngx_epoll_del_event env c cs)"
  have d: "sound_step cs ?d" by (rule del_event_sound [OF r(1)])
  have a: "sound_step cs (add_free_timer env 10000 c ?d)"
    by (rule sound_trans [OF d add_free_timer_sound]) (use sound_stepD [OF d] r(2) in auto)
  have d': "sound_step cs (?d\<lparr>m_onlineUserCount := n\<rparr>)" for n using d by (simp add: sound_step_def wider_def)
  have a': "sound_step cs (add_free_timer env 10000 c (?d\<lparr>m_onlineUserCount := n\<rparr>))" for n
    by (rule sound_trans [OF d' add_free_timer_sound]) (use sound_stepD [OF d'] r(2) in auto)
  have p: "keeps cs (res_bind (ping_erase t cs1) (\<lambda>cs. Inr (k, cs))) snd" if "sound_step cs cs1" for t cs1 and k :: int
    by (rule keeps_after [OF that], rule bind1 [OF keeps_id [OF ping_erase_sound]]) (use sound_stepD(1) [OF that] in simp_all)
  have cl: "keeps cs (res_bind (ngx_close_connection c ?d) (\<lambda>cs. Inr (- 1, cs))) snd"
    by (rule keeps_after [OF d], rule bind1 [OF keeps_id [OF close_sound]]) (use sound_stepD(1) [OF d] in simp_all)
  have st: "keeps cs (res_bind (recv_store c bs cs) (\<lambda>cs. Inr (int (length bs), cs))) snd" for bs
    by (rule bind1 [OF store_keeps [OF r(1)]]) simp
  show ?thesis
    unfolding recvproc_def Let_def using p [OF a'] p [OF a] cl st r(1)
    by (cases x) auto
qed

lemma p1_alloc_keeps:
  assumes r: "refs_ok cs" "valid_conn cs c"
  shows "keeps cs (p1_alloc c n cs) snd"
proof -
  obtain q cs1 where al: "AllocMemory (MSGHEADERLEN + unat n) cs = (q, cs1)" by fastforce
  have s1: "sound_step cs cs1" using alloc_sound [OF r(1), of "MSGHEADERLEN + unat n"] al by simp
  show ?thesis
    unfolding p1_alloc_def al Let_def prod.case
  proof (rule keeps_after [OF s1], rule bind1 [OF keeps_upd [OF sound_stepD(1) [OF s1]]], simp, intro bind0, goal_cases)
    case (1 cs2 b d)
    then have "valid_conn cs2 c" using widerD sound_stepD(2) [OF s1 r(2)] by blast
    then show ?case using 1 by (auto intro!: refs_ok_mem_put)
  qed
qed

lemma plast_keeps:
  assumes "refs_ok cs"
  shows "keeps cs (ngx_wait_request_handler_proc_plast c cs) whole"
proof -
  have "refs_ok (cs\<lparr>tasks := tasks cs @ [T_threadRecvProcFunc ob p]\<rparr>)" for ob p
    using assms by (intro refs_ok_stored) (simp_all add: refs_ok_def roots_ok_def)
  then have s: "sound_step cs (cs\<lparr>tasks := tasks cs @ [T_threadRecvProcFunc ob p]\<rparr>)" for ob p by simp
  show ?thesis
    unfolding ngx_wait_request_handler_proc_plast_def
    by (rule keeps_after [OF s keeps_upd [OF sound_stepD(1) [OF s]]]) (simp add: recv_reset_def)
qed

lemma reset_keeps:
  "refs_ok cs \<Longrightarrow> keeps cs (conn_upd c recv_reset cs) whole" "refs_ok cs \<Longrightarrow> keeps cs (conn_upd c (p1_body q n) cs) whole"
  "refs_ok cs \<Longrightarrow> keeps cs (conn_upd c (more_header k) cs) whole" "refs_ok cs \<Longrightarrow> keeps cs (conn_upd c (more_body k) cs) whole"
  by (rule keeps_upd; simp add: recv_reset_def p1_body_def more_header_def more_body_def)+

lemma ret_keeps: "keeps cs m whole \<Longrightarrow> keeps cs (res_bind m (\<lambda>cs. Inr (a, cs))) snd"
  by (rule bind1) simp_all

lemma p1_keeps:
  assumes r: "refs_ok cs" "valid_conn cs c"
  shows "keeps cs (ngx_wait_request_handler_proc_p1 env c cs) snd"
  unfolding ngx_wait_request_handler_proc_p1_def Let_def
  by (intro keeps_if ret_keeps reset_keeps r bind2 [OF p1_alloc_keeps [OF r]])
    (auto intro!: ret_keeps reset_keeps bind2 [OF flood_keeps] plast_keeps)

lemma kick_keeps: "refs_ok cs \<Longrightarrow> valid_conn cs c \<Longrightarrow> keeps cs (kick_if env c (b, cs)) whole"
  unfolding kick_if_def by (auto intro: keeps_id free_self_sound)

lemma read_keeps:
  assumes r: "refs_ok cs" "valid_conn cs c"
  shows "keeps cs (ngx_read_request_handler env c x cs) whole"
  unfolding ngx_read_request_handler_def
proof (rule bind2 [OF recvproc_keeps [OF r]], goal_cases)
  case (1 ret cs1)
  have v: "valid_conn cs1 c" by (rule widerD [OF 1(2) r(2)])
  have p1: "keeps cs1 (res_bind (ngx_wait_request_handler_proc_p1 env c cs1) (kick_if env c)) whole"
    by (rule bind2 [OF p1_keeps [OF 1(1) v]]) (auto intro: kick_keeps widerD [OF _ v])
  have fl: "keeps cs1 (res_bind (TestFlood env c cs1) (\<lambda>(floodflag, cs).
      if floodflag then ngx_free_con_self env c cs
      else if uint (irecvlen (conns cs c)) = ret then ngx_wait_request_handler_proc_plast c cs
      else conn_upd c (more_body (nat ret)) cs)) whole"
    by (rule bind2 [OF flood_keeps [OF 1(1)]])
      (auto intro!: keeps_id [OF free_self_sound] plast_keeps reset_keeps intro: widerD [OF _ v])
  show ?case
    using 1(1) p1 fl by (auto simp: Let_def split: pkg_stat.split intro!: reset_keeps plast_keeps)
qed

section \<open>Edge triggered mode\<close>

lemma plast_ET_keeps:
  assumes "refs_ok cs" "business_safe business"
  shows "keeps cs (ngx_wait_request_handler_proc_plast_ET business env ws c cs) whole"
  unfolding ngx_wait_request_handler_proc_plast_ET_def
  by (rule bind1 [OF dispatch_keeps [OF assms]], rule keeps_upd) (simp_all add: recv_reset_def)

lemma ret3_keeps: "keeps cs m whole \<Longrightarrow> keeps cs (res_bind m (\<lambda>cs. Inr (a, b, cs))) (snd \<circ> snd)"
  by (rule bind1) simp_all

lemma p1_ET_keeps:
  assumes r: "refs_ok cs" "valid_conn cs c" and b: "business_safe business"
  shows "keeps cs (ngx_wait_request_handler_proc_p1_ET business env ws c cs) (snd \<circ> snd)"
  unfolding ngx_wait_request_handler_proc_p1_ET_def Let_def
  by (intro keeps_if ret3_keeps reset_keeps r bind2 [OF p1_alloc_keeps [OF r]])
    (auto intro!: ret3_keeps reset_keeps bind2 [OF flood_keeps] plast_ET_keeps b)

lemma bind3:
  assumes "keeps cs m (snd \<circ> snd)" "\<And>a b cs1. refs_ok cs1 \<Longrightarrow> wider cs cs1 \<Longrightarrow> keeps cs1 (f (a, b, cs1)) st"
  shows "keeps cs (res_bind m f) st"
proof (rule bind0)
  fix x
  assume m: "m = Inr x"
  obtain a b cs1 where x: "x = (a, b, cs1)" by (cases x)
  then have "sound_step cs cs1" using assms(1) m by (simp add: keeps_def)
  then show "keeps cs (f x) st" using assms(2) [of cs1 a b] keeps_after x unfolding sound_step_def by blast
qed

lemma recv_ET_loop_keeps:
  "refs_ok cs \<Longrightarrow> valid_conn cs c \<Longrightarrow> business_safe business \<Longrightarrow> keeps cs (recvproc_ET_loop business env ws c rs cs) snd"
proof (induction rs arbitrary: cs)
  case (Cons r rs)
  note b = Cons.prems(3)
  show ?case
    unfolding recvproc_ET_loop.simps
  proof (rule bind2 [OF recvproc_keeps [OF Cons.prems(1,2)]], goal_cases)
    case (1 ret cs1)
    have v: "valid_conn cs1 c" by (rule widerD [OF 1(2) Cons.prems(2)])
    have go: "keeps cs2 (recvproc_ET_loop business env ws c rs cs2) snd" if "refs_ok cs2" "wider cs1 cs2" for cs2
      by (rule Cons.IH [OF that(1) widerD [OF that(2) v] b])
    have un: "keeps cs1 (res_bind (unlock_conn c cs1) (\<lambda>cs. Inr (False, cs))) snd"
      by (rule ret_keeps [OF unlock_keeps [OF 1(1)]])
    have p1: "keeps cs1 (res_bind (ngx_wait_request_handler_proc_p1_ET business env ws c cs1) (\<lambda>(flag, floodflag, cs).
        if \<not> flag \<and> \<not> floodflag then recvproc_ET_loop business env ws c rs cs else Inr (floodflag, cs))) snd"
      by (rule bind3 [OF p1_ET_keeps [OF 1(1) v b]]) (auto intro: go)
    have more: "keeps cs1 (res_bind (conn_upd c (more_header k) cs1) (recvproc_ET_loop business env ws c rs)) snd"
      "keeps cs1 (res_bind (conn_upd c (more_body k) cs1) (recvproc_ET_loop business env ws c rs)) snd" for k
      by (rule bind1; use 1(1) in \<open>auto intro: reset_keeps go\<close>)+
    have la: "keeps cs2 (res_bind (ngx_wait_request_handler_proc_plast_ET business env ws c cs2) (\<lambda>cs. Inr (False, cs))) snd"
      if "refs_ok cs2" for cs2
      by (rule ret_keeps [OF plast_ET_keeps [OF that b]])
    have fl: "keeps cs1 (res_bind (TestFlood env c cs1) (\<lambda>(floodflag, cs).
        if floodflag then Inr (True, cs)
        else if uint (irecvlen (conns cs c)) = ret
        then res_bind (ngx_wait_request_handler_proc_plast_ET business env ws c cs) (\<lambda>cs. Inr (False, cs))
        else res_bind (conn_upd c (more_body (nat ret)) cs) (recvproc_ET_loop business env ws c rs))) snd"
      by (rule bind2 [OF flood_keeps [OF 1(1)]])
        (auto intro!: la bind1 [OF reset_keeps(4)] go intro: wider_trans)
    show ?case
      using 1(1) un p1 more la [OF 1(1)] fl by (auto simp: Let_def split: pkg_stat.split)
  qed
qed simp

lemma recv_ET_keeps:
  assumes r: "refs_ok cs" "valid_conn cs c" and b: "business_safe business"
  shows "keeps cs (recvproc_ET business env ws c rs cs) whole"
  unfolding recvproc_ET_def
proof (rule bind1 [OF lock_keeps [OF r(1)]], goal_cases)
  case (1 cs1)
  have v: "valid_conn cs1 c" by (rule widerD [OF 1(2) r(2)])
  show ?case
    by (rule bind2 [OF recv_ET_loop_keeps [OF 1(1) v b]])
      (auto intro!: bind1 [OF keeps_id [OF free_self_sound]] unlock_keeps intro: widerD [OF _ v])
qed

section \<open>Heartbeat\<close>

lemma add_check_keeps:
  assumes r: "refs_ok cs"
  shows "keeps cs (ngx_add_check env c cs) whole"
  unfolding ngx_add_check_def
proof (rule bind0, goal_cases)
  case (1 cs1)
  have s1: "sound_step cs cs1" by (rule upd_sound [OF r 1]) simp
  have v: "valid_conn cs1 c" using 1 by (auto simp: conn_upd_Inr_iff)
  obtain q cs2 where al: "AllocMemory MSGHEADERLEN cs1 = (q, cs2)" by fastforce
  have s2: "sound_step cs1 cs2" using alloc_sound [OF sound_stepD(1) [OF s1], of MSGHEADERLEN] al by simp
  have "refs_ok (mem_put q \<lparr>mb_header = Some \<lparr>pConn = c, hdr_sequence = sq\<rparr>, mb_bytes = []\<rparr> cs2)" for sq
    by (rule refs_ok_mem_put [OF sound_stepD(1) [OF s2]]) (use sound_stepD(2) [OF s2 v] in simp)
  then have "keeps cs1 (if m_PingMutex cs1 then Inl Blocked else
      let (q, cs) = AllocMemory MSGHEADERLEN cs1;
          cs = mem_put q \<lparr>mb_header = Some \<lparr>pConn = c, hdr_sequence = iCurrsequence (conns cs c)\<rparr>, mb_bytes = []\<rparr> cs
      in Inr (cs\<lparr>m_timerQueuemap := mm_insert (lastPingTime (conns cs c)) q (m_timerQueuemap cs)\<rparr>)) whole"
    using s2 by (simp add: al Let_def sound_step_def wider_def whole_def)
  then show ?case by (rule keeps_after [OF s1])
qed

lemma check_loop_keeps: "refs_ok cs \<Longrightarrow> keeps cs (check_loop fuel env cs) whole"
proof (induction fuel arbitrary: cs)
  case (Suc fuel)
  have go: "keeps cs1 (check_loop fuel env (cs1\<lparr>m_timerQueuemap := l\<rparr>)) whole" if "refs_ok cs1" for cs1 l
    using Suc.IH [of "cs1\<lparr>m_timerQueuemap := l\<rparr>"] that keeps_after [of cs1 "cs1\<lparr>m_timerQueuemap := l\<rparr>"] by simp
  have fr: "keeps cs1 (res_bind (FreeMemory (Some q) cs1) (\<lambda>cs. check_loop fuel env (cs\<lparr>m_timerQueuemap := g cs\<rparr>))) whole"
    if "refs_ok cs1" for cs1 q g by (rule bind1 [OF free_mem_keeps [OF that]]) (rule go)
  have self: "keeps cs (res_bind (ngx_free_con_self env c cs) (\<lambda>cs.
      res_bind (FreeMemory (Some q) cs) (\<lambda>cs. check_loop fuel env (cs\<lparr>m_timerQueuemap := tl (m_timerQueuemap cs)\<rparr>)))) whole"
    if "valid_conn cs c" for c q by (rule bind1 [OF keeps_id [OF free_self_sound [OF Suc.prems that]]]) (simp_all add: fr)
  have up: "keeps cs (res_bind (conn_upd c (\<lambda>t. t\<lparr>storePingTime := lastPingTime t\<rparr>) cs)
      (\<lambda>cs. check_loop fuel env (cs\<lparr>m_timerQueuemap := l\<rparr>))) whole" for c l
    by (rule bind1 [OF keeps_upd [OF Suc.prems]]) (simp_all add: go)
  show ?case
  proof (cases "m_timerQueuemap cs")
    case Nil
    then show ?thesis using Suc.prems by simp
  next
    case (Cons e l)
    show ?thesis
      unfolding check_loop.simps Cons list.case Let_def
      by (cases e; simp only: prod.case; rule bind0; intro keeps_if fr self up Suc.prems;
        use Suc.prems in \<open>auto dest: refs_ok_header\<close>)
  qed
qed simp

lemma check_keeps:
  assumes r: "refs_ok cs"
  shows "keeps cs (ngx_time_check_round env cs) snd"
proof -
  have "keeps cs (res_bind (check_loop n env (cs\<lparr>m_PingMutex := True\<rparr>)) (\<lambda>cs. Inr (True, cs\<lparr>m_PingMutex := False\<rparr>))) snd" for n
    by (rule keeps_after [of _ "cs\<lparr>m_PingMutex := True\<rparr>"], use r in simp, rule bind1 [OF check_loop_keeps]) (use r in simp_all)
  then show ?thesis using r by (auto simp: ngx_time_check_round_def simp del: check_loop.simps split: list.split)
qed

section \<open>Accepting and the event loop\<close>

lemma setup_keeps:
  assumes r: "refs_ok cs"
  shows "keeps cs (accept_setup ae oldc c cs) whole"
proof (cases "listening (conns cs oldc)")
  case (Some l)
  have obj: "keeps cs (new_logicobj ae p cs) snd" for p using r by (auto simp: new_logicobj_def)
  show ?thesis
    unfolding accept_setup_def Some option.case Let_def
  proof (rule keeps_if, simp, rule bind2 [OF obj], goal_cases)
    case (1 ob cs1)
    have s: "sound_step cs1 (cs1\<lparr>m_onlineUserCount := m_onlineUserCount cs1 + 1\<rparr>)" using 1 by simp
    show ?case
      unfolding prod.case
      by (rule keeps_after [OF s bind1 [OF keeps_upd [OF sound_stepD(1) [OF s]]]], simp, rule bind2 [OF opr_keeps], assumption)
        (auto intro: add_check_keeps keeps_id close_sound)
  qed
qed (simp add: accept_setup_def)

lemma accept_loop_keeps: "refs_ok cs \<Longrightarrow> keeps cs (accept_loop ae oldc b rs cs) whole"
proof (induction ae oldc b rs cs rule: accept_loop.induct)
  case (3 ae oldc b f rs cs)
  then show ?case
    by (auto simp: close_fd_def intro!: bind2 [OF keeps_snd [OF get_sound(1)]] setup_keeps split: option.split)
qed auto

lemma accept_keeps: "refs_ok cs \<Longrightarrow> keeps cs (ngx_event_accept ae oldc rs cs) whole"
  unfolding ngx_event_accept_def by (rule accept_loop_keeps)

lemma queue_sound:
  assumes "refs_ok cs" "task_ok (valid_conn cs) t"
  shows "sound_step cs (cs\<lparr>tasks := tasks cs @ [t]\<rparr>)"
proof -
  have "list_all (task_ok (valid_conn cs)) (tasks cs @ [t])" using assms by (simp add: refs_ok_def roots_ok_def)
  from refs_ok_stored(1) [OF assms(1) this] show ?thesis by simp
qed

lemma handler_keeps:
  assumes r: "refs_ok cs" "valid_conn cs (re_ptr ev)"
  shows "keeps cs (call_handler ae ev hdl cs) whole"
  unfolding call_handler_def ngx_read_request_handler_ET_def ngx_write_request_handler_def
  using queue_sound [OF r(1), of "T_recvproc_ET (re_ptr ev)"] queue_sound [OF r(1), of "T_sendRemainMsg (re_ptr ev)"] r
  by (auto split: option.split handler.split intro!: accept_keeps read_keeps keeps_id [OF evhup_sound] simp del: sound_plain)

lemma dispatch_event_keeps:
  assumes r: "refs_ok cs" "valid_conn cs (re_ptr ev)"
  shows "keeps cs (dispatch ae ev cs) whole"
  unfolding dispatch_def
proof (rule bind1, goal_cases)
  case 1
  show ?case using r by (auto intro: handler_keeps)
next
  case (2 cs1)
  then show ?case using handler_keeps [OF 2(1) widerD [OF 2(2) r(2)]] by (auto simp: Let_def)
qed

lemma dispatch_all_keeps:
  "refs_ok cs \<Longrightarrow> list_all (\<lambda>ev. valid_conn cs (re_ptr ev)) evs \<Longrightarrow> keeps cs (dispatch_all ae evs cs) whole"
proof (induction evs arbitrary: cs)
  case (Cons ev evs)
  have "keeps cs (dispatch ae ev cs) whole" using Cons.prems by (auto intro: dispatch_event_keeps)
  then show ?case
    using Cons by (auto intro!: bind1 simp: list_all_iff intro: widerD)
qed simp

text \<open>The kernel reports the pointers that were registered with it.\<close>

fun reported :: "epoll_ret \<Rightarrow> csocket \<Rightarrow> bool" where
  "reported (E_events evs) cs \<longleftrightarrow> (\<forall>ev\<in>set evs. \<exists>f reg. epoll_set cs f = Some reg \<and> ev_ptr reg = re_ptr ev)"
| "reported _ cs \<longleftrightarrow> True"

lemma reported_valid: "refs_ok cs \<Longrightarrow> reported (E_events evs) cs \<Longrightarrow> list_all (\<lambda>ev. valid_conn cs (re_ptr ev)) evs"
  unfolding list_all_iff by (metis reg_ok_simps(2) refs_ok_def reported.simps(1) roots_ok_def)

lemma events_keeps: "refs_ok cs \<Longrightarrow> reported r cs \<Longrightarrow> keeps cs (ngx_epoll_process_events ae tm r cs) snd"
  by (cases r) (auto simp: ngx_epoll_process_events_def intro!: ret_keeps dispatch_all_keeps reported_valid simp del: reported.simps)

lemma timer_cb_keeps:
  assumes "refs_ok cs" "opt_ok (valid_conn cs) (snd cb)"
  shows "keeps cs (run_timer_cb cb cs) whole"
  using assms tofree_sound [of cs]
  by (cases cb) (auto simp: run_timer_cb_def split: timer_cb.split option.split simp del: sound_plain)

lemma round_keeps:
  assumes r: "refs_ok cs" "reported rt cs"
  shows "keeps cs (worker_round ae rt cs) whole"
  unfolding worker_round_def
proof (rule bind2 [OF events_keeps [OF r]], goal_cases)
  case (1 ret cs1)
  have "keeps cs1 (res_bind (CheckTimer t (timers cs1)) (\<lambda>(cb, ts). let cs = cs1\<lparr>timers := ts\<rparr> in
      case cb of None \<Rightarrow> Inr cs | Some x \<Rightarrow> run_timer_cb x cs)) whole" for t
  proof (rule bind0, goal_cases)
    case (1 x)
    obtain cb T where x: "x = (cb, T)" by (cases x)
    note a = args_ok_CheckTimer [OF refs_ok_args [OF \<open>refs_ok cs1\<close>] 1 [unfolded x]]
    have s: "sound_step cs1 (cs1\<lparr>timers := T\<rparr>)" using refs_ok_timers [OF \<open>refs_ok cs1\<close>] a by simp
    show ?case
      using a s by (auto simp: x Let_def split: option.split intro!: keeps_after [OF s timer_cb_keeps] sound_stepD(1) [OF s])
  qed
  then show ?case using 1 by auto
qed

section \<open>Tasks\<close>

lemma http_business_safe: "business_safe (http_business henv objs)"
  unfolding business_safe_def
proof (intro allI impI)
  fix obj c q n and cs :: csocket
  assume r: "refs_ok cs"
  show "keeps cs (http_business henv objs obj c q n cs) whole"
  proof (cases obj)
    case (Some ob)
    show ?thesis
      unfolding http_business_def Some option.case
    proof (rule bind1 [OF keeps_upd [OF r]], simp, rule bind0, rule bind0, rule bind0, goal_cases)
      case (1 cs1 b body x)
      then have s: "sound_step cs1 (mem_put q (b\<lparr>mb_bytes := m\<rparr>) cs1)" for m
        using refs_ok_mem [OF 1(1)] by (intro mem_put_sound) (auto simp: mem_get_def)
      show ?case
        by (cases x, simp only: prod.case, rule bind0, rule bind0, rule keeps_after [OF s keeps_upd [OF sound_stepD(1) [OF s]]]) simp
    qed
  qed (simp add: http_business_def)
qed

lemma returned_keeps: "keeps cs m whole \<Longrightarrow> keeps cs (returned m) snd"
  unfolding returned_def by (rule bind1) auto

lemma run_task_keeps:
  assumes r: "refs_ok cs" "task_ok (valid_conn cs) t" and b: "business_safe business"
  shows "keeps cs (run_task business env rs ws t cs) snd"
proof (cases t)
  case T_ngx_time_check
  then show ?thesis by (simp, intro bind2 [OF check_keeps [OF r(1)]], simp)
next
  case T_ngx_timer_free_connection
  then show ?thesis by (simp, intro bind1 [OF keeps_id [OF free_round_sound [OF r(1)]]]) simp_all
qed (use r b in \<open>auto intro: returned_keeps recv_ET_keeps dispatch_keeps remain_keeps\<close>)

text \<open>The started tasks of a worker are roots as well.\<close>

fun worker_ok :: "worker \<Rightarrow> bool" where
  "worker_ok (cs, running) \<longleftrightarrow> refs_ok cs \<and> list_all (task_ok (valid_conn cs)) running"

lemma task_ok_mono: "task_ok V t \<Longrightarrow> (\<And>c. V c \<Longrightarrow> W c) \<Longrightarrow> task_ok W t"
  by (cases t) auto

lemma running_kept: "sound_step cs cs' \<Longrightarrow> list_all (task_ok (valid_conn cs)) ts \<Longrightarrow> list_all (task_ok (valid_conn cs')) ts"
  by (auto simp: list_all_iff intro: task_ok_mono sound_stepD(2))

lemma take_task_ok: "worker_ok w \<Longrightarrow> take_task w = Inr w' \<Longrightarrow> worker_ok w'"
proof (induction w rule: take_task.induct)
  case (1 cs running)
  then obtain t ts where t: "tasks cs = t # ts" "w' = (cs\<lparr>tasks := ts\<rparr>, t # running)" by (auto split: list.splits)
  then have "list_all (task_ok (valid_conn cs)) (t # ts)" using 1(1) by (simp add: refs_ok_def roots_ok_def)
  then show ?case using t 1(1) refs_ok_stored(1) [of cs ts] by simp
qed

lemma run_started_ok:
  "worker_ok w \<Longrightarrow> business_safe business \<Longrightarrow> run_started business env rs ws i w = Inr w' \<Longrightarrow> worker_ok w'"
proof (induction business env rs ws i w rule: run_started.induct)
  case (1 business env rs ws i cs running)
  then obtain ended cs' where r: "i < length running" "run_task business env rs ws (running ! i) cs = Inr (ended, cs')"
    "w' = (cs', if ended then take i running @ drop (i + 1) running else running)"
    by (auto split: if_splits)
  have "task_ok (valid_conn cs) (running ! i)" using 1(1) r(1) by (simp add: list_all_length)
  then have s: "sound_step cs cs'" using keepsD [OF run_task_keeps r(2)] 1(1,2) by simp
  have "list_all (task_ok (valid_conn cs)) running" using 1(1) by simp
  note running_kept [OF s this]
  then have "list_all (task_ok (valid_conn cs')) (if ended then take i running @ drop (i + 1) running else running)"
    by (auto simp: list_all_iff dest: in_set_takeD in_set_dropD)
  then show ?case using r(3) sound_stepD(1) [OF s] by simp
qed

section \<open>The worker\<close>

text \<open>
  The steps of a worker: a round of the event loop; a thread of the pool takes the first task of the queue; a thread
  runs a stretch of the task it has taken, whichever of the started tasks that is. So the two checking tasks go on, round
  after round, beside the others, and a task that has to wait keeps no other from running. The environment of a step
  (clocks, answers of the kernel, the contents of the protocol objects) is arbitrary. A step is a whole round or a whole
  task: one that waits for a lock or in a loop without end has no successor, and what other threads do in the middle of
  a round or task is not covered.
\<close>

inductive worker_step :: "worker \<Rightarrow> worker \<Rightarrow> bool" where
  event_loop: "reported r cs \<Longrightarrow> worker_round ae r cs = Inr cs' \<Longrightarrow> worker_step (cs, running) (cs', running)"
| pool_take: "take_task w = Inr w' \<Longrightarrow> worker_step w w'"
| pool_run: "run_started (http_business henv objs) env rs ws i w = Inr w' \<Longrightarrow> worker_step w w'"

inductive_cases worker_stepE: "worker_step w w'"

lemma round_ok:
  assumes "worker_ok (cs, running)" "reported r cs" "worker_round ae r cs = Inr cs'"
  shows "worker_ok (cs', running)"
proof -
  have s: "sound_step cs cs'" using keepsD [OF round_keeps assms(3)] assms(1,2) by (simp add: whole_def)
  show ?thesis using sound_stepD(1) [OF s] running_kept [OF s] assms(1) by simp
qed

lemma worker_step_ok: "worker_step w w' \<Longrightarrow> worker_ok w \<Longrightarrow> worker_ok w'"
  by (erule worker_stepE) (blast dest: round_ok take_task_ok run_started_ok [OF _ http_business_safe])+

lemma worker_steps_ok: "worker_step\<^sup>*\<^sup>* w w' \<Longrightarrow> worker_ok w \<Longrightarrow> worker_ok w'"
  by (induction rule: rtranclp_induct) (auto dest: worker_step_ok)

text \<open>The start: no array and no stored pointer.\<close>

lemma init_sound:
  assumes f: "m_pconnections cs = []" "roots_ok (\<lambda>_. False) cs" and i: "init_pool cs = Inr cs'"
  shows "refs_ok cs'"
proof -
  let ?n = "nat (m_worker_connections cs)"
  let ?cs = "cs\<lparr>m_connection_n := m_worker_connections cs, m_pconnections := [?n],
      conns := (\<lambda>p. if fst p = 0 \<and> snd p < ?n then zero_connection else conns cs p),
      m_pfree_connections := Some (0, 0), m_free_connection_n := m_worker_connections cs\<rparr>"
  have l: "link_array 0 ?n ?cs = Inr cs'" using i f(1) by (simp add: init_pool_def Let_def split: if_splits)
  have n: "0 < ?n"
  proof (rule ccontr)
    assume "\<not> 0 < ?n"
    then show False using l by (simp add: link_array_def conn_upd_Inr_iff valid_conn_def)
  qed
  obtain h where h: "cs' = ?cs\<lparr>conns := h\<rparr>" "\<forall>j<?n. c_next (h (0, j)) = (if j < ?n - 1 then Some (0, j + 1) else None)"
    using link_array_next [OF l n] by auto
  have V: "valid_conn cs' p \<longleftrightarrow> fst p = 0 \<and> snd p < ?n" for p by (auto simp: h(1) valid_conn_def)
  have "opt_ok (valid_conn cs') (c_next (conns cs' p))" if "valid_conn cs' p" for p
    using that h(2) V by (cases p) (auto simp: h(1))
  moreover have "roots_ok (valid_conn cs') cs'"
    using roots_ok_mono [OF f(2), of "valid_conn cs'"] V [of "(0, 0)"] n by (simp add: roots_ok_def h(1))
  ultimately show ?thesis by (auto simp: refs_ok_def nexts_ok_def)
qed

lemma listen_keeps:
  "refs_ok cs \<Longrightarrow> listen_loop env i ls cs = Inr (Some cs') \<Longrightarrow> refs_ok cs'"
proof (induction ls arbitrary: i cs)
  case (Cons l ls)
  obtain c cs1 cs2 where c: "ngx_get_connection (l_fd l) cs = Inr (Some c, cs1)"
    "conn_upd c (\<lambda>x. x\<lparr>listening := Some i, rhandler := Some H_ngx_event_accept\<rparr>)
       (cs1\<lparr>m_ListenSocketList := (m_ListenSocketList cs1)[i := l\<lparr>l_connection := Some c\<rparr>]\<rparr>) = Inr cs2"
    "listen_loop env (i + 1) ls (cs2\<lparr>epoll_set := (epoll_set cs2)(fd (conns cs2 c) \<mapsto>
       \<lparr>ev_in = True, ev_out = False, ev_et = False, ev_ptr = c\<rparr>)\<rparr>) = Inr (Some cs')"
    using Cons.prems(2) by (auto split: option.splits if_splits)
  note g = get_sound [OF Cons.prems(1) c(1)]
  have v: "valid_conn cs1 c" by (rule g(2)) simp
  have "list_all (\<lambda>l. opt_ok (valid_conn cs1) (l_connection l)) ((m_ListenSocketList cs1)[i := l\<lparr>l_connection := Some c\<rparr>])"
    using sound_stepD(1) [OF g(1)] v set_update_subset_insert by (fastforce simp: refs_ok_def roots_ok_def list_all_iff)
  then have "refs_ok (cs1\<lparr>m_ListenSocketList := (m_ListenSocketList cs1)[i := l\<lparr>l_connection := Some c\<rparr>]\<rparr>)"
    by (rule refs_ok_stored(7) [OF sound_stepD(1) [OF g(1)]])
  from upd_sound [OF this c(2)] have r2: "refs_ok cs2" and "valid_conn cs2 c"
    using v by (auto dest: sound_stepD)
  then show ?case using Cons.IH [OF refs_ok_stored(4) [OF r2] c(3)] by simp
qed simp

section \<open>Properties\<close>

text \<open>
  C5. Stored connection pointers are sound. From a worker that has just been set up, however many rounds of the event
  loop, tasks taken by threads of the pool, whole tasks and rounds of the two checking tasks follow, in whatever order,
  with whatever events, messages, answers of the kernel and failures: every pointer to a connection that the program
  keeps (the head and the links of the free list, the registrations with epoll, the queued and the started tasks, the
  timers, the list of connections to release, the headers of all messages and heartbeat entries, the listening sockets)
  names a cell of an allocated array, so that no handler or task can be called for a connection that does not exist.
\<close>

theorem stored_connections_valid:
  assumes "m_pconnections cs0 = []" "roots_ok (\<lambda>_. False) cs0"
    and "ngx_epoll_init env cs0 = Inr (Some cs1)" "worker_step\<^sup>*\<^sup>* (cs1, []) (cs, running)"
  shows "refs_ok cs \<and> list_all (task_ok (valid_conn cs)) running"
proof -
  let ?cs = "cs0\<lparr>tasks := tasks cs0 @ [T_ngx_time_check, T_ngx_timer_free_connection],
      timers := AddTimer (e_steady env) 20000 (- 1) CB_ngx_time_tocheck None (timers cs0)\<rparr>"
  obtain cs2 where i: "init_pool ?cs = Inr cs2" "listen_loop env 0 (m_ListenSocketList cs2) cs2 = Inr (Some cs1)"
    using assms(3) by (auto simp: ngx_epoll_init_def Let_def)
  have "args_ok (\<lambda>_. False) (timers cs0)" using assms(2) by (simp add: args_ok_def roots_ok_def)
  then have "args_ok (\<lambda>_. False) (timers ?cs)" by (simp add: args_ok_AddTimer)
  then have "roots_ok (\<lambda>_. False) ?cs" using assms(2) by (simp add: roots_ok_def args_ok_def)
  then have "refs_ok cs2" using init_sound [OF _ _ i(1)] assms(1) by simp
  then have "refs_ok cs1" using listen_keeps [OF _ i(2)] by blast
  then show ?thesis using worker_steps_ok [OF assms(4)] by simp
qed

text \<open>A worker before its start, with a listening socket on port 80 and room for 32 connections.\<close>

definition sample_start :: csocket where
  "sample_start =
     sample_socket\<lparr>m_pconnections := [], m_worker_connections := 32, m_connection_n_max := 48,
       m_ListenSocketList := [\<lparr>port = 80, l_fd = 4, l_connection = None\<rparr>]\<rparr>"

text \<open>Two threads take the checking tasks, which the start has queued, and a round of the event loop follows.\<close>

theorem stored_connections_valid_witness:
  "\<exists>cs1. ngx_epoll_init sample_env sample_start = Inr (Some cs1) \<and>
     worker_step\<^sup>*\<^sup>* (cs1, []) (cs1\<lparr>tasks := []\<rparr>, [T_ngx_timer_free_connection, T_ngx_time_check]) \<and> refs_ok (cs1\<lparr>tasks := []\<rparr>)"
proof -
  have s: "m_pconnections sample_start = []" "roots_ok (\<lambda>_. False) sample_start" "tasks sample_start = []"
    by (simp_all add: sample_start_def sample_socket_def roots_ok_def empty_Timer_def)
  obtain cs1 where i: "ngx_epoll_init sample_env sample_start = Inr (Some cs1)"
    "tasks cs1 = [T_ngx_time_check, T_ngx_timer_free_connection]"
    using epoll_init_listens [of sample_start sample_env] s(3)
    by (auto simp: sample_start_def sample_socket_def sample_env_def)
  let ?cs = "cs1\<lparr>tasks := []\<rparr>" and ?ts = "[T_ngx_timer_free_connection, T_ngx_time_check]"
  have t: "worker_step (cs1, []) (cs1\<lparr>tasks := [T_ngx_timer_free_connection]\<rparr>, [T_ngx_time_check])"
    "worker_step (cs1\<lparr>tasks := [T_ngx_timer_free_connection]\<rparr>, [T_ngx_time_check]) (?cs, ?ts)"
    using i(2) by (auto intro: pool_take)
  have "worker_round sample_aenv (E_events []) ?cs = Inr ?cs"
    by (simp add: worker_round_def ngx_epoll_process_events_def)
  then have "worker_step (?cs, ?ts) (?cs, ?ts)" by (rule event_loop [rotated]) simp
  with t have w: "worker_step\<^sup>*\<^sup>* (cs1, []) (?cs, ?ts)" by (meson converse_rtranclp_into_rtranclp rtranclp.rtrancl_refl)
  show ?thesis using stored_connections_valid [OF s(1,2) i(1) w] i(1) w by blast
qed

end
