(* ===== verification/PingReply.thy ===== *)
theory PingReply
  imports Tls
begin

text \<open>
  What becomes of pings. \<^verbatim>\<open>_HandlePing\<close> (\<^verbatim>\<open>logic/ngx_c_slogic.cpp\<close>) prepares a reply of eight bytes in a buffer of its own
  and calls \<^verbatim>\<open>sendMsg\<close> (\<^verbatim>\<open>net/ngx_c_socket_request.cpp\<close>), whose \<^verbatim>\<open>WriteFunc\<close> is \<^verbatim>\<open>WriteData\<close> of the connection's protocol
  object (\<^verbatim>\<open>logic/ngx_c_http.cpp\<close>), which writes the parts of the object's last reply instead. The lemmas join the dispatcher, the
  senders and \<^verbatim>\<open>WriteData\<close>.
\<close>

section \<open>The dispatcher up to the sender\<close>

definition ping_message :: "csocket \<Rightarrow> conn_ptr \<Rightarrow> mem_ptr \<Rightarrow> bool" where
  "ping_message cs c q \<longleftrightarrow>
     valid_conn cs c \<and> (m_ETflag cs = ETCLOSE \<longrightarrow> \<not> logicPorcMutex (conns cs c)) \<and> mem cs (mem_next cs) = None \<and>
     (\<exists>crc. mem cs q = Some \<lparr>mb_header = Some \<lparr>pConn = c, hdr_sequence = iCurrsequence (conns cs c)\<rparr>,
        mb_bytes = map Some (pkg_header 8 CMD_PING crc)\<rparr>)"

lemma ping_dispatched:
  assumes "ping_message cs c q"
  shows "threadRecvProcFunc business env ws obj (Some q) cs =
    res_bind (sendMsg_loop env c ws (ping_state env c cs)) (FreeMemory (Some q))"
proof -
  obtain crc where p: "valid_conn cs c" "m_ETflag cs = ETCLOSE \<longrightarrow> \<not> logicPorcMutex (conns cs c)" "mem cs (mem_next cs) = None"
    "mem cs q = Some \<lparr>mb_header = Some \<lparr>pConn = c, hdr_sequence = iCurrsequence (conns cs c)\<rparr>,
        mb_bytes = map Some (pkg_header 8 CMD_PING crc)\<rparr>"
    using assms by (auto simp: ping_message_def)
  have u: "u16_at 0 (the (mem cs q)) = Inr 8" "u16_at 2 (the (mem cs q)) = Inr CMD_PING"
    using p(4) pkg_header_fields [where rest = "[]"] by simp_all
  have "iCurrsequence (conns (ping_state env c cs) c) = iCurrsequence (conns cs c)" by (simp add: ping_state_def)
  then have "sendMsg env ws (mem_next cs) (ping_state env c cs) = sendMsg_loop env c ws (ping_state env c cs)"
    using sending_header [OF ping_state_sending [OF p(1), of env]] by (simp add: sendMsg_def)
  then have h: "HandlePing env ws c q 0 cs =
      res_bind (sendMsg_loop env c ws (ping_state env c cs)) (\<lambda>cs. Inr (True, cs))"
    using HandlePing_eq [OF p(1) _ p(4) _ p(3), of env ws] p(2) by simp
  show ?thesis
    using p(4) u h
    by (cases "sendMsg_loop env c ws (ping_state env c cs)")
      (simp_all add: threadRecvProcFunc_def mem_get_def msg_header_of_def PKGHEADERLEN_def HandleNum_def CMD_PING_def)
qed

section \<open>Writing nothing\<close>

lemma writes_nothing: "m_iov h = [] \<Longrightarrow> http_writes ks mapped h = replicate (length ks) (W_sent 0)"
proof (induction ks arbitrary: mapped)
  case (Cons k ks)
  then show ?case
    by (cases k) (simp_all add: http_write_def WriteData_def HttpWriteData_def iov_total_def needs_file_def)
qed simp

lemma remain_nothing:
  "valid_conn cs c \<Longrightarrow> isendlen (conns cs c) \<noteq> 0 \<Longrightarrow> sendRemainMsg_loop env c (replicate n (W_sent 0)) cs = Inl Blocked"
proof (induction n arbitrary: cs)
  case 0
  then show ?case by (subst sendRemainMsg_loop.simps) simp
next
  case (Suc n)
  let ?cs = "conn_put c (send_advance 0 (conns cs c)) cs"
  have "0 < unat (isendlen (conns cs c))" using Suc.prems(2) by (simp add: unat_gt_0)
  then have "sendRemainMsg_loop env c (replicate (Suc n) (W_sent 0)) cs = sendRemainMsg_loop env c (replicate n (W_sent 0)) ?cs"
    using Suc.prems by (subst sendRemainMsg_loop.simps) (simp add: sock_simps)
  also have "\<dots> = Inl Blocked" by (rule Suc.IH) (use Suc.prems in \<open>simp_all add: sock_simps\<close>)
  finally show ?case .
qed

section \<open>Writing an old reply\<close>

text \<open>The answers of the kernel that are neither a full buffer nor the end of the connection, with room for more than a ping.\<close>

fun has_room :: "kernel_ret \<Rightarrow> bool" where
  "has_room (K_take n) \<longleftrightarrow> 8 < n"
| "has_room (K_err e) \<longleftrightarrow> e \<notin> {EAGAIN, EPIPE, ECONNRESET}"

lemma old_reply_retried: "8 < iov_total h \<Longrightarrow> list_all has_room ks \<Longrightarrow> list_all (retried 8) (http_writes ks mapped h)"
proof (induction ks arbitrary: mapped)
  case (Cons k ks)
  then show ?case
    by (cases k) (auto simp: http_write_def WriteData_def HttpWriteData_def)
qed simp

lemma ping_spins:
  assumes "ping_message cs c q" "8 < iov_total h" "list_all has_room ks"
  shows "threadRecvProcFunc business env (http_writes ks mapped h) obj (Some q) cs = Inl Blocked"
proof -
  have l: "isendlen (conns (ping_state env c cs) c) = 8" by (simp add: ping_state_def)
  show ?thesis
    using sendMsg_loop_retries [of "ping_state env c cs" c "http_writes ks mapped h" env "[]"]
      old_reply_retried [OF assms(2,3), of mapped] by (simp add: ping_dispatched [OF assms(1)] l)
qed

lemma writes_after_file:
  "needs_file h \<Longrightarrow> 0 < iov_total h \<Longrightarrow>
   http_writes ks False h = map (\<lambda>k. W_fail (case k of K_err e \<Rightarrow> e | K_take n \<Rightarrow> EOTHER)) ks"
  by (induction ks) (auto simp: http_write_def WriteData_def HttpWriteData_def)

lemma write_text:
  "\<not> needs_file h \<Longrightarrow> 0 < iov_total h \<Longrightarrow>
   fst (http_write k mapped h) = (case k of K_err e \<Rightarrow> W_fail e | K_take n \<Rightarrow> W_sent (min n (nat (iov_total h))))"
  by (cases k) (auto simp: http_write_def WriteData_def HttpWriteData_def min_def)

lemma writes_text:
  "\<not> needs_file h \<Longrightarrow> 0 < iov_total h \<Longrightarrow>
   http_writes ks mapped h = map (\<lambda>k. case k of K_err e \<Rightarrow> W_fail e | K_take n \<Rightarrow> W_sent (min n (nat (iov_total h)))) ks"
  by (induction ks arbitrary: mapped) (simp_all add: split_beta write_text)

section \<open>Properties\<close>

text \<open>
  C17. A ping is never answered. On a connection that has not had a reply yet, the protocol object has nothing to write, and
  \<^verbatim>\<open>WriteData\<close> ignores the ping's buffer. Whatever the kernel would take, the message is dispatched and released,
  \<^verbatim>\<open>lastPingTime\<close> is renewed, and \<^verbatim>\<open>sendMsg\<close> has sent none of the eight bytes: it leaves the reply pending and waits
  for the write event, with the connection's mutex taken in level triggered mode. The \<^verbatim>\<open>sendRemainMsg\<close> that the write event
  queues then never ends, whatever the kernel would take.
\<close>

theorem ping_never_answered:
  assumes p: "ping_message cs c q" and e: "e_epoll_ok env"
  shows "\<exists>cs1. threadRecvProcFunc business env (http_writes (k # ks) mapped (init_http old)) obj (Some q) cs = Inr cs1 \<and>
     mem cs1 = (mem cs)(q := None, mem_next cs := mem cs1 (mem_next cs)) \<and>
     mem cs1 (mem_next cs) = Some \<lparr>mb_header = Some \<lparr>pConn = c, hdr_sequence = iCurrsequence (conns cs c)\<rparr>,
       mb_bytes = map Some (pkg_header 8 CMD_PING 0)\<rparr> \<and>
     lastPingTime (conns cs1 c) = e_time env \<and> isendlen (conns cs1 c) = 8 \<and>
     logicPorcMutex (conns cs1 c) = (logicPorcMutex (conns cs c) \<or> m_ETflag cs = ETCLOSE) \<and>
     epoll_set cs1 (fd (conns cs c)) = Some \<lparr>ev_in = False, ev_out = True, ev_et = True, ev_ptr = c\<rparr> \<and>
     (\<forall>env' ks' mapped'. sendRemainMsg env' (http_writes ks' mapped' (init_http old)) c cs1 = Inl Blocked)"
proof -
  let ?s = "ping_state env c cs"
  have v: "valid_conn cs c" and q: "mem cs q \<noteq> None" "mem cs (mem_next cs) = None" using p by (auto simp: ping_message_def)
  have n: "q \<noteq> mem_next cs" using q by auto
  have i: "m_iov (init_http old) = []" by (simp add: init_http_def)
  have s: "sending ?s c (mem_next cs)" by (rule ping_state_sending [OF v])
  have f: "isendlen (conns ?s c) = 8" "fd (conns ?s c) = fd (conns cs c)" "lastPingTime (conns ?s c) = e_time env"
    "logicPorcMutex (conns ?s c) = (logicPorcMutex (conns cs c) \<or> m_ETflag cs = ETCLOSE)"
    "iCurrsequence (conns ?s c) = iCurrsequence (conns cs c)"
    "mem ?s = (mem cs)(mem_next cs \<mapsto> \<lparr>mb_header = Some \<lparr>pConn = c, hdr_sequence = iCurrsequence (conns cs c)\<rparr>,
       mb_bytes = map Some (pkg_header 8 CMD_PING 0)\<rparr>)"
    by (simp_all add: ping_state_def)
  let ?a = "conn_put c (send_advance 0 (conns ?s c)) ?s"
  have sa: "sending ?a c (mem_next cs)" using s by (rule sending_advance)
  then have va: "valid_conn ?a c" "valid_conn ?s c" using s by (simp_all add: sending_def)
  obtain cs0 where o: "ngx_epoll_opr_event env c False EPOLL_CTL_MOD ?a = Inr (True, cs0)" "mem cs0 = mem ?a"
    "m_pconnections cs0 = m_pconnections ?a"
    "conns cs0 c = (conns ?a c)\<lparr>rhandler := Some (if m_ETflag ?a = ETOPEN then H_ngx_read_request_handler_ET
                                  else H_ngx_read_request_handler)\<rparr>"
    "epoll_set cs0 (fd (conns ?a c)) = Some \<lparr>ev_in = False, ev_out = True, ev_et = True, ev_ptr = c\<rparr>"
    using opr_event_ok [OF va(1), of env False EPOLL_CTL_MOD] e by auto
  define cs1 where "cs1 = cs0\<lparr>mem := (mem cs0)(q := None)\<rparr>"
  have g: "mem cs0 = mem ?s" "conns ?a c = send_advance 0 (conns ?s c)" using o(2) by (simp_all add: sock_simps)
  have "sendMsg_loop env c (http_writes (k # ks) mapped (init_http old)) ?s = Inr cs0"
    using o(1) va(2) f(1) by (simp add: writes_nothing [OF i] sock_simps del: http_writes.simps)
  moreover have "mem cs0 q \<noteq> None" using n q(1) g(1) f(6) by simp
  ultimately have r: "threadRecvProcFunc business env (http_writes (k # ks) mapped (init_http old)) obj (Some q) cs = Inr cs1"
    by (auto simp: ping_dispatched [OF p] FreeMemory_def cs1_def simp del: http_writes.simps)
  obtain rh where c1: "conns cs1 c = (send_advance 0 (conns ?s c))\<lparr>rhandler := rh\<rparr>" "epoll_set cs1 = epoll_set cs0"
    using o(4) g(2) by (simp add: cs1_def)
  have x: "isendlen (conns cs1 c) = 8" "lastPingTime (conns cs1 c) = e_time env"
    "logicPorcMutex (conns cs1 c) = (logicPorcMutex (conns cs c) \<or> m_ETflag cs = ETCLOSE)"
    by (simp_all add: c1(1) f send_advance_def)
  have m: "mem cs1 = (mem ?s)(q := None)" using g(1) by (simp add: cs1_def)
  have s1: "sending cs1 c (mem_next cs)"
    using sa n o(2-4) by (auto simp: sending_def valid_conn_def cs1_def)
  have "sendRemainMsg env' (http_writes ks' mapped' (init_http old)) c cs1 = Inl Blocked" for env' ks' mapped'
  proof -
    have "valid_conn cs1 c" "isendlen (conns cs1 c) \<noteq> 0" using s1 x(1) by (simp_all add: sending_def)
    note z = remain_nothing [OF this, of env' "length ks'"]
    show ?thesis
      using z sending_header [OF s1] s1 by (simp add: sendRemainMsg_def sending_def writes_nothing [OF i])
  qed
  moreover have "mem cs1 = (mem cs)(q := None, mem_next cs := mem cs1 (mem_next cs))"
    using m f(6) n by (auto simp: fun_eq_iff)
  moreover have "mem cs1 (mem_next cs) = Some \<lparr>mb_header = Some \<lparr>pConn = c, hdr_sequence = iCurrsequence (conns cs c)\<rparr>,
       mb_bytes = map Some (pkg_header 8 CMD_PING 0)\<rparr>" using m f(6) n by simp
  moreover have "epoll_set cs1 (fd (conns cs c)) = Some \<lparr>ev_in = False, ev_out = True, ev_et = True, ev_ptr = c\<rparr>"
    using o(5) c1(2) g(2) f(2) by simp
  ultimately show ?thesis using r x by blast
qed

text \<open>A worker in level triggered mode with a ping in block 3.\<close>

definition sample_pinged :: csocket where
  "sample_pinged =
     sample_socket\<lparr>m_ETflag := 0, m_pconnections := [2],
       conns := (\<lambda>_. zero_connection)((0, 1) := zero_connection\<lparr>fd := 9, iCurrsequence := 4\<rparr>),
       mem := [3 \<mapsto> \<lparr>mb_header = Some \<lparr>pConn = (0, 1), hdr_sequence = 4\<rparr>,
                       mb_bytes = map Some (pkg_header 8 CMD_PING 0)\<rparr>],
       mem_next := 4\<rparr>"

lemma sample_pinged_ping: "ping_message sample_pinged (0, 1) 3"
  by (auto simp: ping_message_def sample_pinged_def valid_conn_def zero_connection_def)

theorem ping_never_answered_witness:
  "\<exists>cs1. threadRecvProcFunc (\<lambda>_ _ _ _. Inr) sample_env (http_writes [K_take 8] True (init_http blank_http)) (Some 0) (Some 3)
       sample_pinged = Inr cs1 \<and>
     mem cs1 4 \<noteq> None \<and> logicPorcMutex (conns cs1 (0, 1)) \<and>
     sendRemainMsg sample_env (http_writes [K_take 8, K_take 8] True (init_http blank_http)) (0, 1) cs1 = Inl Blocked"
proof -
  have e: "e_epoll_ok sample_env" "m_ETflag sample_pinged = ETCLOSE" "mem_next sample_pinged = 4"
    by (simp_all add: sample_env_def sample_pinged_def ETCLOSE_def)
  show ?thesis
    using ping_never_answered [OF sample_pinged_ping e(1), of "\<lambda>_ _ _ _. Inr" "K_take 8" "[]" True blank_http "Some 0"] e(2,3)
    by (auto simp del: http_writes.simps)
qed

text \<open>
  C11. A ping after a reply repeats the reply, forever. A connection has been sent the reply to a well formed \<^verbatim>\<open>GET\<close> request,
  which the kernel took at once. Then a ping arrives, and the kernel has room for more than eight bytes each time.
  The answers of \<^verbatim>\<open>WriteData\<close> are those of the old reply: with a file every attempt fails, since the mapping is gone; without one
  the kernel takes the old reply again with every attempt. None of these answers ends the loop of \<^verbatim>\<open>sendMsg\<close>, so the
  thread that handles the ping never returns, and keeps the mutex of the connection.
\<close>

theorem ping_after_reply_spins:
  assumes g: "good_request word host path hs" "length path < 190" "method_of word GET = GET" "clock_ok env"
    and l: "length (file_part env path) < 2 ^ 31" and o: "objs ob = init_http old"
    and p: "ping_message cs c q" and ks: "list_all has_room ks"
    and n: "n = 8 + length (get_text env path @ file_part env path)"
  shows "\<exists>ws. http_writes (K_take n # ks) True (objs_after env ob (request word host path hs) objs ob) = W_sent n # ws \<and>
     ws = map (\<lambda>k. case k of K_err e \<Rightarrow> W_fail e
                  | K_take m \<Rightarrow> if serve env path = FILE_REQUEST then W_fail EOTHER else W_sent (min m n)) ks \<and>
     threadRecvProcFunc business e ws obj (Some q) cs = Inl Blocked"
proof -
  let ?h = "objs_after env ob (request word host path hs) objs ob"
  obtain pkgLen h where h: "Business env (request word host path hs) (objs ob) = Inr (pkgLen, h)"
    "wire_text h = get_text env path @ file_part env path" "iov_total h = 8 + int (length (wire_text h))"
    "served_object env path (length (request word host path hs)) h"
    using get_business [OF g(1-4) l, of old] o by auto
  then have hh: "?h = h" by (simp add: objs_after_def)
  have t: "iov_total h = int n" using h(2,3) n by simp
  have w: "http_write (K_take n) True h = (W_sent n, m_file_ptr h = None)"
    using t by (simp add: http_write_def WriteData_def HttpWriteData_def)
  let ?ws = "http_writes ks (m_file_ptr h = None) h"
  have "0 < n" using n by simp
  have "0 < length (get_text env path)" using get_text_nonempty by blast
  then have "8 < n" unfolding n length_append by linarith
  then have "8 < iov_total h" using t by simp
  note b = ping_spins [OF p this ks, of business e "m_file_ptr h = None" obj]
  have "?ws = map (\<lambda>k. case k of K_err e \<Rightarrow> W_fail e
      | K_take m \<Rightarrow> if serve env path = FILE_REQUEST then W_fail EOTHER else W_sent (min m n)) ks"
  proof (cases "serve env path = FILE_REQUEST")
    case True
    then have "0 < length (file_part env path)" by (auto simp: file_part_def serve_def split: option.splits if_splits)
    then have "needs_file h" "m_file_ptr h \<noteq> None" using h(4) True by (auto simp: served_object_def needs_file_def)
    then show ?thesis using writes_after_file [of h ks] t \<open>0 < n\<close> True by (auto split: kernel_ret.split)
  next
    case False
    then have "\<not> needs_file h" using h(4) by (simp add: served_object_def needs_file_def)
    then show ?thesis using writes_text [of h ks "m_file_ptr h = None"] t \<open>0 < n\<close> False by (auto split: kernel_ret.split)
  qed
  with b w hh show ?thesis by (intro exI [of _ ?ws]) simp
qed

text \<open>The sample file has been sent; the ping is tried twice.\<close>

theorem ping_after_reply_spins_witness:
  "\<exists>n. http_writes [K_take n, K_take 100, K_err EINTR] True
       (objs_after sample_http_env 0 (request ''GET'' ''h'' ''/a'' []) (\<lambda>_. init_http blank_http) 0) =
       [W_sent n, W_fail EOTHER, W_fail EINTR] \<and>
     threadRecvProcFunc (\<lambda>_ _ _ _. Inr) sample_env [W_fail EOTHER, W_fail EINTR] (Some 0) (Some 3) sample_pinged = Inl Blocked"
proof -
  have g: "good_request ''GET'' ''h'' ''/a'' []" "length ''/a'' < 190" "method_of ''GET'' GET = GET" "clock_ok sample_http_env"
    by (auto simp: good_request_def good_line_def plain_def method_of_def strcasecmp0_def clock_ok_def sample_http_env_def)
  have s: "serve sample_http_env ''/a'' = FILE_REQUEST" "length (file_part sample_http_env ''/a'') < 2 ^ 31"
    by (simp_all add: file_part_def serve_def sample_http_env_def LOCAL_FILE_ADDR_def sample_file_def)
  have k: "list_all has_room [K_take 100, K_err EINTR]" by simp
  obtain n where n: "n = 8 + length (get_text sample_http_env ''/a'' @ file_part sample_http_env ''/a'')" by blast
  show ?thesis
    using ping_after_reply_spins [where objs = "\<lambda>_. init_http blank_http" and ob = 0, OF g s(2) refl sample_pinged_ping k n,
        of "\<lambda>_ _ _ _. Inr" sample_env "Some 0"] s(1)
    by (intro exI [of _ n]) (simp del: http_writes.simps)
qed

end
