(* ===== verification/ProcTitle.thy ===== *)
theory ProcTitle
  imports CString
begin

text \<open>
  The process title (\<^verbatim>\<open>app/ngx_setproctitle.cpp\<close>, with the globals of \<^verbatim>\<open>app/nginx.cpp\<close>). The system places the
  argument strings and behind them the environment strings in one area of memory; the environment is copied
  elsewhere so that a title may use the whole area. Pointers into the area and into the copy are offsets.
\<close>

section \<open>State and operations\<close>

datatype env_ptr = In_area nat | In_envmem nat

record title_state =
  area :: "char list"
  g_os_argv :: "nat option list"
  environ :: "env_ptr list"
  gp_envmem :: "char list"
  g_environlen :: nat

text \<open>The string at an offset, as \<^verbatim>\<open>strlen\<close> finds it.\<close>

definition cstr_at :: "char list \<Rightarrow> nat \<Rightarrow> string res" where
  "cstr_at m p = (if NUL \<in> set (drop p m) then Inr (cstr (drop p m)) else Inl OutOfBounds)"

fun env_string :: "title_state \<Rightarrow> env_ptr \<Rightarrow> string res" where
  "env_string st (In_area p) = cstr_at (area st) p"
| "env_string st (In_envmem p) = cstr_at (gp_envmem st) p"

text \<open>The first loop of \<^verbatim>\<open>ngx_init_setproctitle\<close>: the memory the environment takes.\<close>

fun envir_length :: "title_state \<Rightarrow> env_ptr list \<Rightarrow> nat res" where
  "envir_length st [] = Inr 0"
| "envir_length st (p # ps) =
     res_bind (env_string st p) (\<lambda>s. res_bind (envir_length st ps) (\<lambda>n. Inr (length s + 1 + n)))"

text \<open>The second loop: every string is copied with its terminator and its pointer redirected.\<close>

fun copy_env :: "title_state \<Rightarrow> env_ptr list \<Rightarrow> nat \<Rightarrow> char list \<Rightarrow> (env_ptr list \<times> char list) res" where
  "copy_env st [] tptr m = Inr ([], m)"
| "copy_env st (p # ps) tptr m =
     res_bind (env_string st p) (\<lambda>s.
     res_bind (poke tptr (s @ [NUL]) m) (\<lambda>m.
     res_bind (copy_env st ps (tptr + (length s + 1)) m) (\<lambda>(qs, m). Inr (In_envmem tptr # qs, m))))"

definition ngx_init_setproctitle :: "title_state \<Rightarrow> title_state res" where
  "ngx_init_setproctitle st =
     res_bind (envir_length st (environ st)) (\<lambda>envirlength.
     res_bind (copy_env st (environ st) 0 (replicate envirlength NUL)) (\<lambda>(ps, m).
     Inr (st\<lparr>environ := ps, gp_envmem := m, g_environlen := envirlength\<rparr>)))"

text \<open>The loop over \<^verbatim>\<open>g_os_argv\<close>, which ends at the null pointer.\<close>

fun argv_length :: "title_state \<Rightarrow> nat option list \<Rightarrow> nat res" where
  "argv_length st [] = Inl OutOfBounds"
| "argv_length st (None # ps) = Inr 0"
| "argv_length st (Some p # ps) =
     res_bind (cstr_at (area st) p) (\<lambda>s. res_bind (argv_length st ps) (\<lambda>n. Inr (length s + 1 + n)))"

definition ngx_setproctitle :: "string \<Rightarrow> title_state \<Rightarrow> title_state res" where
  "ngx_setproctitle title st =
     (let titlelength = length title + 1 in
      res_bind (argv_length st (g_os_argv st)) (\<lambda>argvlength.
      let esy = argvlength + g_environlen st in
      if esy < titlelength then Inr st
      else if length (g_os_argv st) < 2 then Inl OutOfBounds
      else
        let st = st\<lparr>g_os_argv := (g_os_argv st)[1 := None]\<rparr> in
        (case hd (g_os_argv st) of
           None \<Rightarrow> Inl NullDeref
         | Some p \<Rightarrow>
             res_bind (poke p (title @ [NUL]) (area st)) (\<lambda>m.
             res_bind (poke (p + titlelength) (replicate (esy - titlelength) NUL) m) (\<lambda>m.
             Inr (st\<lparr>area := m\<rparr>))))))"

text \<open>\<^verbatim>\<open>freeresource\<close> of \<^verbatim>\<open>app/nginx.cpp\<close>; the null pointer is an empty copy.\<close>

definition freeresource :: "title_state \<Rightarrow> title_state" where
  "freeresource st = (if gp_envmem st \<noteq> [] then st\<lparr>gp_envmem := []\<rparr> else st)"

section \<open>What the system provides\<close>

definition strings :: "string list \<Rightarrow> char list" where
  "strings ss = concat (map (\<lambda>s. s @ [NUL]) ss)"

fun offsets :: "nat \<Rightarrow> string list \<Rightarrow> nat list" where
  "offsets k [] = []"
| "offsets k (s # ss) = k # offsets (k + (length s + 1)) ss"

text \<open>A process as it is started, with other memory \<open>beyond\<close> the area.\<close>

definition started_process :: "string list \<Rightarrow> string list \<Rightarrow> char list \<Rightarrow> title_state" where
  "started_process argv env beyond =
     \<lparr>area = strings argv @ strings env @ beyond, g_os_argv = map Some (offsets 0 argv) @ [None],
      environ = map In_area (offsets (length (strings argv)) env), gp_envmem = [], g_environlen = 0\<rparr>"

abbreviation c_strings :: "string list \<Rightarrow> bool" where
  "c_strings ss \<equiv> list_all (\<lambda>s. NUL \<notin> set s) ss"

text \<open>The environment as the program sees it.\<close>

definition env_of :: "title_state \<Rightarrow> string res list" where
  "env_of st = map (env_string st) (environ st)"

section \<open>Lemmas\<close>

lemma strings_simps [simp]: "strings [] = []" "strings (s # ss) = s @ NUL # strings ss"
  by (simp_all add: strings_def)

lemma cstr_at_string: "NUL \<notin> set s \<Longrightarrow> cstr_at (pre @ s @ NUL # post) (length pre) = Inr s"
  by (simp add: cstr_at_def)

lemma cstr_at_strings:
  "c_strings ss \<Longrightarrow> map (cstr_at (pre @ strings ss @ post)) (offsets (length pre) ss) = map Inr ss"
proof (induction ss arbitrary: pre)
  case (Cons s ss)
  have "map (cstr_at ((pre @ s @ [NUL]) @ strings ss @ post)) (offsets (length (pre @ s @ [NUL])) ss) = map Inr ss"
    by (rule Cons.IH) (use Cons.prems in simp)
  then show ?case using Cons.prems cstr_at_string [of s pre "strings ss @ post"] by simp
qed simp

lemma envir_length_strings:
  "map (env_string st) ps = map Inr ss \<Longrightarrow> envir_length st ps = Inr (length (strings ss))"
  by (induction ps arbitrary: ss) (auto simp: Cons_eq_map_conv)

lemma copy_env_strings:
  "map (env_string st) ps = map Inr ss \<Longrightarrow>
   copy_env st ps (length pre) (pre @ replicate (length (strings ss)) NUL) =
     Inr (map In_envmem (offsets (length pre) ss), pre @ strings ss)"
proof (induction ps arbitrary: ss pre)
  case (Cons p ps)
  then obtain s ss' where ss: "ss = s # ss'" "env_string st p = Inr s" "map (env_string st) ps = map Inr ss'"
    by (cases ss) auto
  have r: "replicate (length (strings ss)) NUL = replicate (length (s @ [NUL])) NUL @ replicate (length (strings ss')) NUL"
    by (simp add: ss(1) flip: replicate_add)
  have "poke (length pre) (s @ [NUL]) (pre @ replicate (length (strings ss)) NUL) =
      Inr (pre @ (s @ [NUL]) @ replicate (length (strings ss')) NUL)"
    unfolding r by (rule poke_append) simp
  with Cons.IH [OF ss(3), of "pre @ s @ [NUL]"] ss show ?case by simp
qed simp

lemma argv_length_strings:
  "map (cstr_at (area st)) ps = map Inr ss \<Longrightarrow> argv_length st (map Some ps @ None # qs) = Inr (length (strings ss))"
  by (induction ps arbitrary: ss) (auto simp: Cons_eq_map_conv)

lemma init_started:
  assumes "c_strings argv" "c_strings env"
  shows "ngx_init_setproctitle (started_process argv env beyond) =
     Inr ((started_process argv env beyond)\<lparr>environ := map In_envmem (offsets 0 env), gp_envmem := strings env,
       g_environlen := length (strings env)\<rparr>)"
proof -
  let ?st = "started_process argv env beyond"
  have "map (env_string ?st) (environ ?st) = map Inr env"
    using cstr_at_strings [OF assms(2), of "strings argv" beyond] by (simp add: started_process_def comp_def)
  then show ?thesis
    using envir_length_strings [of ?st "environ ?st" env] copy_env_strings [of ?st "environ ?st" env "[]"]
    by (simp add: ngx_init_setproctitle_def)
qed

lemma poke_title:
  assumes "length t < e"
  shows "res_bind (poke 0 (t @ [NUL]) m) (\<lambda>m. poke (Suc (length t)) (replicate (e - Suc (length t)) NUL) m) =
    (if e \<le> length m then Inr (t @ replicate (e - length t) NUL @ drop e m) else Inl OutOfBounds)"
proof (cases "e \<le> length m")
  case True
  obtain k where "e = Suc (length t + k)" using assms less_imp_Suc_add by blast
  then show ?thesis using True by (simp add: poke_def add.commute)
next
  case False
  then show ?thesis using assms by (auto simp: poke_def)
qed

text \<open>A title written at the start of an area of which \<open>esy\<close> cells are taken for the program's own.\<close>

lemma setproctitle_writes:
  assumes "g_os_argv st = Some 0 # x # ps" "argv_length st (g_os_argv st) = Inr n" "length title < n + g_environlen st"
  shows "ngx_setproctitle title st =
    (if n + g_environlen st \<le> length (area st)
     then Inr (st\<lparr>g_os_argv := Some 0 # None # ps,
       area := title @ replicate (n + g_environlen st - length title) NUL @ drop (n + g_environlen st) (area st)\<rparr>)
     else Inl OutOfBounds)"
  using assms poke_title [OF assms(3), of "area st"]
  by (auto simp: ngx_setproctitle_def Let_def res_bind_Inl_iff simp del: argv_length.simps)

lemma argv_length_started:
  assumes "c_strings argv"
  shows "argv_length ((started_process argv env beyond)\<lparr>environ := e, gp_envmem := m, g_environlen := n\<rparr>)
     (map Some (offsets 0 argv) @ [None]) = Inr (length (strings argv))"
  by (rule argv_length_strings)
    (use cstr_at_strings [OF assms, of "[]" "strings env @ beyond"] in \<open>simp add: started_process_def\<close>)

text \<open>The first title of a process: the environment relocated, the title written.\<close>

lemma length_offsets: "length (offsets n ss) = length ss"
  by (induction ss arbitrary: n) simp_all

text \<open>After \<^verbatim>\<open>freeresource\<close> the pointers of \<^verbatim>\<open>environ\<close> are left behind: no environment string can be read any more.\<close>

lemma environment_lost:
  "c_strings argv \<Longrightarrow> c_strings env \<Longrightarrow> ngx_init_setproctitle (started_process argv env beyond) = Inr st \<Longrightarrow>
   env_of (freeresource st) = replicate (length env) (Inl OutOfBounds)"
  using init_started [of argv env beyond]
  by (auto simp: env_of_def freeresource_def cstr_at_def comp_def map_replicate_const length_offsets)

lemma first_title:
  assumes c: "c_strings (a # argv)" "c_strings env" and l: "length title < length (strings (a # argv @ env))"
  shows "\<exists>st ps. res_bind (ngx_init_setproctitle (started_process (a # argv) env beyond)) (ngx_setproctitle title) = Inr st \<and>
     g_os_argv st = Some 0 # None # ps \<and> environ st = map In_envmem (offsets 0 env) \<and> gp_envmem st = strings env \<and>
     g_environlen st = length (strings env) \<and>
     area st = title @ replicate (length (strings (a # argv @ env)) - length title) NUL @ beyond"
proof -
  let ?st = "(started_process (a # argv) env beyond)\<lparr>environ := map In_envmem (offsets 0 env), gp_envmem := strings env,
       g_environlen := length (strings env)\<rparr>"
  let ?n = "length (strings (a # argv))"
  have len: "length (strings (a # argv @ env)) = ?n + length (strings env)" by (simp add: strings_def)
  obtain x ps where g: "g_os_argv ?st = Some 0 # x # ps" by (cases argv) (auto simp: started_process_def)
  have "argv_length ?st (g_os_argv ?st) = Inr ?n"
    using argv_length_started [OF c(1), where env = env and beyond = beyond]
    by (simp add: started_process_def del: offsets.simps list.map)
  from setproctitle_writes [OF g this, of title] l len
  have "ngx_setproctitle title ?st = Inr (?st\<lparr>g_os_argv := Some 0 # None # ps,
      area := title @ replicate (length (strings (a # argv @ env)) - length title) NUL @ beyond\<rparr>)"
    by (simp add: started_process_def strings_def)
  then show ?thesis using init_started [OF c, of beyond] by simp
qed

section \<open>Properties\<close>

text \<open>
  C23. Setting the title keeps the environment and stays inside its memory. For every process with at least
  its own name as argument, relocating the environment and then setting a title that fits the memory of arguments and
  environment makes the title readable at \<^verbatim>\<open>argv[0]\<close>, clears the rest of the area, leaves the memory behind it
  alone, and the program still sees every environment string.
\<close>

theorem title_keeps_environment:
  assumes "c_strings (a # argv)" "c_strings env" "NUL \<notin> set title" "length title < length (strings (a # argv @ env))"
  shows "\<exists>st. res_bind (ngx_init_setproctitle (started_process (a # argv) env beyond)) (ngx_setproctitle title) = Inr st \<and>
     cstr_at (area st) 0 = Inr title \<and> take 2 (g_os_argv st) = [Some 0, None] \<and> env_of st = map Inr env \<and>
     area st = title @ replicate (length (strings (a # argv @ env)) - length title) NUL @ beyond"
proof -
  let ?k = "length (strings (a # argv @ env)) - length title"
  obtain st ps where st: "res_bind (ngx_init_setproctitle (started_process (a # argv) env beyond)) (ngx_setproctitle title) = Inr st"
    "g_os_argv st = Some 0 # None # ps" "environ st = map In_envmem (offsets 0 env)" "gp_envmem st = strings env"
    "area st = title @ replicate ?k NUL @ beyond"
    using first_title [OF assms(1,2,4), of beyond] by blast
  obtain m where "?k = Suc m" using assms(4) by (cases ?k) auto
  then have "cstr_at (area st) 0 = Inr title" using st(5) assms(3) cstr_at_string [of title "[]" "replicate m NUL @ beyond"] by simp
  moreover have "env_of st = map Inr env"
    using cstr_at_strings [OF assms(2), of "[]" "[]"] st(3,4) by (simp add: env_of_def comp_def)
  ultimately show ?thesis using st by (intro exI [of _ st]) simp
qed

theorem title_keeps_environment_witness:
  "\<exists>st. res_bind (ngx_init_setproctitle (started_process [''./nginx'', ''-x''] [''A=1'', ''BC=2''] ''zz''))
       (ngx_setproctitle ''master'') = Inr st \<and>
     cstr_at (area st) 0 = Inr ''master'' \<and> env_of st = [Inr ''A=1'', Inr ''BC=2'']"
  using title_keeps_environment [of "''./nginx''" "[''-x'']" "[''A=1'', ''BC=2'']" "''master''" "''zz''"] by auto

text \<open>
  The second title can clear memory beyond the area. Its room is computed from the current \<^verbatim>\<open>argv\<close>, that is
  from the first title. When that was longer than the original arguments, as \<^verbatim>\<open>master process test\<close> is for a
  program started as \<^verbatim>\<open>./nginx\<close>, the title of a worker zeroes as many bytes behind the environment as the first
  title exceeded the arguments, or faults if there are not so many.
\<close>

theorem second_title_overruns:
  assumes "c_strings (a # argv)" "c_strings env" "NUL \<notin> set title1" "length title1 < length (strings (a # argv @ env))"
    and "length (strings (a # argv)) \<le> length title1" "length title2 \<le> length title1"
    and "res_bind (ngx_init_setproctitle (started_process (a # argv) env beyond)) (ngx_setproctitle title1) = Inr st"
    and "over = Suc (length title1) - length (strings (a # argv))"
  shows "if over \<le> length beyond
     then \<exists>st'. ngx_setproctitle title2 st = Inr st' \<and>
       area st' = title2 @ replicate (length (strings (a # argv @ env)) + over - length title2) NUL @ drop over beyond
     else ngx_setproctitle title2 st = Inl OutOfBounds"
proof -
  let ?total = "length (strings (a # argv @ env))"
  obtain ps where st: "g_os_argv st = Some 0 # None # ps" "g_environlen st = length (strings env)"
    "area st = title1 @ replicate (?total - length title1) NUL @ beyond"
    using first_title [OF assms(1,2,4), of beyond] assms(7) by auto
  obtain m where m: "?total - length title1 = Suc m" using assms(4) by (cases "?total - length title1") auto
  have c: "cstr_at (area st) 0 = Inr title1"
    using cstr_at_string [of title1 "[]" "replicate m NUL @ beyond"] st(3) m assms(3) by simp
  then have n: "argv_length st (g_os_argv st) = Inr (Suc (length title1))" using st(1) by simp
  have len: "?total = length (strings (a # argv)) + length (strings env)" by (simp add: strings_def)
  have tot: "Suc (length title1) + g_environlen st = ?total + over" using len st(2) assms(5,8) by simp
  have "drop (?total + over) (area st) = drop over beyond" using st(3) assms(4) by simp
  moreover have "length (area st) = ?total + length beyond" using st(3) assms(4) by simp
  ultimately show ?thesis
    using setproctitle_writes [OF st(1) n, of title2] tot assms(4,6) by (auto simp del: strings_simps)
qed

theorem second_title_overruns_witness:
  "\<exists>st st'. res_bind (ngx_init_setproctitle (started_process [''./nginx''] [''PATH=/usr/bin:/bin''] (replicate 16 (CHR ''z''))))
       (ngx_setproctitle ''master process test'') = Inr st \<and>
     ngx_setproctitle ''worker process test'' st = Inr st' \<and> 
     area st' = ''worker process test'' @ replicate 20 NUL @ replicate 4 (CHR ''z'')"
proof -
  let ?b = "replicate 16 (CHR ''z'')"
  have c: "c_strings (''./nginx'' # [])" "c_strings [''PATH=/usr/bin:/bin'']" "NUL \<notin> set ''master process test''"
    "length ''master process test'' < length (strings (''./nginx'' # [] @ [''PATH=/usr/bin:/bin'']))" by simp_all
  have d: "length (strings (''./nginx'' # [])) \<le> length ''master process test''"
    "length ''worker process test'' \<le> length ''master process test''"
    "12 = Suc (length ''master process test'') - length (strings (''./nginx'' # []))" by simp_all
  obtain st where st: "res_bind (ngx_init_setproctitle (started_process (''./nginx'' # []) [''PATH=/usr/bin:/bin''] ?b))
      (ngx_setproctitle ''master process test'') = Inr st"
    using first_title [OF c(1,2,4), of ?b] by auto
  show ?thesis
    using second_title_overruns [OF c d(1,2) st d(3)] st by auto
qed

end
