(* ===== verification/Master.thy ===== *)
theory Master
  imports Listen ProcTitle Worker ThreadPool
begin

text \<open>
  Start of the program and its processes: \<^verbatim>\<open>main\<close> (\<^verbatim>\<open>app/nginx.cpp\<close>), the daemon (\<^verbatim>\<open>proc/ngx_daemon.cpp\<close>), the
  signals (\<^verbatim>\<open>signal/ngx_signal.cpp\<close>), the master and its workers (\<^verbatim>\<open>proc/ngx_process_cycle.cpp\<close>). Results of
  system calls are arguments; what the program writes to its log is kept as a list of entries where the
  handling of signals depends on it and left out elsewhere.
\<close>

section \<open>Processes\<close>

definition NGX_PROCESS_MASTER :: int where "NGX_PROCESS_MASTER = 0"
definition NGX_PROCESS_WORKER :: int where "NGX_PROCESS_WORKER = 1"

text \<open>
  The globals of a process and what the calls below change of its surroundings: blocked signals, descriptors that
  lead to \<^verbatim>\<open>/dev/null\<close>, whether it leads a session of its own.
\<close>

datatype disposition = SIG_DFL | SIG_IGN | Ngx_signal_handler

record process =
  ngx_pid :: int
  ngx_parent :: int
  ngx_process :: int
  ngx_reap :: int
  g_daemonized :: int
  session_leader :: bool
  null_fds :: "int list"
  sigmask :: "int list"
  sigactions :: "int \<Rightarrow> disposition"

section \<open>The daemon\<close>

record daemon_sys =
  d_fork :: int
  d_getpid :: int
  d_setsid :: bool
  d_open :: int
  d_dup_in :: bool
  d_dup_out :: bool
  d_close :: bool

text \<open>
  The value returned and the process that returns it. After the fork the second \<^verbatim>\<open>switch\<close> tests \<^verbatim>\<open>pid\<close>, which is 0 in
  the child, and never the descriptor.
\<close>

definition ngx_daemon :: "daemon_sys \<Rightarrow> process \<Rightarrow> int \<times> process" where
  "ngx_daemon s p =
     (if d_fork s = - 1 then (- 1, p)
      else if d_fork s \<noteq> 0 then (1, p)
      else
        let p = p\<lparr>ngx_parent := ngx_pid p, ngx_pid := d_getpid s\<rparr> in
        if \<not> d_setsid s then (0, p)
        else
          let p = p\<lparr>session_leader := True\<rparr>; fd = d_open s in
          if \<not> d_dup_in s then (- 1, p)
          else
            let p = p\<lparr>null_fds := null_fds p @ [0]\<rparr> in
            if \<not> d_dup_out s then (- 1, p)
            else
              let p = p\<lparr>null_fds := null_fds p @ [1]\<rparr> in
              if fd > 2 \<and> \<not> d_close s then (- 1, p) else (0, p))"

section \<open>Signals\<close>

definition SIGHUP :: int where "SIGHUP = 1"
definition SIGINT :: int where "SIGINT = 2"
definition SIGQUIT :: int where "SIGQUIT = 3"
definition SIGTERM :: int where "SIGTERM = 15"
definition SIGCHLD :: int where "SIGCHLD = 17"
definition SIGIO :: int where "SIGIO = 29"
definition SIGSYS :: int where "SIGSYS = 31"

text \<open>The table \<^verbatim>\<open>signals\<close>: number, name, and whether it has a handler; without one the signal is ignored.\<close>

definition signals :: "(int \<times> string \<times> bool) list" where
  "signals =
     [(SIGHUP, ''SIGHUP'', True), (SIGINT, ''SIGINT'', True), (SIGTERM, ''SIGTERM'', True), (SIGCHLD, ''SIGCHLD'', True),
      (SIGQUIT, ''SIGQUIT'', True), (SIGIO, ''SIGIO'', True), (SIGSYS, ''SIGSYS, SIG_IGN'', False), (0, [], False)]"

fun init_signals_loop :: "(int \<Rightarrow> bool) \<Rightarrow> (int \<times> string \<times> bool) list \<Rightarrow> process \<Rightarrow> bool \<times> process" where
  "init_signals_loop ok [] p = (True, p)"
| "init_signals_loop ok ((signo, signame, has_handler) # sigs) p =
     (if signo = 0 then (True, p)
      else if \<not> ok signo then (False, p)
      else init_signals_loop ok sigs
        (p\<lparr>sigactions := (sigactions p)(signo := if has_handler then Ngx_signal_handler else SIG_IGN)\<rparr>))"

definition ngx_init_signals :: "(int \<Rightarrow> bool) \<Rightarrow> process \<Rightarrow> bool \<times> process" where
  "ngx_init_signals ok p = init_signals_loop ok signals p"

text \<open>
  What the kernel knows of the children: those that have ended and wait to be collected, with their status, and the
  number of those still running.
\<close>

datatype wstatus = Exited int | Signaled int | Other_status

record children =
  zombies :: "(int \<times> wstatus) list"
  alive :: nat

datatype log_entry =
    L_signal int "int option"
  | L_exited int int
  | L_killed int int
  | L_waitpid_failed

datatype wait_ret = Wait_none | Wait_child int wstatus | Wait_EINTR | Wait_ECHILD

text \<open>\<^verbatim>\<open>waitpid(-1, &status, WNOHANG)\<close>, interrupted as often as \<open>eintr\<close> says.\<close>

definition waitpid :: "bool \<Rightarrow> children \<Rightarrow> wait_ret \<times> children" where
  "waitpid interrupted k =
     (if interrupted then (Wait_EINTR, k)
      else case zombies k of
          z # zs \<Rightarrow> (Wait_child (fst z) (snd z), k\<lparr>zombies := zs\<rparr>)
        | [] \<Rightarrow> (if alive k = 0 then Wait_ECHILD else Wait_none, k))"

fun ngx_process_get_status :: "nat \<Rightarrow> children \<Rightarrow> log_entry list \<times> children" where
  "ngx_process_get_status eintr k =
     (case waitpid (eintr \<noteq> 0) k of
        (Wait_none, k) \<Rightarrow> ([], k)
      | (Wait_EINTR, k) \<Rightarrow> (if eintr = 0 then ([], k) else ngx_process_get_status (eintr - 1) k)
      | (Wait_ECHILD, k) \<Rightarrow> ([L_waitpid_failed], k)
      | (Wait_child pid status, k) \<Rightarrow>
          (case status of Signaled n \<Rightarrow> [L_killed pid n] | Exited c \<Rightarrow> [L_exited pid c] | Other_status \<Rightarrow> [], k))"

declare ngx_process_get_status.simps [simp del]

definition find_signal :: "int \<Rightarrow> int" where
  "find_signal signo = (case find (\<lambda>(n, _). n = 0 \<or> n = signo) signals of None \<Rightarrow> 0 | Some (n, _) \<Rightarrow> n)"

definition ngx_signal_handler ::
  "int \<Rightarrow> int \<Rightarrow> nat \<Rightarrow> children \<Rightarrow> process \<Rightarrow> log_entry list \<times> children \<times> process" where
  "ngx_signal_handler signo si_pid eintr k p =
     (let p = (if ngx_process p = NGX_PROCESS_MASTER \<and> find_signal signo = SIGCHLD then p\<lparr>ngx_reap := 1\<rparr> else p);
          entry = L_signal signo (if signo \<noteq> 0 \<and> si_pid \<noteq> 0 then Some si_pid else None) in
      if signo = SIGCHLD then
        (let (es, k) = ngx_process_get_status eintr k in (entry # es, k, p))
      else ([entry], k, p))"

section \<open>Master and workers\<close>

definition master_signals :: "int list" where
  "master_signals = [SIGCHLD, 14, SIGIO, SIGINT, SIGHUP, 10, 12, 28, SIGTERM, SIGQUIT]"

text \<open>
  \<^verbatim>\<open>ngx_worker_process_init\<close>: the signal mask is cleared, the pool of five threads is made, epoll started; the inner
  \<^const>\<open>None\<close> is the exit of \<^verbatim>\<open>ngx_epoll_init\<close>.
\<close>

definition ngx_worker_process_init ::
  "env \<Rightarrow> process \<Rightarrow> csocket \<Rightarrow> (process \<times> task cthread option \<times> csocket) option res" where
  "ngx_worker_process_init env p cs =
     res_bind (ngx_epoll_init env cs) (\<lambda>r. Inr (map_option (\<lambda>cs. (p\<lparr>sigmask := []\<rparr>, CThread 5 5, cs)) r))"

text \<open>A worker as \<^verbatim>\<open>ngx_spawn_process\<close> and \<^verbatim>\<open>ngx_worker_process_cycle\<close> start it, up to its loop.\<close>

record worker =
  w_inum :: nat
  w_proc :: process
  w_title :: title_state
  w_pool :: "task cthread option"
  w_socket :: csocket

text \<open>\<^verbatim>\<open>ngx_worker_process_cycle\<close> up to its loop, which \<^const>\<open>worker_round\<close> models.\<close>

definition ngx_worker_process_cycle ::
  "env \<Rightarrow> nat \<Rightarrow> string \<Rightarrow> process \<Rightarrow> title_state \<Rightarrow> csocket \<Rightarrow> worker option res" where
  "ngx_worker_process_cycle env inum pprocname p ts cs =
     res_bind (ngx_worker_process_init env (p\<lparr>ngx_process := NGX_PROCESS_WORKER\<rparr>) cs) (\<lambda>r.
       case r of
         None \<Rightarrow> Inr None
       | Some (p, pool, cs) \<Rightarrow>
           res_bind (ngx_setproctitle pprocname ts) (\<lambda>ts.
             Inr (Some \<lparr>w_inum = inum, w_proc = p, w_title = ts, w_pool = pool, w_socket = cs\<rparr>)))"

text \<open>
  \<^verbatim>\<open>ngx_spawn_process\<close>: the value for the master, and the child if there is one. The child starts from a copy of
  the master's memory and never returns from its cycle, so the master alone goes on.
\<close>

definition ngx_spawn_process ::
  "env \<Rightarrow> nat \<Rightarrow> string \<Rightarrow> int \<Rightarrow> process \<Rightarrow> title_state \<Rightarrow> csocket \<Rightarrow> int \<times> worker option res option" where
  "ngx_spawn_process env inum pprocname pid p ts cs =
     (if pid = - 1 then (pid, None)
      else (pid, Some (ngx_worker_process_cycle env inum pprocname
        (p\<lparr>ngx_parent := ngx_pid p, ngx_pid := pid\<rparr>) ts cs)))"

fun ngx_start_worker_processes ::
  "env \<Rightarrow> (nat \<Rightarrow> int) \<Rightarrow> nat \<Rightarrow> nat \<Rightarrow> process \<Rightarrow> title_state \<Rightarrow> csocket \<Rightarrow> worker option res list" where
  "ngx_start_worker_processes env fork i 0 p ts cs = []"
| "ngx_start_worker_processes env fork i (Suc n) p ts cs =
     (case snd (ngx_spawn_process env i ''worker process test'' (fork i) p ts cs) of
        None \<Rightarrow> ngx_start_worker_processes env fork (Suc i) n p ts cs
      | Some w \<Rightarrow> w # ngx_start_worker_processes env fork (Suc i) n p ts cs)"

text \<open>
  \<^verbatim>\<open>ngx_master_process_cycle\<close> up to its loop. \<open>garbage\<close> is what the uninitialised \<^verbatim>\<open>workernum\<close> holds, which stays in
  use when the setting is missing; \<open>mask_ok\<close> is the result of \<^verbatim>\<open>sigprocmask\<close>, whose failure is only logged.
\<close>

definition ngx_master_process_cycle ::
  "env \<Rightarrow> (nat \<Rightarrow> int) \<Rightarrow> bool \<Rightarrow> int \<Rightarrow> CConfItem list \<Rightarrow> process \<Rightarrow> title_state \<Rightarrow> csocket \<Rightarrow>
     (process \<times> title_state \<times> worker option res list) res" where
  "ngx_master_process_cycle env fork mask_ok garbage items p ts cs =
     (let p = (if mask_ok then p\<lparr>sigmask := sigmask p @ master_signals\<rparr> else p) in
      res_bind (ngx_setproctitle ''master process test'' ts) (\<lambda>ts.
      res_bind (GetNum items ''WorkerProcesses'' garbage) (\<lambda>(_, workernum).
      Inr (p, ts, ngx_start_worker_processes env fork 0 (nat workernum) p ts cs))))"

section \<open>The program\<close>

record system =
  sys_conf :: "string option"
  sys_log_opens :: bool
  sys_pid :: int
  sys_ppid :: int
  sys_daemon :: daemon_sys
  sys_sigaction :: "int \<Rightarrow> bool"
  sys_listen :: "nat \<Rightarrow> listen_sys"
  sys_fork :: "nat \<Rightarrow> int"
  sys_mask_ok :: bool
  sys_garbage :: int
  sys_env :: env

text \<open>
  \<^verbatim>\<open>ngx_sys_init\<close>; \<open>fuel\<close> bounds the reading of the configuration, \<open>cs\<close> is the memory the socket object is made in. The
  log is opened by an exception-throwing constructor that nobody guards.
\<close>

definition ngx_sys_init ::
  "nat \<Rightarrow> system \<Rightarrow> process \<Rightarrow> title_state \<Rightarrow> csocket \<Rightarrow>
     (bool \<times> process \<times> CConfItem list \<times> title_state \<times> csocket) res option" where
  "ngx_sys_init fuel sy p ts cs =
     (let p = p\<lparr>ngx_pid := sys_pid sy, ngx_parent := sys_ppid sy, ngx_reap := 0, ngx_process := NGX_PROCESS_MASTER\<rparr> in
      map_option (\<lambda>r. res_bind r (\<lambda>(ok, items).
        if \<not> ok then Inr (False, p, items, ts, cs)
        else if \<not> sys_log_opens sy then Inl UncaughtException
        else res_bind (ngx_init_setproctitle ts) (\<lambda>ts. Inr (True, p, items, ts, CSocket cs))))
      (Load fuel (sys_conf sy) []))"

text \<open>How \<^verbatim>\<open>main\<close> ends: with an exit code and the memory of the environment it leaves, or in the endless loop of the master with its workers.\<close>

datatype outcome = Exit int title_state | Master process title_state "worker option res list"

text \<open>\<^verbatim>\<open>daemoncode = GetNum(...)\<close> stores the flag that \<^verbatim>\<open>GetNum\<close> returns, converted to \<^verbatim>\<open>int\<close>.\<close>

definition main :: "nat \<Rightarrow> system \<Rightarrow> process \<Rightarrow> title_state \<Rightarrow> csocket \<Rightarrow> outcome res option" where
  "main fuel sy p ts cs =
     map_option (\<lambda>r. res_bind r (\<lambda>(ok, p, items, ts, cs).
       if \<not> ok then Inr (Exit (- 1) ts)
       else
         res_bind (GetNum items ''Daemon'' 0) (\<lambda>(found, _).
         let daemoncode = (if found then 1 else 0 :: int);
             (ret, p) = (if daemoncode = 1 then ngx_daemon (sys_daemon sy) p else (0, p)) in
         if daemoncode = 1 \<and> ret = - 1 then Inr (Exit (- 1) (freeresource ts))
         else if daemoncode = 1 \<and> ret = 1 then Inr (Exit 0 (freeresource ts))
         else
           let p = (if daemoncode = 1 then p\<lparr>g_daemonized := 1\<rparr> else p);
               (_, p) = ngx_init_signals (sys_sigaction sy) p in
           res_bind (Initialize items (sys_listen sy) cs) (\<lambda>(_, cs).
           res_bind (ngx_master_process_cycle (sys_env sy) (sys_fork sy) (sys_mask_ok sy) (sys_garbage sy) items p ts cs)
             (\<lambda>(p, ts, ws). Inr (Master p ts ws))))))
     (ngx_sys_init fuel sy p ts cs)"

section \<open>Lemmas\<close>

definition handled :: "int list" where
  "handled = [SIGHUP, SIGINT, SIGTERM, SIGCHLD, SIGQUIT, SIGIO, SIGSYS]"

lemmas signal_numbers = SIGHUP_def SIGINT_def SIGTERM_def SIGCHLD_def SIGQUIT_def SIGIO_def SIGSYS_def

fun set_disposition :: "(int \<Rightarrow> disposition) \<Rightarrow> int \<times> string \<times> bool \<Rightarrow> int \<Rightarrow> disposition" where
  "set_disposition f (signo, _, has_handler) = f(signo := if has_handler then Ngx_signal_handler else SIG_IGN)"

text \<open>The registration loop on any table whose numbers are not 0.\<close>

lemma init_signals_loop_prefix:
  "0 \<notin> fst ` set sigs \<Longrightarrow>
   init_signals_loop ok (sigs @ (0, x) # others) p =
     (list_all (\<lambda>(n, _). ok n) sigs,
      p\<lparr>sigactions := foldl set_disposition (sigactions p)
          (takeWhile (\<lambda>(n, _). ok n) sigs)\<rparr>)"
proof (induction sigs arbitrary: p)
  case Nil
  then show ?case by (cases x) simp
next
  case (Cons s sigs)
  then show ?case by (cases s) auto
qed

text \<open>Interruptions only delay the collection of a child.\<close>

lemma get_status_eintr:
  "ngx_process_get_status eintr k = ngx_process_get_status 0 k"
  by (induction eintr) (simp_all add: ngx_process_get_status.simps [of "Suc _"] waitpid_def)

fun status_entry :: "int \<Rightarrow> wstatus \<Rightarrow> log_entry list" where
  "status_entry pid (Signaled n) = [L_killed pid n]"
| "status_entry pid (Exited c) = [L_exited pid c]"
| "status_entry pid Other_status = []"

lemma get_status_zombie:
  "zombies k = (pid, st) # zs \<Longrightarrow> ngx_process_get_status eintr k = (status_entry pid st, k\<lparr>zombies := zs\<rparr>)"
  by (subst get_status_eintr) (cases st; simp add: ngx_process_get_status.simps waitpid_def)

lemma find_signal_SIGCHLD: "find_signal SIGCHLD = SIGCHLD"
  by (simp add: find_signal_def signals_def signal_numbers)

lemma sys_init_socket:
  "ngx_sys_init fuel sy p ts raw = Some (Inr (True, p1, items, ts1, cs)) \<Longrightarrow> cs = CSocket raw"
  by (auto simp: ngx_sys_init_def Let_def split: if_splits)

text \<open>One worker for every fork that succeeds.\<close>

lemma start_workers_spec:
  "ngx_start_worker_processes env fork i n p ts cs =
   map (\<lambda>j. ngx_worker_process_cycle env j ''worker process test'' (p\<lparr>ngx_parent := ngx_pid p, ngx_pid := fork j\<rparr>) ts cs)
     (filter (\<lambda>j. fork j \<noteq> - 1) [i..<i + n])"
proof (induction n arbitrary: i)
  case (Suc n)
  have "[i..<i + Suc n] = i # [Suc i..<Suc i + n]" by (simp add: upt_conv_Cons)
  then show ?case using Suc [of "Suc i"] by (simp add: ngx_spawn_process_def)
qed simp

text \<open>The workers, when the socket object is ready for them.\<close>

lemma start_workers:
  assumes ready: "m_pconnections cs = []" "1 \<le> m_worker_connections cs"
      "m_connection_n_max cs = m_worker_connections cs + m_worker_connections cs div 2"
      "(m_worker_connections cs div 2) mod 16 = 0" "e_epoll_ok env"
      "int (length (m_ListenSocketList cs)) < m_worker_connections cs" "distinct (map l_fd (m_ListenSocketList cs))" "tasks cs = []"
    and title: "ngx_setproctitle ''worker process test'' ts = Inr ts'"
  shows "\<exists>cs'. ngx_start_worker_processes env fork 0 n p ts cs =
       map (\<lambda>j. Inr (Some \<lparr>w_inum = j, w_proc = p\<lparr>ngx_parent := ngx_pid p, ngx_pid := fork j, ngx_process := NGX_PROCESS_WORKER,
            sigmask := []\<rparr>, w_title = ts', w_pool = CThread 5 5, w_socket = cs'\<rparr>))
         (filter (\<lambda>j. fork j \<noteq> - 1) [0..<n]) \<and>
     tasks cs' = [T_ngx_time_check, T_ngx_timer_free_connection] \<and>
     (\<forall>k < length (m_ListenSocketList cs). listens_on cs' k (m_ListenSocketList cs ! k))"
proof -
  obtain cs' where cs': "ngx_epoll_init env cs = Inr (Some cs')"
    "tasks cs' = tasks cs @ [T_ngx_time_check, T_ngx_timer_free_connection]"
    "\<forall>k < length (m_ListenSocketList cs). listens_on cs' k (m_ListenSocketList cs ! k)"
    using epoll_init_listens [OF ready(1-7)] by blast
  have "ngx_worker_process_cycle env j ''worker process test'' (p\<lparr>ngx_parent := ngx_pid p, ngx_pid := fork j\<rparr>) ts cs =
     Inr (Some \<lparr>w_inum = j, w_proc = p\<lparr>ngx_parent := ngx_pid p, ngx_pid := fork j, ngx_process := NGX_PROCESS_WORKER,
            sigmask := []\<rparr>, w_title = ts', w_pool = CThread 5 5, w_socket = cs'\<rparr>)" for j
    using cs'(1) title by (simp add: ngx_worker_process_cycle_def ngx_worker_process_init_def)
  then have "ngx_start_worker_processes env fork 0 n p ts cs =
       map (\<lambda>j. Inr (Some \<lparr>w_inum = j, w_proc = p\<lparr>ngx_parent := ngx_pid p, ngx_pid := fork j, ngx_process := NGX_PROCESS_WORKER,
            sigmask := []\<rparr>, w_title = ts', w_pool = CThread 5 5, w_socket = cs'\<rparr>))
         (filter (\<lambda>j. fork j \<noteq> - 1) [0..<n])"
    by (simp only: start_workers_spec add_0)
  then show ?thesis
    using cs'(2,3) ready(8) by (intro exI [of _ cs']) simp
qed

section \<open>Properties\<close>

text \<open>
  C29. The handlers are installed as the table says. \<^verbatim>\<open>ngx_init_signals\<close> succeeds exactly when every registration
  does; the seven signals of the table before the first failure get their disposition (the handler, or to be ignored
  for \<^verbatim>\<open>SIGSYS\<close>), every other signal keeps its own.
\<close>

theorem signals_installed:
  "ngx_init_signals ok p =
     (list_all ok handled,
      p\<lparr>sigactions := (\<lambda>s. if s \<in> set (takeWhile ok handled) then (if s = SIGSYS then SIG_IGN else Ngx_signal_handler)
         else sigactions p s)\<rparr>)"
proof -
  let ?sigs = "butlast signals"
  have "signals = ?sigs @ (0, [], False) # []" "0 \<notin> fst ` set ?sigs"
    by (simp_all add: signals_def signal_numbers)
  then have "ngx_init_signals ok p = (list_all (\<lambda>(n, _). ok n) ?sigs,
      p\<lparr>sigactions := foldl set_disposition (sigactions p)
          (takeWhile (\<lambda>(n, _). ok n) ?sigs)\<rparr>)"
    using init_signals_loop_prefix [of ?sigs ok] unfolding ngx_init_signals_def by metis
  then show ?thesis
    by (auto simp: signals_def handled_def signal_numbers fun_eq_iff)
qed

text \<open>
  A signal collects one child. The handler of \<^verbatim>\<open>SIGCHLD\<close>, however often \<^verbatim>\<open>waitpid\<close> is interrupted, collects the
  first ended child, logs how it ended and marks the change in the master; all other ended children stay
  uncollected. Signals of one kind are not counted while they are blocked, as they are in the master outside
  \<^verbatim>\<open>sigsuspend\<close>, so of children that end together all but one remain zombies.
\<close>

theorem one_child_collected:
  assumes "zombies k = (pid, st) # zs"
  shows "ngx_signal_handler SIGCHLD si_pid eintr k p =
     (L_signal SIGCHLD (if si_pid \<noteq> 0 then Some si_pid else None) # status_entry pid st, k\<lparr>zombies := zs\<rparr>,
      if ngx_process p = NGX_PROCESS_MASTER then p\<lparr>ngx_reap := 1\<rparr> else p)"
  using get_status_zombie [OF assms, of eintr]
  by (simp add: ngx_signal_handler_def find_signal_SIGCHLD Let_def) (simp add: SIGCHLD_def)

theorem one_child_collected_witness:
  "\<forall>p. snd (snd (ngx_signal_handler SIGCHLD 70 2 \<lparr>zombies = [(70, Exited 0), (71, Signaled 9)], alive = 2\<rparr> p)) =
       (if ngx_process p = NGX_PROCESS_MASTER then p\<lparr>ngx_reap := 1\<rparr> else p) \<and>
     zombies (fst (snd (ngx_signal_handler SIGCHLD 70 2 \<lparr>zombies = [(70, Exited 0), (71, Signaled 9)], alive = 2\<rparr> p))) =
       [(71, Signaled 9)]"
  using one_child_collected [of "\<lparr>zombies = [(70, Exited 0), (71, Signaled 9)], alive = 2\<rparr>" 70 "Exited 0" "[(71, Signaled 9)]" 70 2]
  by simp

text \<open>
  The master starts one worker per successful fork. The workers are, in order, the numbers below the
  configured one whose fork succeeded; each is a child of the master with its own process id, runs as a worker with
  no signal blocked, has a pool of five threads and a socket object whose first two tasks are the heartbeat check and
  the delayed release of connections.
\<close>

theorem workers_started:
  assumes ready: "m_pconnections cs = []" "1 \<le> m_worker_connections cs"
      "m_connection_n_max cs = m_worker_connections cs + m_worker_connections cs div 2"
      "(m_worker_connections cs div 2) mod 16 = 0" "e_epoll_ok env"
      "int (length (m_ListenSocketList cs)) < m_worker_connections cs" "distinct (map l_fd (m_ListenSocketList cs))" "tasks cs = []"
    and title: "ngx_setproctitle ''worker process test'' ts = Inr ts'"
  shows "\<exists>cs'. ngx_start_worker_processes env fork 0 n p ts cs =
       map (\<lambda>j. Inr (Some \<lparr>w_inum = j, w_proc = p\<lparr>ngx_parent := ngx_pid p, ngx_pid := fork j, ngx_process := NGX_PROCESS_WORKER,
            sigmask := []\<rparr>, w_title = ts', w_pool = CThread 5 5, w_socket = cs'\<rparr>))
         (filter (\<lambda>j. fork j \<noteq> - 1) [0..<n]) \<and>
     tasks cs' = [T_ngx_time_check, T_ngx_timer_free_connection] \<and>
     (\<forall>k < length (m_ListenSocketList cs). listens_on cs' k (m_ListenSocketList cs ! k))"
  by (rule start_workers [OF ready title])

definition sample_title :: title_state where
  "sample_title = \<lparr>area = ''master process test'' @ replicate 21 NUL, g_os_argv = [Some 0, None], environ = [],
     gp_envmem = ''A=1'' @ replicate 17 NUL, g_environlen = 20\<rparr>"

definition sample_process :: process where
  "sample_process = \<lparr>ngx_pid = 50, ngx_parent = 1, ngx_process = 0, ngx_reap = 0, g_daemonized = 0, session_leader = False,
     null_fds = [], sigmask = master_signals, sigactions = (\<lambda>_. SIG_DFL)\<rparr>"

theorem workers_started_witness:
  "\<exists>cs' ts'. ngx_start_worker_processes sample_env (\<lambda>i. if i = 1 then - 1 else 60 + int i) 0 3 sample_process sample_title
       (sample_socket\<lparr>m_ListenSocketList := [\<lparr>port = 80, l_fd = 4, l_connection = None\<rparr>]\<rparr>) =
     map (\<lambda>j. Inr (Some \<lparr>w_inum = j, w_proc = sample_process\<lparr>ngx_parent := 50, ngx_pid := 60 + int j, ngx_process := 1, sigmask := []\<rparr>,
       w_title = ts', w_pool = CThread 5 5, w_socket = cs'\<rparr>)) [0, 2] \<and>
     listens_on cs' 0 \<lparr>port = 80, l_fd = 4, l_connection = None\<rparr>"
proof -
  let ?cs = "sample_socket\<lparr>m_ListenSocketList := [\<lparr>port = 80, l_fd = 4, l_connection = None\<rparr>]\<rparr>"
  let ?fork = "\<lambda>i :: nat. if i = 1 then - 1 else 60 + int i"
  have t: "\<exists>ts'. ngx_setproctitle ''worker process test'' sample_title = Inr ts'"
    by (auto simp: ngx_setproctitle_def sample_title_def cstr_at_def cstr_def poke_def Let_def)
  then obtain ts' where ts': "ngx_setproctitle ''worker process test'' sample_title = Inr ts'" by blast
  have "\<exists>cs'. ngx_start_worker_processes sample_env ?fork 0 3 sample_process sample_title ?cs =
       map (\<lambda>j. Inr (Some \<lparr>w_inum = j, w_proc = sample_process\<lparr>ngx_parent := ngx_pid sample_process, ngx_pid := ?fork j,
            ngx_process := NGX_PROCESS_WORKER, sigmask := []\<rparr>, w_title = ts', w_pool = CThread 5 5, w_socket = cs'\<rparr>))
         (filter (\<lambda>j. ?fork j \<noteq> - 1) [0..<3]) \<and>
     tasks cs' = [T_ngx_time_check, T_ngx_timer_free_connection] \<and>
     (\<forall>k < length (m_ListenSocketList ?cs). listens_on cs' k (m_ListenSocketList ?cs ! k))"
    by (rule workers_started [OF _ _ _ _ _ _ _ _ ts']) (simp_all add: sample_socket_def sample_env_def)
  moreover have "filter (\<lambda>j. ?fork j \<noteq> - 1) [0..<3] = [0, 2]" by (simp add: numeral_3_eq_3 numeral_2_eq_2)
  ultimately show ?thesis by (auto simp: sample_process_def NGX_PROCESS_WORKER_def)
qed

text \<open>
  Whether the program becomes a daemon depends on the presence of the setting, not on its value. With any number
  as the value of \<^verbatim>\<open>Daemon\<close>, 0 included, \<^verbatim>\<open>main\<close> forks a daemon and its first process ends with code 0; the
  configuration file documents 0 as off.
\<close>

theorem daemon_by_presence:
  assumes "ngx_sys_init fuel sy p ts cs = Some (Inr (True, p1, items, ts1, cs1))" "num_of items ''Daemon'' = Some v"
    and "0 < d_fork (sys_daemon sy)"
  shows "main fuel sy p ts cs = Some (Inr (Exit 0 (freeresource ts1)))"
  using assms GetNum_num_of [OF assms(2), of 0] by (simp add: main_def ngx_daemon_def)

definition sample_system :: system where
  "sample_system = \<lparr>sys_conf = Some (''Daemon = 0;'' @ [LF]), sys_log_opens = True, sys_pid = 50, sys_ppid = 1,
     sys_daemon = \<lparr>d_fork = 51, d_getpid = 51, d_setsid = True, d_open = 3, d_dup_in = True, d_dup_out = True, d_close = True\<rparr>,
     sys_sigaction = (\<lambda>_. True), sys_listen = sample_sys, sys_fork = (\<lambda>i. 60 + int i), sys_mask_ok = True, sys_garbage = 0,
     sys_env = sample_env\<rparr>"

theorem daemon_by_presence_witness:
  "\<forall>cs. \<exists>ts. main 5 sample_system sample_process (started_process [''./nginx''] [] []) cs = Some (Inr (Exit 0 ts))"
proof
  fix cs
  let ?item = "\<lparr>ItemName = ''Daemon'', IterContent = ''0''\<rparr>"
  have l: "Load 5 (Some (''Daemon = 0;'' @ [LF])) [] = Some (Inr (True, [?item]))"
    by code_simp
  obtain ts1 where t: "ngx_init_setproctitle (started_process [''./nginx''] [] []) = Inr ts1"
    using init_started [of "[''./nginx'']" "[]" "[]"] by auto
  have "\<exists>p1 cs1. ngx_sys_init 5 sample_system sample_process (started_process [''./nginx''] [] []) cs = Some (Inr (True, p1, [?item], ts1, cs1))"
    using l t by (simp add: ngx_sys_init_def sample_system_def)
  moreover have "num_of [?item] ''Daemon'' = Some 0" by code_simp
  moreover have "0 < d_fork (sys_daemon sample_system)" by (simp add: sample_system_def)
  ultimately show "\<exists>ts. main 5 sample_system sample_process (started_process [''./nginx''] [] []) cs = Some (Inr (Exit 0 ts))"
    using daemon_by_presence by blast
qed

text \<open>
  The exact result of \<^verbatim>\<open>ngx_daemon\<close>: it reports success in the child when \<^verbatim>\<open>setsid\<close> fails, since \<^verbatim>\<open>false\<close> is 0, and
  a descriptor that could not be opened is noticed only through \<^verbatim>\<open>dup2\<close>.
\<close>

theorem daemon_success:
  "fst (ngx_daemon s p) = 0 \<longleftrightarrow>
     d_fork s = 0 \<and> (\<not> d_setsid s \<or> d_dup_in s \<and> d_dup_out s \<and> (d_open s \<le> 2 \<or> d_close s))"
  by (auto simp: ngx_daemon_def Let_def)

end
