(* ===== verification/Spec2Isabelle.thy ===== *)
theory Spec2Isabelle
  imports Singletons WorkerSafe PingReply Master
begin

text \<open>
  Verification of a network server in the style of nginx: a master process forks workers; each worker owns a pool of
  connections, waits for epoll events, assembles messages (an 8 byte header with length, code and checksum,
  then a body), hands complete messages to a pool of threads, which answer pings and HTTP requests, and checks by
  heartbeat which connections are alive.

  The parts, bottom up, with the theory that models each and the sources it is translated from (paths under \<^verbatim>\<open>src/\<close>):

  \<^item> \<^verbatim>\<open>NgxPrelude\<close>: errors as values, sequencing, lists with positions. An operation returns \<^typ>\<open>'a res\<close>:
    a value, or a fault (null pointer, access outside an object, released memory, uncaught exception, a lock that never
    comes free). \<^verbatim>\<open>CString\<close>: C strings, \<^verbatim>\<open>strchr\<close> and its relatives, decimal numbers, 32 bit wrap-around.
  \<^item> \<^verbatim>\<open>Crc32\<close> (\<^verbatim>\<open>misc/ngx_c_crc32.cpp\<close>): table and checksum at 32 bits; the table method equals the bitwise definition of
    CRC-32 and detects every change of one byte.
  \<^item> \<^verbatim>\<open>Conf\<close> (\<^verbatim>\<open>app/ngx_c_conf.cpp\<close>, \<^verbatim>\<open>_include/ngx_c_conf.h\<close>): reading of \<^verbatim>\<open>nginx.conf\<close>, with the stream's fail bit. Files in the documented format (comments,
    section headers, settings; the shipped \<^verbatim>\<open>nginx.conf\<close> is the example) are read back exactly; a line of 500 characters makes \<^verbatim>\<open>Load\<close> run forever. \<^verbatim>\<open>Load\<close> takes fuel: the fuel bounds the lines read, for
    \<open>n\<close> short lines \<open>n + 2\<close> is enough, and divergence means that no fuel suffices.
  \<^item> \<^verbatim>\<open>NgxTimer\<close> (\<^verbatim>\<open>app/ngx_c_timer.cpp\<close>): deadlines as an ordered list for the \<^verbatim>\<open>multiset\<close>; order kept, earliest served, a timer
    makes all its calls under a clock that goes on and never more, the wait for epoll. The clock is an argument.
  \<^item> \<^verbatim>\<open>SockState\<close> (\<^verbatim>\<open>_include/ngx_c_socket.h\<close>, \<^verbatim>\<open>_include/ngx_comm.h\<close>, \<^verbatim>\<open>misc/ngx_c_memory.cpp\<close>): the members of \<^verbatim>\<open>CSocket\<close>, connections in arrays addressed by array and
    index, message memory as a store of blocks whose bytes may be unwritten.
  \<^item> \<^verbatim>\<open>ConnPool\<close> (\<^verbatim>\<open>net/ngx_c_socket_conn.cpp\<close>): the free list through \<^verbatim>\<open>next\<close>. An invariant describes the list as a path that
    meets every free connection once; from it: nothing is handed out twice, null exactly at exhaustion, stale
    messages are recognisable, and what growth by fewer than sixteen connections overwrites.
  \<^item> \<^verbatim>\<open>SockOps\<close> (\<^verbatim>\<open>net/ngx_c_socket.cpp\<close>, \<^verbatim>\<open>net/ngx_c_socket_ping.cpp\<close>): epoll registration, delayed release, the hang-up handler, the flood test against a specification on the
    history of gaps.
  \<^item> \<^verbatim>\<open>SendMsg\<close>, \<^verbatim>\<open>Recv\<close> (\<^verbatim>\<open>net/ngx_c_socket_request.cpp\<close>): sending, at once and after write events, and the receiving state machine in
    both trigger modes. What the virtual \<^verbatim>\<open>ReadFunc\<close> and \<^verbatim>\<open>WriteFunc\<close> return is an argument, a list of results (for \<^verbatim>\<open>WriteFunc\<close>, \<^verbatim>\<open>HttpWrite\<close>
    computes the list from the protocol object and the answers of the kernel); framing is proved
    for every division of the header and a body in up to two pieces, and the third piece is shown to go wrong.
  \<^item> \<^verbatim>\<open>SLogic\<close> (\<^verbatim>\<open>logic/ngx_c_slogic.cpp\<close>): dispatch of messages; the virtual \<^verbatim>\<open>Business\<close> is an argument here and
    becomes HTTP in \<^verbatim>\<open>HttpSession\<close>.
  \<^item> \<^verbatim>\<open>Heartbeat\<close> (\<^verbatim>\<open>net/ngx_c_socket_ping.cpp\<close>): the multimap of expected pings and one round of the check. The key of a refreshed entry passes through
    32 bits: up to January 2038 a round does what it should, afterwards it can fail to end, with any fuel.
  \<^item> \<^verbatim>\<open>Accept\<close> (\<^verbatim>\<open>net/ngx_c_socket_accept.cpp\<close>, \<^verbatim>\<open>net/ngx_c_socket.cpp\<close>, \<^verbatim>\<open>proc/ngx_process_cycle.cpp\<close>): accepting, the start of epoll, dispatch of events, one round of the worker's loop.
    \<^verbatim>\<open>Worker\<close> holds the lemmas on its start.
  \<^item> \<^verbatim>\<open>HttpParse\<close>, \<^verbatim>\<open>HttpReply\<close> (\<^verbatim>\<open>logic/ngx_c_http*.cpp\<close>, \<^verbatim>\<open>_include/ngx_c_http.h\<close>): parsing in place in the message buffer, the lookup of the file, the
    reply in its fixed buffer. Pointers into a buffer are indices. Parsing always ends (one pass more than the message has bytes is enough, since each
    pass consumes a line). Dates, weights, the clock and the files are arguments. \<^verbatim>\<open>HttpCond\<close> holds the specification: header fields with the conditions they
    state, the code a request gets under them, and the reply byte by byte; parsing and replying refine it, and the number of \<^verbatim>\<open>Range\<close> fields that the
    write buffer stands is bounded from both sides.
  \<^item> \<^verbatim>\<open>HttpWrite\<close> (\<^verbatim>\<open>logic/ngx_c_http.cpp\<close>): \<^verbatim>\<open>WriteData\<close>, which writes the parts of the object's last reply whatever buffer it is given, and gives
    up the mapping of the file with the first call; the answers the senders get from it.
  \<^item> \<^verbatim>\<open>HttpSession\<close>: what the dispatcher relies on of a protocol object, HTTP as an instance, and the composition of
    dispatch, HTTP and sending: the first \<^verbatim>\<open>GET\<close> message of a connection is served, the second brings the worker down.
  \<^item> \<^verbatim>\<open>Tls\<close> (\<^verbatim>\<open>misc/ngx_c_sslctx.cpp\<close>, \<^verbatim>\<open>misc/ngx_c_ssl.cpp\<close>, \<^verbatim>\<open>logic/ngx_c_https.cpp\<close>): the life of TLS objects, the handshake and shutdown loops, which return None
    when they never end, reading, and the writing of replies of HTTPS with the mapping of the file; HTTPS is a second protocol.
    What OpenSSL returns is an argument.
  \<^item> \<^verbatim>\<open>PingReply\<close>: dispatch of pings, senders and \<^verbatim>\<open>WriteData\<close> joined: a ping is never answered, and its sender spins.
  \<^item> \<^verbatim>\<open>ThreadPool\<close> (\<^verbatim>\<open>misc/ngx_c_threadpool.cpp\<close>): workers, manager, recycler and \<^verbatim>\<open>AddTask\<close> as an interleaved step relation; order of tasks by an
    interface for queues that the pool is an instance of, exact counters, mutual exclusion, progress of the mutex owner, that the
    workers end by themselves when the destructor finds none of them asleep, and the lost wake-up as a reachable state. Witness runs are computed by an executable version of the relation.
  \<^item> \<^verbatim>\<open>ProcTitle\<close> (\<^verbatim>\<open>app/ngx_setproctitle.cpp\<close>), \<^verbatim>\<open>Listen\<close> (\<^verbatim>\<open>net/ngx_c_socket.cpp\<close>, \<^verbatim>\<open>net/ngx_c_socket_inet.cpp\<close>), \<^verbatim>\<open>NgxLog\<close> (\<^verbatim>\<open>app/ngx_c_log.cpp\<close>, \<^verbatim>\<open>_include/ngx_c_log.h\<close>), \<^verbatim>\<open>Master\<close> (\<^verbatim>\<open>app/nginx.cpp\<close>, \<^verbatim>\<open>proc/\<close>, \<^verbatim>\<open>signal/\<close>): the start of the program, its
    processes, signals, listening sockets and log. System calls are arguments.

  \<^item> \<^verbatim>\<open>Singletons\<close>: access to the eight single objects (\<^verbatim>\<open>CCRC32\<close>, \<^verbatim>\<open>CMemory\<close>, \<^verbatim>\<open>CConfig\<close>, \<^verbatim>\<open>Timer\<close>, \<^verbatim>\<open>CSocket\<close>, \<^verbatim>\<open>Log\<close>, \<^verbatim>\<open>CThread\<close>, \<^verbatim>\<open>SSLCTXServer\<close>) and their
    destroyers: one object each when called one after another, the same in every interleaving of threads for those created through a static
    \<^verbatim>\<open>once_flag\<close>, and what the unlocked test allows.
  \<^item> \<^verbatim>\<open>Pipeline\<close>: the tasks of the thread pool with the bodies the socket code binds to them, and the way of a request through all components, from
    \<^verbatim>\<open>accept\<close> to the last byte of the reply.
  \<^item> \<^verbatim>\<open>WorkerSafe\<close>: a worker as a step relation: a round of the event loop; a thread takes a task; a started task runs to its end or, for the two
    checking tasks, for a round, after which they go on. Every operation keeps all stored connection pointers within the allocated arrays.

  This theory joins them in the property that the configured server comes up.

  Interfaces are locales with an interpretation on the model: the pool of connections as a provider of distinct items
  (\<^verbatim>\<open>resource_pool\<close> in \<^verbatim>\<open>ConnPool\<close>), timers as a queue of deadlines (\<^verbatim>\<open>deadline_queue\<close> in \<^verbatim>\<open>NgxTimer\<close>), the task queue of the thread pool as a
  system that serves in order (\<^verbatim>\<open>fifo_system\<close> in \<^verbatim>\<open>ThreadPool\<close>), the virtual methods of protocol objects (\<^verbatim>\<open>protocol\<close> in \<^verbatim>\<open>HttpSession\<close>, interpreted
  for HTTP there and for HTTPS in \<^verbatim>\<open>Tls\<close>), header fields and what parsing makes of them (\<^verbatim>\<open>header_fields\<close> in \<^verbatim>\<open>HttpParse\<close>, interpreted there for fields without effect and
  in \<^verbatim>\<open>HttpCond\<close> for the fields with conditions), and single objects (\<^verbatim>\<open>singleton\<close>, \<^verbatim>\<open>creator\<close> and \<^verbatim>\<open>once_created\<close> in \<^verbatim>\<open>Singletons\<close>, interpreted for the eight classes).

  Threads. Outside the thread pool the operations of a worker are taken as atomic, which the program ensures for one
  connection by its mutex; that mutex and the heartbeat mutex are part of the state, so an operation that locks a mutex it already holds is a fault.

  Not modelled: log texts, except in \<^verbatim>\<open>NgxLog\<close> and where signals report children; the address to bind to, which only the kernel
  sees; the conversions of settings to floating point, which no call uses; debug output; code in comments. The static destroyers
  are modelled one by one, not in the order of the end of a process. Further work: requests with a body in the refinement of parsing, tasks that
  interleave inside a step of a worker, and what the other threads do while a step waits for a lock without end.
\<close>

text \<open>
  C9. The server comes up. When the configuration names the number of workers, of connections and of ports and every port, is
  silent about \<^verbatim>\<open>Daemon\<close>, the system calls succeed and the two titles fit, \<^verbatim>\<open>main\<close> reaches the master's loop
  with one worker per successful fork, and every worker is registered with epoll for every configured port: an event
  on the port's socket leads to the connection whose handler accepts.
\<close>

theorem server_comes_up:
  assumes start: "ngx_sys_init fuel sy p ts raw = Some (Inr (True, p1, items, ts1, cs))"
    and conf: "find_item ''Daemon'' items = None" "num_of items ''WorkerProcesses'' = Some (int m)"
      "num_of items ''ListenPortCount'' = Some (int n)" "num_of items ''worker_connections'' = Some w"
      "list_all (absent_or_num items) optional_names"
    and lim: "int n < w" "w + w div 2 < 2 ^ 31" "(w div 2) mod 16 = 0"
    and ports: "list_all (\<lambda>j. sys_ok (sys_listen sy j) \<and> num_of items (port_name j) = Some (ports ! j)) [0..<n]"
      "distinct (map (\<lambda>j. s_socket (sys_listen sy j)) [0..<n])" "e_epoll_ok (sys_env sy)"
    and titles: "ngx_setproctitle ''master process test'' ts1 = Inr ts2" "ngx_setproctitle ''worker process test'' ts2 = Inr ts3"
    and none: "tasks raw = []"
  shows "\<exists>p' ws. main fuel sy p ts raw = Some (Inr (Master p' ts2 (map (\<lambda>wk. Inr (Some wk)) ws))) \<and>
     map w_inum ws = filter (\<lambda>j. sys_fork sy j \<noteq> - 1) [0..<m] \<and>
     (\<forall>wk \<in> set ws. \<forall>k < n. listens_on (w_socket wk) k \<lparr>port = ports ! k, l_fd = s_socket (sys_listen sy k), l_connection = None\<rparr>)"
proof -
  let ?cs = "initialized items (sys_listen sy) ports n w cs"
  have fresh: "m_pconnections cs = []" "m_ListenSocketList cs = []" "tasks cs = []"
    using sys_init_socket [OF start] none by (simp_all add: CSocket_def)
  have w: "0 \<le> w" "1 \<le> w" using lim(1) by auto
  have i: "Initialize items (sys_listen sy) cs = Inr (True, ?cs)"
    by (rule Initialize_ok [OF conf(3,4) w(1) lim(2) conf(5) ports(1)])
  have l: "m_ListenSocketList ?cs = opened (sys_listen sy) ports 0 n" using fresh by (simp add: initialized_def)
  have r: "m_pconnections ?cs = []" "1 \<le> m_worker_connections ?cs"
    "m_connection_n_max ?cs = m_worker_connections ?cs + m_worker_connections ?cs div 2"
    "(m_worker_connections ?cs div 2) mod 16 = 0" "int (length (m_ListenSocketList ?cs)) < m_worker_connections ?cs"
    "distinct (map l_fd (m_ListenSocketList ?cs))" "tasks ?cs = []"
    using fresh w lim ports(2) by (simp_all add: initialized_def opened_def comp_def)
  obtain p2 where s: "ngx_init_signals (sys_sigaction sy) p1 = p2" by blast
  let ?p = "if sys_mask_ok sy then (snd p2)\<lparr>sigmask := sigmask (snd p2) @ master_signals\<rparr> else snd p2"
  obtain cs' where cs': "ngx_start_worker_processes (sys_env sy) (sys_fork sy) 0 m ?p ts2 ?cs =
       map (\<lambda>j. Inr (Some \<lparr>w_inum = j, w_proc = ?p\<lparr>ngx_parent := ngx_pid ?p, ngx_pid := sys_fork sy j, ngx_process := NGX_PROCESS_WORKER,
            sigmask := []\<rparr>, w_title = ts3, w_pool = CThread 5 5, w_socket = cs'\<rparr>))
         (filter (\<lambda>j. sys_fork sy j \<noteq> - 1) [0..<m])"
    "\<forall>k < length (m_ListenSocketList ?cs). listens_on cs' k (m_ListenSocketList ?cs ! k)"
    using start_workers [OF r(1-4) ports(3) r(5-7) titles(2)] by blast
  let ?ws = "map (\<lambda>j. \<lparr>w_inum = j, w_proc = ?p\<lparr>ngx_parent := ngx_pid ?p, ngx_pid := sys_fork sy j, ngx_process := NGX_PROCESS_WORKER,
            sigmask := []\<rparr>, w_title = ts3, w_pool = CThread 5 5, w_socket = cs'\<rparr>) (filter (\<lambda>j. sys_fork sy j \<noteq> - 1) [0..<m])"
  have "GetNum items ''Daemon'' 0 = Inr (False, 0)" using conf(1) by (simp add: GetNum_def)
  then have "main fuel sy p ts raw = Some (Inr (Master ?p ts2 (map (\<lambda>wk. Inr (Some wk)) ?ws)))"
    using start i s titles(1) cs'(1) GetNum_num_of [OF conf(2), of "sys_garbage sy"]
    by (cases "sys_mask_ok sy") (simp_all add: main_def ngx_master_process_cycle_def split_def comp_def Let_def)
  moreover have "\<forall>k < n. listens_on cs' k \<lparr>port = ports ! k, l_fd = s_socket (sys_listen sy k), l_connection = None\<rparr>"
    using cs'(2) l by (simp add: opened_def)
  ultimately show ?thesis
    by (intro exI [of _ ?p] exI [of _ ?ws]) (auto simp: comp_def)
qed

text \<open>A small installation: two ports, two workers, room for 32 connections.\<close>

definition demo_conf :: string where
  "demo_conf = concat (map (\<lambda>l. l @ [LF])
     [''# demo'', ''WorkerProcesses = 2;'', ''ListenPortCount = 2;'', ''ListenPort0 = 80;'', ''ListenPort1 = 443;'',
      ''worker_connections = 32;''])"

definition demo_items :: "CConfItem list" where
  "demo_items = map (\<lambda>(n, v). \<lparr>ItemName = n, IterContent = v\<rparr>)
     [(''WorkerProcesses'', ''2''), (''ListenPortCount'', ''2''), (''ListenPort0'', ''80''), (''ListenPort1'', ''443''),
      (''worker_connections'', ''32'')]"

definition demo_system :: system where
  "demo_system = sample_system\<lparr>sys_conf := Some demo_conf\<rparr>"

definition demo_start :: title_state where
  "demo_start = started_process [''./nginx'', ''-c'', ''conf/nginx.conf''] [''A=1''] []"

lemma demo_loads: "Load 9 (Some demo_conf) [] = Some (Inr (True, demo_items))"
  by code_simp

lemma demo_nums:
  "num_of demo_items ''WorkerProcesses'' = Some 2" "num_of demo_items ''ListenPortCount'' = Some 2"
  "num_of demo_items ''worker_connections'' = Some 32" "num_of demo_items (port_name 0) = Some 80"
  "num_of demo_items (port_name (Suc 0)) = Some 443" "list_all (absent_or_num demo_items) optional_names"
  "find_item ''Daemon'' demo_items = None"
  by code_simp+

lemma res_bind_steps:
  "\<not> isl (res_bind (res_bind m f) g) \<Longrightarrow> \<exists>x y z. m = Inr x \<and> f x = Inr y \<and> g y = Inr z"
  by (cases "res_bind (res_bind m f) g") auto

lemma demo_titles:
  "\<not> isl (res_bind (res_bind (ngx_init_setproctitle demo_start) (ngx_setproctitle ''master process test''))
     (ngx_setproctitle ''worker process test''))"
  by code_simp

theorem server_comes_up_witness:
  "\<exists>p' ts2 w0 w1. main 9 demo_system sample_process demo_start sample_socket = Some (Inr (Master p' ts2 [Inr (Some w0), Inr (Some w1)])) \<and>
     (\<forall>wk \<in> {w0, w1}. listens_on (w_socket wk) 0 \<lparr>port = 80, l_fd = 5, l_connection = None\<rparr> \<and>
        listens_on (w_socket wk) 1 \<lparr>port = 443, l_fd = 6, l_connection = None\<rparr>)"
proof -
  obtain ts1 ts2 ts3 where t: "ngx_init_setproctitle demo_start = Inr ts1" "ngx_setproctitle ''master process test'' ts1 = Inr ts2"
    "ngx_setproctitle ''worker process test'' ts2 = Inr ts3"
    using res_bind_steps [OF demo_titles] by blast
  obtain p1 where start: "ngx_sys_init 9 demo_system sample_process demo_start sample_socket =
      Some (Inr (True, p1, demo_items, ts1, CSocket sample_socket))"
    using demo_loads t(1) by (simp add: ngx_sys_init_def demo_system_def sample_system_def)
  have ports: "list_all (\<lambda>j. sys_ok (sys_listen demo_system j) \<and> num_of demo_items (port_name j) = Some ([80, 443] ! j)) [0..<2]"
    "distinct (map (\<lambda>j. s_socket (sys_listen demo_system j)) [0..<2])" "e_epoll_ok (sys_env demo_system)"
    using demo_nums by (simp_all add: numeral_2_eq_2 sys_ok_def demo_system_def sample_system_def sample_sys_def sample_env_def)
  have none: "tasks sample_socket = []" by (simp add: sample_socket_def)
  have n: "num_of demo_items ''WorkerProcesses'' = Some (int 2)" "num_of demo_items ''ListenPortCount'' = Some (int 2)"
    using demo_nums by simp_all
  obtain p' ws where ws: "main 9 demo_system sample_process demo_start sample_socket =
      Some (Inr (Master p' ts2 (map (\<lambda>wk. Inr (Some wk)) ws)))"
    "map w_inum ws = filter (\<lambda>j. sys_fork demo_system j \<noteq> - 1) [0..<2]"
    "\<forall>wk \<in> set ws. \<forall>k < 2. listens_on (w_socket wk) k
       \<lparr>port = [80, 443] ! k, l_fd = s_socket (sys_listen demo_system k), l_connection = None\<rparr>"
    using server_comes_up [OF start demo_nums(7) n demo_nums(3,6) _ _ _ ports t(2,3) none] by auto
  have "length ws = 2"
    using arg_cong [OF ws(2), of length] by (simp add: demo_system_def sample_system_def)
  then obtain w0 w1 where "ws = [w0, w1]" by (auto simp: numeral_2_eq_2 length_Suc_conv)
  then show ?thesis
    using ws(1,3) by (auto simp: demo_system_def sample_system_def sample_sys_def numeral_2_eq_2 less_Suc_eq)
qed

end
